(* ===== verification/Semantic_Types.thy ===== *)
theory Semantic_Types
  imports Prelude
begin

section \<open>The data of the semantic layer\<close>

text \<open>
  The types of \<open>pawrly-core\<close> that the semantic compiler works on (\<open>semantic.rs\<close>, \<open>safety.rs\<close>, the
  \<open>SafetyError\<close> of \<open>error.rs\<close>, \<open>TableName\<close> of \<open>schema.rs\<close>), the errors of \<open>pawrly-semantic\<close>, and
  the operations \<open>pawrly-core\<close> defines on them: time grains, the tokens of a derived metric, the
  references of a metric.  Field names carry a prefix because record fields share one name space.
  \<open>u64\<close> and \<open>u32\<close> fields that are only compared, minimised and printed are \<open>nat\<close>.
\<close>

subsection \<open>Table names and safety policies\<close>

record TableName =
  tn_schema :: string
  tn_table :: string

definition TableName_parse :: "string \<Rightarrow> TableName option" where
  "TableName_parse s =
     (case split_once (CHR ''.'') s of
        None \<Rightarrow> None
      | Some (schema, table) \<Rightarrow>
          if schema = [] \<or> table = [] then None
          else Some \<lparr>tn_schema = schema, tn_table = table\<rparr>)"

definition TableName_display :: "TableName \<Rightarrow> string" where
  "TableName_display t = tn_schema t @ ''.'' @ tn_table t"

record SafetyPolicy =
  require_filters_on :: "string list"
  require_at_least_one_filter :: bool
  sp_max_rows :: "nat option"
  sp_max_pages :: "nat option"
  sp_timeout :: "nat option"
  required_predicates :: "string list"

definition permissive :: SafetyPolicy where
  "permissive = \<lparr>require_filters_on = [], require_at_least_one_filter = False,
     sp_max_rows = None, sp_max_pages = None, sp_timeout = None, required_predicates = []\<rparr>"

definition raw_http :: SafetyPolicy where
  "raw_http = permissive\<lparr>require_filters_on := [''request_path''],
     require_at_least_one_filter := True\<rparr>"

datatype SafetyError =
    MissingRequiredFilter string string
  | NoFilters string
  | TooManyRows string nat
  | TooManyPages string nat
  | UnboundParam string string
  | PredicateUnsatisfied string string string

subsection \<open>Time grains\<close>

datatype TimeGrain = Hour | Day | Week | Month | Quarter | Year

fun grain_as_str :: "TimeGrain \<Rightarrow> string" where
  "grain_as_str Hour = ''hour''"
| "grain_as_str Day = ''day''"
| "grain_as_str Week = ''week''"
| "grain_as_str Month = ''month''"
| "grain_as_str Quarter = ''quarter''"
| "grain_as_str Year = ''year''"

definition grain_parse :: "string \<Rightarrow> TimeGrain option" where
  "grain_parse s =
     (if s = ''hour'' then Some Hour
      else if s = ''day'' then Some Day
      else if s = ''week'' then Some Week
      else if s = ''month'' then Some Month
      else if s = ''quarter'' then Some Quarter
      else if s = ''year'' then Some Year
      else None)"

fun grain_rank :: "TimeGrain \<Rightarrow> nat" where
  "grain_rank Hour = 0"
| "grain_rank Day = 1"
| "grain_rank Week = 2"
| "grain_rank Month = 3"
| "grain_rank Quarter = 4"
| "grain_rank Year = 5"

definition can_roll_up_to :: "TimeGrain \<Rightarrow> TimeGrain \<Rightarrow> bool" where
  "can_roll_up_to g coarser =
     (if g = coarser then True
      else case g of
             Hour \<Rightarrow> True
           | Day \<Rightarrow> coarser \<in> {Week, Month, Quarter, Year}
           | Week \<Rightarrow> False
           | Month \<Rightarrow> coarser \<in> {Quarter, Year}
           | Quarter \<Rightarrow> coarser \<in> {Year}
           | Year \<Rightarrow> False)"

subsection \<open>Models\<close>

datatype DimensionType = TString | TNumber | TTime | TBool

record Dimension =
  d_name :: string
  d_expr :: string
  d_data_type :: DimensionType
  d_time_grains :: "TimeGrain list"
  d_description :: "string option"

datatype MeasureAgg = Sum | Count | CountDistinct | Avg | Min | Max | Custom string

fun agg_label :: "MeasureAgg \<Rightarrow> string" where
  "agg_label Sum = ''sum''"
| "agg_label Count = ''count''"
| "agg_label CountDistinct = ''count_distinct''"
| "agg_label Avg = ''avg''"
| "agg_label Min = ''min''"
| "agg_label Max = ''max''"
| "agg_label (Custom _) = ''custom''"

record Measure =
  ms_name :: string
  ms_agg :: MeasureAgg
  ms_expr :: string
  ms_filters :: "string list"
  ms_format :: "string option"
  ms_description :: "string option"

datatype RelationshipKind = ManyToOne | OneToMany | OneToOne

fun join_kind :: "RelationshipKind \<Rightarrow> string" where
  "join_kind OneToMany = ''LEFT''"
| "join_kind ManyToOne = ''INNER''"
| "join_kind OneToOne = ''INNER''"

record Relationship =
  r_name :: string
  r_kind :: RelationshipKind
  r_target_model :: string
  r_join_predicate :: string

record PreAggregation =
  pa_name :: string
  pa_dimensions :: "string list"
  pa_measures :: "string list"
  pa_refresh :: "nat option"
  pa_partition_by :: "string option"

datatype FilterOp =
    Equals | NotEquals | In | NotIn | Gt | Gte | Lt | Lte | InRange
  | Contains | StartsWith | EndsWith | IsNull | IsNotNull

record SemanticFilter =
  f_member :: string
  f_op :: FilterOp
  f_values :: "string list"

record Segment =
  seg_name :: string
  seg_description :: "string option"
  seg_filters :: "SemanticFilter list"

record SemanticModel =
  m_name :: string
  m_description :: "string option"
  m_source :: string
  m_primary_key :: "string list"
  m_dimensions :: "Dimension list"
  m_measures :: "Measure list"
  m_relationships :: "Relationship list"
  m_pre_aggregations :: "PreAggregation list"
  m_segments :: "Segment list"
  m_safety :: "SafetyPolicy option"

subsection \<open>Queries\<close>

datatype OrderDir = Asc | Desc

record SemanticOrder =
  o_member :: string
  o_direction :: OrderDir

record SemanticQuery =
  q_measures :: "string list"
  q_dimensions :: "string list"
  q_filters :: "SemanticFilter list"
  q_segments :: "string list"
  q_order_by :: "SemanticOrder list"
  q_limit :: "nat option"
  q_time_zone :: "string option"
  q_params :: "(string, string) hmap"

subsection \<open>Metrics\<close>

record Operand =
  op_member :: string
  op_filter :: "string option"

datatype WindowAgg = WSum | WAvg | WMin | WMax

datatype CumulativeWindow = RunningTotal | GrainToDate TimeGrain | Trailing nat

datatype OffsetOutput = OValue | ODelta | OGrowth

datatype MetricKind =
    Ratio Operand Operand
  | Derived string
  | Cumulative string CumulativeWindow WindowAgg
  | Offset string nat OffsetOutput
  | Share string "string list" WindowAgg

record Metric =
  mt_name :: string
  mt_description :: "string option"
  mt_kind :: MetricKind
  mt_filter :: "string option"
  mt_format :: "string option"

record TimeSpine =
  ts_source :: string
  ts_column :: string

record DerivedToken =
  dt_member :: string
  dt_filter :: "string option"

text \<open>
  One brace body, split at the first \<open>|\<close> into a member and an optional filter (shared by
  \<open>derived_tokens\<close> and by the rendering of a derived metric).
\<close>

definition split_token :: "string \<Rightarrow> string \<times> string option" where
  "split_token body =
     (case split_once (CHR ''|'') body of
        Some (m, f) \<Rightarrow> (trim m, (if trim f = [] then None else Some (trim f)))
      | None \<Rightarrow> (trim body, None))"

function derived_tokens_loop :: "string \<Rightarrow> string \<Rightarrow> string + DerivedToken list \<times> string" where
  "derived_tokens_loop expr rest =
     (case split_once (CHR ''{'') rest of
        None \<Rightarrow> Inr ([], rest)
      | Some (_, after) \<Rightarrow>
          (case split_once (CHR ''}'') after of
             None \<Rightarrow> Inl (''unbalanced `{` in derived expr `'' @ expr @ ''`'')
           | Some (body, rest') \<Rightarrow>
               (let (member, filt) = split_token body in
                if member = [] then
                  Inl (''empty `{}` reference in derived expr `'' @ expr @ ''`'')
                else
                  rbind (derived_tokens_loop expr rest') (\<lambda>(ts, r).
                    Inr (\<lparr>dt_member = member, dt_filter = filt\<rparr> # ts, r)))))"
  by pat_completeness auto
termination
  by (relation "measure (\<lambda>(expr, rest). length rest)") (auto simp: split_once_Some_iff)

declare derived_tokens_loop.simps [simp del]

definition derived_tokens :: "string \<Rightarrow> string + DerivedToken list" where
  "derived_tokens expr =
     rbind (derived_tokens_loop expr expr) (\<lambda>(tokens, rest).
       if CHR ''}'' \<in> set rest then
         Inl (''unbalanced `}` in derived expr `'' @ expr @ ''`'')
       else if tokens = [] then
         Inl (''derived expr `'' @ expr @ ''` references no `{member}` token'')
       else Inr tokens)"

definition metric_references :: "Metric \<Rightarrow> string + (string \<times> string option) list" where
  "metric_references m =
     (case mt_kind m of
        Ratio numerator denominator \<Rightarrow>
          Inr [(op_member numerator, op_filter numerator),
               (op_member denominator, op_filter denominator)]
      | Derived expr \<Rightarrow>
          rbind (derived_tokens expr) (\<lambda>ts.
            Inr (map (\<lambda>t. (dt_member t, dt_filter t)) ts))
      | Cumulative msr _ _ \<Rightarrow> Inr [(msr, None)]
      | Offset msr _ _ \<Rightarrow> Inr [(msr, None)]
      | Share msr _ _ \<Rightarrow> Inr [(msr, None)])"

subsection \<open>Errors of the compiler\<close>

text \<open>
  The last two values are not in the source: \<open>Panicked\<close> is a Rust panic (an index or map access
  that fails) and \<open>Diverges\<close> a loop that never ends.  That neither is ever produced is a theorem
  about the compiler.
\<close>

datatype SemanticError =
    UnknownModel string
  | UnknownMember string
  | EmptyQuery
  | AmbiguousRoot "string list"
  | UnreachableModel string string
  | FanOut string string
  | DisconnectedMember string
  | AmbiguousJoinPath string string
  | UnknownSegment string
  | RelationshipCycle string
  | UnknownRelationshipTarget string string string
  | InvalidGrain string string
  | InvalidSource string string
  | Safety SafetyError
  | UnknownMetric string
  | MetricCycle string
  | MetricNeedsTimeGrain string
  | ShareDimNotGrouped string string
  | Compile string
  | Panicked
  | Diverges

subsection \<open>The catalog\<close>

record SemanticCatalog =
  c_models :: "(string, SemanticModel) hmap"
  c_metrics :: "(string, Metric) hmap"
  c_time_spine :: "TimeSpine option"

definition new_with_metrics :: "SemanticModel list \<Rightarrow> Metric list \<Rightarrow> SemanticCatalog" where
  "new_with_metrics models metrics =
     \<lparr>c_models = fold (\<lambda>m. hm_insert (m_name m) m) models [],
      c_metrics = fold (\<lambda>m. hm_insert (mt_name m) m) metrics [],
      c_time_spine = None\<rparr>"

definition with_time_spine :: "SemanticCatalog \<Rightarrow> TimeSpine option \<Rightarrow> SemanticCatalog" where
  "with_time_spine cat spine = cat\<lparr>c_time_spine := spine\<rparr>"

definition get_model :: "SemanticCatalog \<Rightarrow> string \<Rightarrow> SemanticModel option" where
  "get_model cat name = hm_get (c_models cat) name"

definition get_metric :: "SemanticCatalog \<Rightarrow> string \<Rightarrow> Metric option" where
  "get_metric cat name = hm_get (c_metrics cat) name"

text \<open>
  Every entry is stored under its own name and each name once: what the constructor establishes
  and what the compiler relies on.
\<close>

definition catalog_wf :: "SemanticCatalog \<Rightarrow> bool" where
  "catalog_wf cat \<longleftrightarrow>
     distinct (map fst (c_models cat)) \<and> (\<forall>(n, m) \<in> set (c_models cat). m_name m = n) \<and>
     distinct (map fst (c_metrics cat)) \<and> (\<forall>(n, m) \<in> set (c_metrics cat). mt_name m = n)"

lemma fold_hm_insert_keys:
  assumes "distinct (map fst acc)" "\<forall>(n, m) \<in> set acc. key m = n"
  shows "distinct (map fst (fold (\<lambda>m. hm_insert (key m) m) xs acc)) \<and>
    (\<forall>(n, m) \<in> set (fold (\<lambda>m. hm_insert (key m) m) xs acc). key m = n)"
  using assms
proof (induction xs arbitrary: acc)
  case Nil
  then show ?case by simp
next
  case (Cons x xs)
  have "\<forall>(n, m) \<in> set (hm_insert (key x) x acc). key m = n"
    using Cons.prems(2) by (fastforce dest!: hm_insert_mem)
  with Cons.IH [OF hm_distinct_insert [OF Cons.prems(1)], of "key x" x]
  show ?case by simp
qed

lemma fold_hm_insert_get:
  "hm_get (fold (\<lambda>m. hm_insert (key m) m) xs acc) k =
     (case find (\<lambda>m. key m = k) (rev xs) of Some m \<Rightarrow> Some m | None \<Rightarrow> hm_get acc k)"
proof (induction xs arbitrary: acc)
  case Nil
  then show ?case by simp
next
  case (Cons x xs)
  then show ?case by (auto simp: find_snoc split: option.splits)
qed

lemma new_with_metrics_wf: "catalog_wf (new_with_metrics models metrics)"
  using fold_hm_insert_keys [of "[]" m_name models] fold_hm_insert_keys [of "[]" mt_name metrics]
  by (simp add: catalog_wf_def new_with_metrics_def)

lemma new_get_model:
  "get_model (new_with_metrics models metrics) k = find (\<lambda>m. m_name m = k) (rev models)"
  by (auto simp: get_model_def new_with_metrics_def fold_hm_insert_get split: option.splits)

lemma wf_get_model: "catalog_wf cat \<Longrightarrow> get_model cat k = Some m \<Longrightarrow> m_name m = k"
  by (auto simp: catalog_wf_def get_model_def dest!: map_of_SomeD)

text \<open>Does the metric's name, or a member, contain a dot?\<close>

definition has_dot :: "string \<Rightarrow> bool" where
  "has_dot s \<longleftrightarrow> CHR ''.'' \<in> set s"

subsection \<open>A small catalog for the examples\<close>

text \<open>
  Orders of customers and the items of an order: the models of the examples in this development,
  with a row-level-security predicate on the customers.
\<close>

definition shop_orders :: SemanticModel where
  "shop_orders = \<lparr>m_name = ''orders'', m_description = None, m_source = ''shop.orders'',
     m_primary_key = [''id''],
     m_dimensions = [
       \<lparr>d_name = ''status'', d_expr = ''status'', d_data_type = TString, d_time_grains = [],
        d_description = None\<rparr>,
       \<lparr>d_name = ''at'', d_expr = ''at'', d_data_type = TTime, d_time_grains = [Day, Month],
        d_description = None\<rparr>],
     m_measures = [
       \<lparr>ms_name = ''total'', ms_agg = Sum, ms_expr = ''amount'', ms_filters = [],
        ms_format = None, ms_description = None\<rparr>],
     m_relationships = [
       \<lparr>r_name = ''customer'', r_kind = ManyToOne, r_target_model = ''customers'',
        r_join_predicate = ''this.cid = customers.id''\<rparr>,
       \<lparr>r_name = ''items'', r_kind = OneToMany, r_target_model = ''items'',
        r_join_predicate = ''this.id = items.oid''\<rparr>],
     m_pre_aggregations = [
       \<lparr>pa_name = ''daily'', pa_dimensions = [''status'', ''at.day''], pa_measures = [''total''],
        pa_refresh = None, pa_partition_by = None\<rparr>],
     m_segments = [
       \<lparr>seg_name = ''open'', seg_description = None,
        seg_filters = [\<lparr>f_member = ''orders.status'', f_op = Equals, f_values = [''open'']\<rparr>]\<rparr>],
     m_safety = Some (permissive\<lparr>sp_max_rows := Some 1000\<rparr>)\<rparr>"

definition shop_customers :: SemanticModel where
  "shop_customers = \<lparr>m_name = ''customers'', m_description = None, m_source = ''shop.customers'',
     m_primary_key = [''id''],
     m_dimensions = [
       \<lparr>d_name = ''city'', d_expr = ''city'', d_data_type = TString, d_time_grains = [],
        d_description = None\<rparr>],
     m_measures = [], m_relationships = [], m_pre_aggregations = [], m_segments = [],
     m_safety = Some (permissive\<lparr>required_predicates := [''org = ${param:org}'']\<rparr>)\<rparr>"

definition shop_items :: SemanticModel where
  "shop_items = \<lparr>m_name = ''items'', m_description = None, m_source = ''shop.items'',
     m_primary_key = [], m_dimensions = [
       \<lparr>d_name = ''sku'', d_expr = ''sku'', d_data_type = TString, d_time_grains = [],
        d_description = None\<rparr>],
     m_measures = [
       \<lparr>ms_name = ''qty'', ms_agg = Sum, ms_expr = ''qty'', ms_filters = [],
        ms_format = None, ms_description = None\<rparr>],
     m_relationships = [], m_pre_aggregations = [], m_segments = [], m_safety = None\<rparr>"

definition shop :: SemanticCatalog where
  "shop = new_with_metrics [shop_orders, shop_customers, shop_items] []"

end
