(* ===== verification/Sql_Text.thy ===== *)
theory Sql_Text
  imports Semantic_Types
begin

section \<open>SQL text: quoting, literals, predicates and bound parameters\<close>

text \<open>
  The text-producing helpers of \<open>pawrly-semantic/src/lib.rs\<close>: \<open>quote_ident\<close>, \<open>lit\<close>, \<open>scalar_lit\<close>,
  \<open>apply_op\<close>, \<open>bind_params\<close>, \<open>resolve_order\<close>, \<open>effective_limit\<close>.  Their contract is stated against
  a lexer of SQL text (\<open>sql_lex\<close>): what a caller supplies stays inside one literal token, so no
  value changes the structure of a query.
\<close>

subsection \<open>Quoting\<close>

abbreviation DQ :: char where "DQ \<equiv> CHR 0x22"
abbreviation SQ :: char where "SQ \<equiv> CHR 0x27"

definition quote_ident :: "string \<Rightarrow> string" where
  "quote_ident s = [DQ] @ replace_char DQ [DQ, DQ] s @ [DQ]"

definition lit :: "string \<Rightarrow> string" where
  "lit s = [SQ] @ replace_char SQ [SQ, SQ] s @ [SQ]"

subsection \<open>Numeric values\<close>

text \<open>\<open>s.parse::<i64>().is_ok()\<close>: an optional sign, at least one digit, and within range.\<close>

definition digits_val :: "string \<Rightarrow> nat" where
  "digits_val ds = foldl (\<lambda>n c. 10 * n + (of_char c - 48)) 0 ds"

definition split_sign :: "string \<Rightarrow> bool \<times> string" where
  "split_sign s =
     (case s of [] \<Rightarrow> (False, [])
      | c # cs \<Rightarrow> if c = CHR ''-'' then (True, cs) else if c = CHR ''+'' then (False, cs)
                  else (False, s))"

definition parses_i64 :: "string \<Rightarrow> bool" where
  "parses_i64 s =
     (let (neg, ds) = split_sign s in
      ds \<noteq> [] \<and> list_all is_ascii_digit ds \<and>
      (if neg then digits_val ds \<le> 2 ^ 63 else digits_val ds < 2 ^ 63))"

text \<open>
  \<open>s.parse::<f64>().is_ok()\<close>: the grammar of \<open>f64::from_str\<close>, an optional sign followed by \<open>inf\<close>,
  \<open>infinity\<close> or \<open>nan\<close> in any case, or by digits with an optional point and an optional exponent.
\<close>

definition parses_exp :: "string \<Rightarrow> bool" where
  "parses_exp s =
     (case s of [] \<Rightarrow> True
      | c # cs \<Rightarrow> ascii_lower c = CHR ''e'' \<and>
          (let ds = snd (split_sign cs) in ds \<noteq> [] \<and> list_all is_ascii_digit ds))"

definition parses_number :: "string \<Rightarrow> bool" where
  "parses_number s =
     (let ip = takeWhile is_ascii_digit s; r = dropWhile is_ascii_digit s in
      case r of
        [] \<Rightarrow> ip \<noteq> []
      | c # cs \<Rightarrow>
          if c = CHR ''.'' then
            (ip \<noteq> [] \<or> takeWhile is_ascii_digit cs \<noteq> []) \<and>
            parses_exp (dropWhile is_ascii_digit cs)
          else ip \<noteq> [] \<and> parses_exp r)"

definition parses_f64 :: "string \<Rightarrow> bool" where
  "parses_f64 s =
     (let r = snd (split_sign s) in
      to_ascii_lowercase r \<in> {''inf'', ''infinity'', ''nan''} \<or> parses_number r)"

definition scalar_lit :: "string \<Rightarrow> bool \<Rightarrow> string" where
  "scalar_lit s numeric =
     (if numeric \<and> (parses_i64 s \<or> parses_f64 s) then s else lit s)"

subsection \<open>Predicates\<close>

definition first_value :: "SemanticFilter \<Rightarrow> SemanticError + string" where
  "first_value f =
     (case f_values f of
        v # _ \<Rightarrow> Inr v
      | [] \<Rightarrow> Inl (Compile (''filter on `'' @ f_member f @ ''` requires a value'')))"

definition apply_op :: "string \<Rightarrow> SemanticFilter \<Rightarrow> bool \<Rightarrow> SemanticError + string" where
  "apply_op expr f numeric =
     (let cmp = (\<lambda>op. rbind (first_value f) (\<lambda>v. Inr (expr @ op @ scalar_lit v numeric)));
          in_list = (\<lambda>op.
            if f_values f = [] then
              Inl (Compile (''filter on `'' @ f_member f @ ''` requires at least one value''))
            else
              Inr (expr @ '' '' @ op @ '' ('' @
                   join '', '' (map (\<lambda>x. scalar_lit x numeric) (f_values f)) @ '')''))
      in case f_op f of
        Equals \<Rightarrow> cmp '' = ''
      | NotEquals \<Rightarrow> cmp '' <> ''
      | Gt \<Rightarrow> cmp '' > ''
      | Gte \<Rightarrow> cmp '' >= ''
      | Lt \<Rightarrow> cmp '' < ''
      | Lte \<Rightarrow> cmp '' <= ''
      | In \<Rightarrow> in_list ''IN''
      | NotIn \<Rightarrow> in_list ''NOT IN''
      | InRange \<Rightarrow>
          (case f_values f of
             lo # hi # _ \<Rightarrow>
               Inr (expr @ '' BETWEEN '' @ scalar_lit lo numeric @ '' AND '' @ scalar_lit hi numeric)
           | _ \<Rightarrow> Inl (Compile (''in_range filter on `'' @ f_member f @ ''` requires two values'')))
      | Contains \<Rightarrow>
          rbind (first_value f) (\<lambda>v. Inr (expr @ '' LIKE '' @ lit (''%'' @ v @ ''%'')))
      | StartsWith \<Rightarrow>
          rbind (first_value f) (\<lambda>v. Inr (expr @ '' LIKE '' @ lit (v @ ''%'')))
      | EndsWith \<Rightarrow>
          rbind (first_value f) (\<lambda>v. Inr (expr @ '' LIKE '' @ lit (''%'' @ v)))
      | IsNull \<Rightarrow> Inr (expr @ '' IS NULL'')
      | IsNotNull \<Rightarrow> Inr (expr @ '' IS NOT NULL''))"

definition resolve_order :: "SemanticOrder \<Rightarrow> string" where
  "resolve_order ord =
     quote_ident (o_member ord) @ '' '' @
     (case o_direction ord of Asc \<Rightarrow> ''ASC'' | Desc \<Rightarrow> ''DESC'')"

definition effective_limit :: "nat option \<Rightarrow> nat option \<Rightarrow> nat option" where
  "effective_limit requested cap =
     (case (requested, cap) of
        (Some l, Some c) \<Rightarrow> Some (min l c)
      | (Some l, None) \<Rightarrow> Some l
      | (None, c) \<Rightarrow> c)"

subsection \<open>Parameters of required predicates\<close>

definition param_open :: string where
  "param_open = ''${param:''"

function bind_params_loop ::
  "string \<Rightarrow> (string, string) hmap \<Rightarrow> string \<Rightarrow> string \<Rightarrow> SafetyError + string" where
  "bind_params_loop pred params model rest =
     (case split_at_sub param_open rest of
        None \<Rightarrow> Inr rest
      | Some (before, after) \<Rightarrow>
          (case split_once (CHR ''}'') after of
             None \<Rightarrow>
               Inl (PredicateUnsatisfied model pred ''unterminated ${param:...} placeholder'')
           | Some (name, rest') \<Rightarrow>
               (case hm_get params name of
                  None \<Rightarrow> Inl (UnboundParam model name)
                | Some val \<Rightarrow>
                    rbind (bind_params_loop pred params model rest')
                      (\<lambda>out. Inr (before @ lit val @ out)))))"
  by pat_completeness auto
termination
  by (relation "measure (\<lambda>(pred, params, model, rest). length rest)")
    (auto simp: split_once_Some_iff param_open_def dest!: split_at_sub_Some)

declare bind_params_loop.simps [simp del]

definition bind_params ::
  "string \<Rightarrow> (string, string) hmap \<Rightarrow> string \<Rightarrow> SafetyError + string" where
  "bind_params pred params model = bind_params_loop pred params model pred"

subsection \<open>Reading SQL text back\<close>

text \<open>
  The specification side.  A quoted token ends at the first quote that is not doubled; everything
  outside quotes is code.  This is the lexical structure of the SQL dialect the engine parses
  (no backslash escapes).
\<close>

fun lex_body :: "char \<Rightarrow> string \<Rightarrow> (string \<times> string) option" where
  "lex_body q [] = None"
| "lex_body q [c] = (if c = q then Some ([], []) else None)"
| "lex_body q (c # d # cs) =
     (if c \<noteq> q then map_option (apfst (Cons c)) (lex_body q (d # cs))
      else if d = q then map_option (apfst (Cons q)) (lex_body q cs)
      else Some ([], d # cs))"

lemma lex_body_length: "lex_body q s = Some (v, r) \<Longrightarrow> length r < length s"
  by (induction q s arbitrary: v r rule: lex_body.induct) (force split: if_splits)+

datatype sql_tok = Code char | StrLit string | QIdent string

function sql_lex :: "string \<Rightarrow> sql_tok list option" where
  "sql_lex [] = Some []"
| "sql_lex (c # cs) =
     (if c = SQ then
        (case lex_body SQ cs of
           None \<Rightarrow> None | Some (v, r) \<Rightarrow> map_option (Cons (StrLit v)) (sql_lex r))
      else if c = DQ then
        (case lex_body DQ cs of
           None \<Rightarrow> None | Some (v, r) \<Rightarrow> map_option (Cons (QIdent v)) (sql_lex r))
      else map_option (Cons (Code c)) (sql_lex cs))"
  by pat_completeness auto
termination
  by (relation "measure length") (auto dest: lex_body_length)

declare sql_lex.simps [simp del]

lemma sql_lex_Nil [simp]: "sql_lex [] = Some []"
  by (simp add: sql_lex.simps)

lemma sql_lex_code:
  "c \<noteq> SQ \<Longrightarrow> c \<noteq> DQ \<Longrightarrow> sql_lex (c # cs) = map_option (Cons (Code c)) (sql_lex cs)"
  by (simp add: sql_lex.simps)

text \<open>The structure of a text: its tokens with the contents of string literals erased.\<close>

fun erase_lit :: "sql_tok \<Rightarrow> sql_tok" where
  "erase_lit (StrLit _) = StrLit []"
| "erase_lit t = t"

definition shape :: "string \<Rightarrow> sql_tok list option" where
  "shape s = map_option (map erase_lit) (sql_lex s)"

subsection \<open>The contract of a quoting function\<close>

text \<open>
  A quoting function wraps an escaped text in a quote character; escaping doubles the quote and
  leaves every other character alone.  Reading the quoted text back gives the original, whatever
  follows, as long as it does not start with another quote.
\<close>

locale sql_quoting =
  fixes q :: char and esc :: "string \<Rightarrow> string" and quote :: "string \<Rightarrow> string"
  assumes quote_esc: "quote s = q # esc s @ [q]"
    and esc_Nil: "esc [] = []"
    and esc_Cons: "esc (c # s) = (if c = q then [q, q] else [c]) @ esc s"
begin

lemma lex_esc:
  "rest = [] \<or> hd rest \<noteq> q \<Longrightarrow> lex_body q (esc s @ q # rest) = Some (s, rest)"
proof (induction s)
  case Nil
  then show ?case by (cases rest) (auto simp: esc_Nil)
next
  case (Cons c s)
  then have IH: "lex_body q (esc s @ q # rest) = Some (s, rest)" by simp
  obtain d ds where tl: "esc s @ q # rest = d # ds" by (cases "esc s @ q # rest") auto
  from IH show ?case by (cases "c = q") (auto simp: esc_Cons tl)
qed

lemma lex_quote:
  assumes "rest = [] \<or> hd rest \<noteq> q"
  shows "quote s @ rest = q # (esc s @ q # rest)" and
    "lex_body q (tl (quote s @ rest)) = Some (s, rest)"
  using lex_esc [OF assms, of s] by (simp_all add: quote_esc)

lemma quote_inj: "quote s = quote t \<Longrightarrow> s = t"
  using lex_quote(2) [of "[]" s] lex_quote(2) [of "[]" t] by simp

end

interpretation lit: sql_quoting SQ "replace_char SQ [SQ, SQ]" lit
  by unfold_locales (simp_all add: lit_def)

interpretation ident: sql_quoting DQ "replace_char DQ [DQ, DQ]" quote_ident
  by unfold_locales (simp_all add: quote_ident_def)

lemma sql_lex_lit:
  "rest = [] \<or> hd rest \<noteq> SQ \<Longrightarrow> sql_lex (lit s @ rest) = map_option (Cons (StrLit s)) (sql_lex rest)"
  using lit.lex_quote [of rest s] by (simp add: sql_lex.simps)

lemma sql_lex_ident:
  "rest = [] \<or> hd rest \<noteq> DQ \<Longrightarrow>
     sql_lex (quote_ident s @ rest) = map_option (Cons (QIdent s)) (sql_lex rest)"
  using ident.lex_quote [of rest s] by (simp add: sql_lex.simps)

subsection \<open>Concatenation of lexed texts\<close>

lemma lex_body_append:
  "lex_body q a = Some (v, r) \<Longrightarrow> r \<noteq> [] \<or> b = [] \<or> hd b \<noteq> q \<Longrightarrow>
     lex_body q (a @ b) = Some (v, r @ b)"
proof (induction q a arbitrary: v r rule: lex_body.induct)
  case (2 q c)
  then show ?case by (cases b) (auto split: if_splits)
next
  case (3 q c d cs)
  show ?case
  proof (cases "c = q \<and> d \<noteq> q")
    case True
    with 3(3) show ?thesis by auto
  next
    case False
    with 3 show ?thesis by (auto split: if_splits)
  qed
qed simp

definition quote_free_hd :: "string \<Rightarrow> bool" where
  "quote_free_hd b \<longleftrightarrow> b = [] \<or> hd b \<notin> {SQ, DQ}"

definition quote_free_last :: "string \<Rightarrow> bool" where
  "quote_free_last a \<longleftrightarrow> a = [] \<or> last a \<notin> {SQ, DQ}"

lemma lex_body_suffix: "lex_body q a = Some (v, r) \<Longrightarrow> \<exists>p. a = p @ q # r"
proof (induction q a arbitrary: v r rule: lex_body.induct)
  case (3 q c d cs)
  consider "c \<noteq> q" | "c = q" "d = q" | "c = q" "d \<noteq> q" by blast
  then show ?case
  proof cases
    case 1
    with 3 obtain v' where "lex_body q (d # cs) = Some (v', r)" by auto
    with 3(1) 1 obtain p where "d # cs = p @ q # r" by blast
    then have "c # d # cs = (c # p) @ q # r" by simp
    then show ?thesis by blast
  next
    case 2
    with 3 obtain v' where "lex_body q cs = Some (v', r)" by auto
    with 3(2) 2 obtain p where "cs = p @ q # r" by blast
    then have "c # d # cs = (c # d # p) @ q # r" by simp
    then show ?thesis by blast
  next
    case 3
    with \<open>lex_body q (c # d # cs) = Some (v, r)\<close> show ?thesis by auto
  qed
qed (auto split: if_splits)

definition quoted_tok :: "char \<Rightarrow> string \<Rightarrow> sql_tok" where
  "quoted_tok q v = (if q = SQ then StrLit v else QIdent v)"

lemma sql_lex_quoted:
  "q \<in> {SQ, DQ} \<Longrightarrow> sql_lex (q # cs) =
     (case lex_body q cs of
        None \<Rightarrow> None | Some (v, r) \<Rightarrow> map_option (Cons (quoted_tok q v)) (sql_lex r))"
  by (auto simp: sql_lex.simps quoted_tok_def split: option.splits)

lemma sql_lex_append:
  "sql_lex a = Some ts \<Longrightarrow> quote_free_last a \<or> quote_free_hd b \<Longrightarrow>
     sql_lex (a @ b) = map_option (\<lambda>u. ts @ u) (sql_lex b)"
proof (induction "length a" arbitrary: a ts rule: less_induct)
  case less
  show ?case
  proof (cases a)
    case Nil
    with less.prems show ?thesis by (cases "sql_lex b") simp_all
  next
    case (Cons c cs)
    show ?thesis
    proof (cases "c \<in> {SQ, DQ}")
      case True
      with less.prems(1) Cons obtain v r tr
        where lb: "lex_body c cs = Some (v, r)" and lr: "sql_lex r = Some tr"
          and ts: "ts = quoted_tok c v # tr"
        by (auto simp: sql_lex_quoted split: option.splits)
      obtain p where p: "cs = p @ c # r" using lex_body_suffix [OF lb] by blast
      have "quote_free_last r \<or> quote_free_hd b"
        using less.prems(2) Cons p by (auto simp: quote_free_last_def split: if_splits)
      then have IH: "sql_lex (r @ b) = map_option (\<lambda>u. tr @ u) (sql_lex b)"
        using less.hyps [OF _ lr] lex_body_length [OF lb] Cons by simp
      have "r \<noteq> [] \<or> b = [] \<or> hd b \<noteq> c"
        using less.prems(2) Cons p True by (auto simp: quote_free_last_def quote_free_hd_def)
      then have "lex_body c (cs @ b) = Some (v, r @ b)" by (rule lex_body_append [OF lb])
      with IH ts Cons True show ?thesis
        by (cases "sql_lex b") (simp_all add: sql_lex_quoted [OF True])
    next
      case False
      with less.prems(1) Cons obtain tr where tr: "sql_lex cs = Some tr" "ts = Code c # tr"
        by (auto simp: sql_lex_code)
      have "quote_free_last cs \<or> quote_free_hd b"
        using less.prems(2) Cons by (auto simp: quote_free_last_def split: if_splits)
      then have "sql_lex (cs @ b) = map_option (\<lambda>u. tr @ u) (sql_lex b)"
        using less.hyps [OF _ tr(1)] Cons by simp
      with tr False Cons show ?thesis
        by (cases "sql_lex b") (simp_all add: sql_lex_code)
    qed
  qed
qed

lemma quote_free_simps [simp]:
  "quote_free_hd []" "quote_free_last []"
  "quote_free_hd (c # s) \<longleftrightarrow> c \<noteq> SQ \<and> c \<noteq> DQ"
  "quote_free_last (s @ [c]) \<longleftrightarrow> c \<noteq> SQ \<and> c \<noteq> DQ"
  by (simp_all add: quote_free_hd_def quote_free_last_def)

lemma shape_append:
  assumes "shape a = Some ts" "quote_free_last a \<or> quote_free_hd b"
  shows "shape (a @ b) = map_option (\<lambda>u. ts @ u) (shape b)"
proof -
  from assms(1) obtain us where us: "sql_lex a = Some us" "ts = map erase_lit us"
    by (auto simp: shape_def)
  with sql_lex_append [OF us(1) assms(2)] show ?thesis
    by (simp add: shape_def option.map_comp o_def)
qed

lemma shape_lit: "quote_free_hd rest \<Longrightarrow>
    shape (lit v @ rest) = map_option (Cons (StrLit [])) (shape rest)"
  using sql_lex_lit [of rest v]
  by (cases "sql_lex rest") (auto simp: shape_def quote_free_hd_def)

lemma shape_lit_only: "shape (lit v) = Some [StrLit []]"
  using shape_lit [of "[]" v] by (simp add: shape_def)

lemma shape_eq_append:
  assumes "shape a = shape a'" "shape a \<noteq> None"
    and "quote_free_last a \<or> quote_free_hd b" "quote_free_last a' \<or> quote_free_hd b'"
    and "shape b = shape b'"
  shows "shape (a @ b) = shape (a' @ b')"
  using assms shape_append by (metis option.exhaust)

lemma shape_join_lits:
  assumes "length vs = length vs'"
  shows "shape (join '', '' (map lit vs) @ '')'') = shape (join '', '' (map lit vs') @ '')'')"
  using assms
proof (induction vs vs' rule: list_induct2)
  case (Cons v vs v' vs')
  show ?case
  proof (cases "vs = []")
    case True
    with Cons(1) show ?thesis by (simp add: shape_lit)
  next
    case False
    with Cons(1) have "vs' \<noteq> []" by auto
    moreover have "shape ('', '' @ x) = map_option (\<lambda>u. [Code (CHR '',''), Code (CHR '' '')] @ u) (shape x)" for x
      by (cases "sql_lex x") (simp_all add: shape_def sql_lex_code)
    ultimately show ?thesis
      using False Cons(2) by (simp add: join_Cons shape_lit)
  qed
qed simp

subsection \<open>Values never change the structure of a predicate\<close>

lemma shape_code [simp]:
  "c \<noteq> SQ \<Longrightarrow> c \<noteq> DQ \<Longrightarrow> shape (c # cs) = map_option (Cons (Code c)) (shape cs)"
  by (simp add: shape_def sql_lex_code option.map_comp o_def)

lemma shape_Nil [simp]: "shape [] = Some []"
  by (simp add: shape_def)

lemma scalar_lit_string [simp]: "scalar_lit v False = lit v"
  by (simp add: scalar_lit_def)

lemma shape_after_expr:
  assumes "shape e \<noteq> None" "shape (CHR '' '' # b) = shape (CHR '' '' # b')"
  shows "shape (e @ CHR '' '' # b) = shape (e @ CHR '' '' # b')"
  using assms by (intro shape_eq_append) simp_all

lemma shape_op_lit:
  assumes "shape e \<noteq> None" "shape a \<noteq> None" "quote_free_last a"
  shows "shape (e @ CHR '' '' # a @ lit v) = shape (e @ CHR '' '' # a @ lit v')"
proof -
  have "shape (a @ lit v) = shape (a @ lit v')"
    by (rule shape_eq_append) (use assms in \<open>simp_all add: shape_lit_only\<close>)
  then show ?thesis by (intro shape_after_expr [OF assms(1)]) simp
qed

lemma shape_op_list:
  assumes "shape e \<noteq> None" "shape a \<noteq> None" "quote_free_last a" "length vs = length vs'"
  shows "shape (e @ CHR '' '' # a @ join '', '' (map lit vs) @ '')'') =
    shape (e @ CHR '' '' # a @ join '', '' (map lit vs') @ '')'')"
proof -
  have "shape (a @ join '', '' (map lit vs) @ '')'') = shape (a @ join '', '' (map lit vs') @ '')'')"
    using assms(2,3) by (intro shape_eq_append shape_join_lits [OF assms(4)]) simp_all
  then show ?thesis by (intro shape_after_expr [OF assms(1)]) simp
qed

lemma shape_between:
  assumes "shape e \<noteq> None"
  shows "shape (e @ '' BETWEEN '' @ lit lo @ '' AND '' @ lit hi) =
    shape (e @ '' BETWEEN '' @ lit lo' @ '' AND '' @ lit hi')"
proof -
  have "shape (lit lo @ '' AND '' @ lit hi) = shape (lit lo' @ '' AND '' @ lit hi')"
    by (simp add: shape_lit shape_lit_only)
  then show ?thesis
    using shape_after_expr [OF assms, of "''BETWEEN '' @ lit lo @ '' AND '' @ lit hi"
        "''BETWEEN '' @ lit lo' @ '' AND '' @ lit hi'"] by simp
qed

lemma apply_op_text:
  assumes "apply_op e f False = Inr p"
  shows "case f_op f of
      In \<Rightarrow> p = e @ '' IN ('' @ join '', '' (map lit (f_values f)) @ '')''
    | NotIn \<Rightarrow> p = e @ '' NOT IN ('' @ join '', '' (map lit (f_values f)) @ '')''
    | InRange \<Rightarrow> (\<exists>lo hi. p = e @ '' BETWEEN '' @ lit lo @ '' AND '' @ lit hi)
    | IsNull \<Rightarrow> p = e @ '' IS NULL''
    | IsNotNull \<Rightarrow> p = e @ '' IS NOT NULL''
    | Equals \<Rightarrow> (\<exists>v. p = e @ '' = '' @ lit v)
    | NotEquals \<Rightarrow> (\<exists>v. p = e @ '' <> '' @ lit v)
    | Gt \<Rightarrow> (\<exists>v. p = e @ '' > '' @ lit v)
    | Gte \<Rightarrow> (\<exists>v. p = e @ '' >= '' @ lit v)
    | Lt \<Rightarrow> (\<exists>v. p = e @ '' < '' @ lit v)
    | Lte \<Rightarrow> (\<exists>v. p = e @ '' <= '' @ lit v)
    | _ \<Rightarrow> (\<exists>v. p = e @ '' LIKE '' @ lit v)"
proof (cases "f_op f")
  case InRange
  with assms show ?thesis
    by (auto simp: apply_op_def split: list.splits)
qed (use assms in \<open>force simp: apply_op_def res_simps split: if_splits\<close>)+

lemma apply_op_shape_aux:
  assumes "shape e \<noteq> None"
    and "apply_op e f False = Inr p" "apply_op e f' False = Inr p'"
    and "f_op f = f_op f'" "length (f_values f) = length (f_values f')"
  shows "shape p = shape p'"
proof -
  note t = apply_op_text [OF assms(2)] apply_op_text [OF assms(3)]
  note lits = shape_op_lit [OF assms(1)] shape_op_list [OF assms(1)]
  show ?thesis
  proof (cases "f_op f'")
    case In
    with t assms(4,5) lits(2) [of "''IN (''" "f_values f" "f_values f'"] show ?thesis
      by (simp add: quote_free_last_def)
  next
    case NotIn
    with t assms(4,5) lits(2) [of "''NOT IN (''" "f_values f" "f_values f'"] show ?thesis
      by (simp add: quote_free_last_def)
  next
    case InRange
    with t assms(4) shape_between [OF assms(1)] show ?thesis by auto
  next
    case Equals
    with t assms(4) lits(1) [of "''= ''"] show ?thesis by (auto simp: quote_free_last_def)
  next
    case NotEquals
    with t assms(4) lits(1) [of "''<> ''"] show ?thesis by (auto simp: quote_free_last_def)
  next
    case Gt
    with t assms(4) lits(1) [of "''> ''"] show ?thesis by (auto simp: quote_free_last_def)
  next
    case Gte
    with t assms(4) lits(1) [of "''>= ''"] show ?thesis by (auto simp: quote_free_last_def)
  next
    case Lt
    with t assms(4) lits(1) [of "''< ''"] show ?thesis by (auto simp: quote_free_last_def)
  next
    case Lte
    with t assms(4) lits(1) [of "''<= ''"] show ?thesis by (auto simp: quote_free_last_def)
  next
    case Contains
    with t assms(4) lits(1) [of "''LIKE ''"] show ?thesis by (auto simp: quote_free_last_def)
  next
    case StartsWith
    with t assms(4) lits(1) [of "''LIKE ''"] show ?thesis by (auto simp: quote_free_last_def)
  next
    case EndsWith
    with t assms(4) lits(1) [of "''LIKE ''"] show ?thesis by (auto simp: quote_free_last_def)
  qed (use t assms(4) in simp_all)
qed

subsection \<open>Placeholders of a required predicate\<close>

text \<open>
  The placeholders of a predicate and the trusted text around them, independent of any values:
  pairs of the text before a placeholder and its name, and the text after the last one.
\<close>

function placeholders :: "string \<Rightarrow> ((string \<times> string) list \<times> string) option" where
  "placeholders rest =
     (case split_at_sub param_open rest of
        None \<Rightarrow> Some ([], rest)
      | Some (before, after) \<Rightarrow>
          (case split_once (CHR ''}'') after of
             None \<Rightarrow> None
           | Some (name, rest') \<Rightarrow>
               map_option (\<lambda>(ps, last_text). ((before, name) # ps, last_text)) (placeholders rest')))"
  by pat_completeness auto
termination
  by (relation "measure length")
    (auto simp: split_once_Some_iff param_open_def dest!: split_at_sub_Some)

declare placeholders.simps [simp del]

definition render_template ::
  "(string \<times> string) list \<Rightarrow> string \<Rightarrow> (string, string) hmap \<Rightarrow> string" where
  "render_template ps last_text params =
     concat (map (\<lambda>(before, name). before @ lit (the (hm_get params name))) ps) @ last_text"

lemma render_template_simps [simp]:
  "render_template [] last_text params = last_text"
  "render_template ((b, n) # ps) last_text params =
     b @ lit (the (hm_get params n)) @ render_template ps last_text params"
  by (simp_all add: render_template_def)

lemma bind_params_loop_spec:
  "bind_params_loop pred params model rest = Inr out \<longleftrightarrow>
     (\<exists>ps last_text. placeholders rest = Some (ps, last_text) \<and>
        (\<forall>(_, name)\<in>set ps. hm_get params name \<noteq> None) \<and>
        out = render_template ps last_text params)"
proof (induction pred params model rest arbitrary: out rule: bind_params_loop.induct)
  case (1 pred params model rest)
  show ?case
  proof (cases "split_at_sub param_open rest")
    case None
    then show ?thesis
      by (auto simp: bind_params_loop.simps [of pred params model rest] placeholders.simps [of rest])
  next
    case (Some ba)
    obtain before after where ba: "ba = (before, after)" by fastforce
    show ?thesis
    proof (cases "split_once (CHR ''}'') after")
      case None
      with Some ba show ?thesis
        by (simp add: bind_params_loop.simps [of pred params model rest] placeholders.simps [of rest])
    next
      case (Some nr)
      obtain name rest' where nr: "nr = (name, rest')" by fastforce
      note eqs = bind_params_loop.simps [of pred params model rest] placeholders.simps [of rest]
      show ?thesis
      proof (cases "hm_get params name")
        case None
        with \<open>split_at_sub param_open rest = Some ba\<close> ba Some nr show ?thesis
          by (auto simp: eqs)
      next
        case (Some v)
        note IH = 1 [OF \<open>split_at_sub param_open rest = Some ba\<close> ba [symmetric]
            \<open>split_once (CHR ''}'') after = Some nr\<close> nr [symmetric] Some]
        show ?thesis
          using \<open>split_at_sub param_open rest = Some ba\<close> ba nr Some
            \<open>split_once (CHR ''}'') after = Some nr\<close>
          by (auto simp: eqs res_simps IH)
      qed
    qed
  qed
qed

text \<open>
  A template whose placeholders stand outside quotes: the text before a placeholder is closed and
  does not end in a quote, and what follows a placeholder is non-empty text that does not start
  with a quote (or the end).
\<close>

fun closed_template :: "(string \<times> string) list \<Rightarrow> string \<Rightarrow> bool" where
  "closed_template [] last_text \<longleftrightarrow> shape last_text \<noteq> None"
| "closed_template ((b, n) # ps) last_text \<longleftrightarrow>
     shape b \<noteq> None \<and> quote_free_last b \<and>
     (case ps of [] \<Rightarrow> quote_free_hd last_text
      | (b', _) # _ \<Rightarrow> b' \<noteq> [] \<and> quote_free_hd b') \<and>
     closed_template ps last_text"

lemma quote_free_hd_render:
  "(case ps of [] \<Rightarrow> quote_free_hd last_text | (b', _) # _ \<Rightarrow> b' \<noteq> [] \<and> quote_free_hd b') \<Longrightarrow>
     quote_free_hd (render_template ps last_text params)"
  by (auto simp: quote_free_hd_def split: list.splits)

lemma shape_render_template:
  "closed_template ps last_text \<Longrightarrow>
     shape (render_template ps last_text params) \<noteq> None \<and>
     shape (render_template ps last_text params) = shape (render_template ps last_text params')"
proof (induction ps last_text rule: closed_template.induct)
  case (2 b n ps last_text)
  let ?r = "\<lambda>params. render_template ps last_text params"
  from 2(2) have hd: "quote_free_hd (?r params)" "quote_free_hd (?r params')"
    by (auto simp: quote_free_hd_render)
  from 2(2) obtain ts where b: "shape b = Some ts" "quote_free_last b" by auto
  from 2(2) have "closed_template ps last_text" by simp
  with 2(1) obtain u where "shape (?r params) = Some u" "shape (?r params') = Some u"
    by (metis not_None_eq)
  then show ?case
    using shape_append [OF b(1)] b(2) shape_lit [OF hd(1)] shape_lit [OF hd(2)]
    by (simp add: option.map_comp)
qed simp

subsection \<open>Properties\<close>

text \<open>A quoted literal reads back as exactly the quoted string: whatever SQL text follows
  (unless it starts with a quote), the lexer sees one string token holding the value and then the
  rest, so no value can end the literal early.\<close>

lemma lit_reads_back:
  assumes "rest = [] \<or> hd rest \<noteq> SQ"
  shows "sql_lex (lit s @ rest) = map_option (Cons (StrLit s)) (sql_lex rest)"
  using assms by (rule sql_lex_lit)

definition evil :: string where
  "evil = [CHR ''x'', SQ] @ '' OR 1=1 --''"

text \<open>A quoted identifier reads back as exactly the member name, so a member (which a caller
  chooses and which becomes a column alias) cannot end the identifier early.\<close>

lemma quote_ident_reads_back:
  assumes "rest = [] \<or> hd rest \<noteq> DQ"
  shows "sql_lex (quote_ident s @ rest) = map_option (Cons (QIdent s)) (sql_lex rest)"
  using assms by (rule sql_lex_ident)

text \<open>C6. Row-level filters cannot inject SQL: two filters with the same operator and the same
  number of values compile, over the same expression, to predicates with the same token structure;
  only the contents of string literals differ.\<close>

theorem apply_op_no_injection:
  assumes "shape e \<noteq> None"
    and "apply_op e f False = Inr p" "apply_op e f' False = Inr p'"
    and "f_op f = f_op f'" "length (f_values f) = length (f_values f')"
  shows "shape p = shape p'"
  using assms by (rule apply_op_shape_aux)

definition wit_filter :: "string \<Rightarrow> SemanticFilter" where
  "wit_filter v = \<lparr>f_member = ''orders.status'', f_op = Equals, f_values = [v]\<rparr>"

theorem apply_op_no_injection_witness:
  "shape (''status = '' @ lit ''paid'') = shape (''status = '' @ lit evil)"
  by (rule apply_op_no_injection [where e = "''status''" and f = "wit_filter ''paid''" and
        f' = "wit_filter evil"])
    (simp_all add: wit_filter_def apply_op_def first_value_def)

text \<open>C5. Row-level-security parameters cannot inject SQL: when the placeholders of a required
  predicate stand outside quotes, every binding that succeeds yields the same token structure; the
  parameter values only fill string literals.\<close>

theorem bind_params_no_injection:
  assumes "placeholders pred = Some (ps, last_text)" "closed_template ps last_text"
    and "bind_params pred params model = Inr s" "bind_params pred params' model = Inr s'"
  shows "shape s = shape s' \<and> shape s \<noteq> None"
proof -
  from assms(1,3,4) have "s = render_template ps last_text params"
    "s' = render_template ps last_text params'"
    by (auto simp: bind_params_def bind_params_loop_spec)
  with shape_render_template [OF assms(2)] show ?thesis by blast
qed

lemma tenant_bound:
  "bind_params ''tenant_id = ${param:t}'' [(''t'', v)] m = Inr (''tenant_id = '' @ lit v)"
  by (simp add: bind_params_def bind_params_loop.simps param_open_def)

theorem bind_params_no_injection_witness:
  "shape (''tenant_id = '' @ lit ''acme'') = shape (''tenant_id = '' @ lit evil) \<and>
   shape (''tenant_id = '' @ lit ''acme'') \<noteq> None"
  by (rule bind_params_no_injection [OF _ _ tenant_bound tenant_bound,
        where ps = "[(''tenant_id = '', ''t'')]" and last_text = "[]"])
    (simp_all add: placeholders.simps param_open_def quote_free_last_def)

text \<open>A required predicate is bound exactly when it is well formed and all its parameters are
  supplied: binding succeeds if and only if every placeholder is terminated and named in the
  request, and then the result is the predicate's own text with each placeholder replaced by the
  quoted value.  Otherwise the query is refused.\<close>

lemma bind_params_succeeds_iff:
  "bind_params pred params model = Inr s \<longleftrightarrow>
     (\<exists>ps last_text. placeholders pred = Some (ps, last_text) \<and>
        list_all (\<lambda>(_, name). hm_get params name \<noteq> None) ps \<and>
        s = render_template ps last_text params)"
  by (simp add: bind_params_def bind_params_loop_spec list_all_iff)

text \<open>The guarantee needs unquoted placeholders: a predicate that wraps its placeholder in
  quotes lets a parameter value become code, because binding adds quotes of its own.\<close>

lemma quoted_placeholder_is_injectable:
  "\<exists>s s'.
     bind_params (''owner = '' @ [SQ] @ ''${param:u}'' @ [SQ]) [(''u'', ''bob'')] ''m'' = Inr s \<and>
     bind_params (''owner = '' @ [SQ] @ ''${param:u}'' @ [SQ]) [(''u'', '' OR 1=1 --'')] ''m'' =
       Inr s' \<and>
     shape s \<noteq> shape s'"
  by (simp add: bind_params_def bind_params_loop.simps param_open_def lit_def shape_def
      sql_lex.simps)

subsection \<open>Numeric literals\<close>

definition num_char :: "char \<Rightarrow> bool" where
  "num_char c \<longleftrightarrow> is_ascii_alphanumeric c \<or> c \<in> {CHR ''+'', CHR ''-'', CHR ''.''}"

lemma num_char_digit: "is_ascii_digit c \<Longrightarrow> num_char c"
  by (simp add: num_char_def is_ascii_alphanumeric_def)

lemma num_char_ascii_lower: "is_ascii_lower (ascii_lower c) \<Longrightarrow> num_char c"
  by (auto simp: num_char_def is_ascii_alphanumeric_def is_ascii_alphabetic_def ascii_lower_def
      split: if_splits)

lemma split_sign_num: "list_all num_char (snd (split_sign s)) \<Longrightarrow> list_all num_char s"
  by (auto simp: split_sign_def num_char_def split: list.splits if_splits)

lemma digits_num: "list_all is_ascii_digit ds \<Longrightarrow> list_all num_char ds"
  by (auto simp: list_all_iff num_char_digit)

lemma parses_exp_num: "parses_exp s \<Longrightarrow> list_all num_char s"
proof (cases s)
  case (Cons c cs)
  assume "parses_exp s"
  with Cons have "ascii_lower c = CHR ''e''" "list_all is_ascii_digit (snd (split_sign cs))"
    by (auto simp: parses_exp_def Let_def)
  moreover from this have "num_char c"
    by (intro num_char_ascii_lower) (simp add: is_ascii_lower_def)
  ultimately show ?thesis using Cons by (auto dest: digits_num split_sign_num)
qed simp

lemma parses_number_num: "parses_number s \<Longrightarrow> list_all num_char s"
proof -
  assume p: "parses_number s"
  let ?r = "dropWhile is_ascii_digit s"
  have tw: "list_all num_char (takeWhile is_ascii_digit x)" for x
    by (auto simp: list_all_iff num_char_digit dest: set_takeWhileD)
  have "list_all num_char ?r"
  proof (cases ?r)
    case (Cons c cs)
    show ?thesis
    proof (cases "c = CHR ''.''")
      case True
      with p Cons have "list_all num_char (dropWhile is_ascii_digit cs)"
        by (auto simp: parses_number_def Let_def intro: parses_exp_num)
      with tw [of cs] have "list_all num_char cs"
        by (metis list_all_append takeWhile_dropWhile_id)
      with True Cons show ?thesis by (simp add: num_char_def)
    next
      case False
      with p Cons have "parses_exp ?r" by (auto simp: parses_number_def Let_def)
      then show ?thesis by (rule parses_exp_num)
    qed
  next
    case Nil
    then show ?thesis by (simp only: list.pred_inject)
  qed
  with tw [of s] show ?thesis by (metis list_all_append takeWhile_dropWhile_id)
qed

lemma lowercase_word_num:
  "to_ascii_lowercase r = w \<Longrightarrow> list_all is_ascii_lower w \<Longrightarrow> list_all num_char r"
  by (auto simp: to_ascii_lowercase_def list_all_iff num_char_ascii_lower)

lemma parses_f64_num: "parses_f64 s \<Longrightarrow> list_all num_char s"
proof -
  assume "parses_f64 s"
  then have "list_all num_char (snd (split_sign s))"
    using lowercase_word_num [of "snd (split_sign s)"] parses_number_num
    by (auto simp: parses_f64_def Let_def is_ascii_lower_def)
  then show ?thesis by (rule split_sign_num)
qed

lemma parses_i64_num: "parses_i64 s \<Longrightarrow> list_all num_char s"
proof -
  assume "parses_i64 s"
  then have "list_all is_ascii_digit (snd (split_sign s))"
    unfolding parses_i64_def by (cases "split_sign s") (simp only: Let_def prod.case snd_conv)
  then show ?thesis by (rule split_sign_num [OF digits_num])
qed

text \<open>Measure thresholds cannot inject SQL either: a value compared numerically is emitted
  either as a quoted literal or, unquoted, as a text of letters, digits, signs and points only, so
  it cannot hold a quote, a space, a bracket, a semicolon or a comment.\<close>

lemma scalar_lit_safe:
  "scalar_lit v numeric = lit v \<or>
   scalar_lit v numeric = v \<and> list_all num_char v"
  by (auto simp: scalar_lit_def parses_f64_num parses_i64_num)

text \<open>Contrary to the comment on \<open>apply_op\<close> ("emitted as a bare numeric literal"), the
  unquoted text need not be a numeric literal: \<open>NaN\<close> and \<open>infinity\<close> parse as \<open>f64\<close>, so a
  caller's value reaches the query as a bare identifier.\<close>

lemma scalar_lit_bare_identifier:
  "scalar_lit ''nan'' True = ''nan'' \<and> scalar_lit ''Infinity'' True = ''Infinity'' \<and>
   \<not> list_ex is_ascii_digit ''nan''"
  by code_simp

end
