(* ===== verification/Time_Grains.thy ===== *)
theory Time_Grains
  imports Semantic_Types
begin

section \<open>Time grains against the calendar\<close>

text \<open>
  \<open>TimeGrain::can_roll_up_to\<close> decides whether a rollup stored at one grain can serve a query at
  another.  Here it is checked against what truncation means: a timestamp falls into one bucket
  of each grain, and a grain rolls up to another exactly when the finer bucket determines the
  coarser one.  Weeks start on Monday, as \<open>DATE_TRUNC('week', _)\<close> has it, in the proleptic
  Gregorian calendar.
\<close>

subsection \<open>Calendar buckets\<close>

record civil =
  year :: int
  month :: int
  day :: int
  hour :: int

definition leap_year :: "int \<Rightarrow> bool" where
  "leap_year y \<longleftrightarrow> y mod 4 = 0 \<and> (y mod 100 \<noteq> 0 \<or> y mod 400 = 0)"

definition month_length :: "int \<Rightarrow> int \<Rightarrow> int" where
  "month_length y m =
     (if m = 2 then (if leap_year y then 29 else 28)
      else if m \<in> {4, 6, 9, 11} then 30 else 31)"

definition valid_time :: "civil \<Rightarrow> bool" where
  "valid_time t \<longleftrightarrow> 1 \<le> month t \<and> month t \<le> 12 \<and> 1 \<le> day t \<and>
     day t \<le> month_length (year t) (month t) \<and> 0 \<le> hour t \<and> hour t < 24"

text \<open>Days since 1 March of year 0, which was a Wednesday.\<close>

definition day_number :: "civil \<Rightarrow> int" where
  "day_number t =
     (let y = (if month t \<le> 2 then year t - 1 else year t) in
      365 * y + y div 4 - y div 100 + y div 400 +
      (153 * ((month t + 9) mod 12) + 2) div 5 + day t - 1)"

fun bucket :: "TimeGrain \<Rightarrow> civil \<Rightarrow> int list" where
  "bucket Hour t = [year t, month t, day t, hour t]"
| "bucket Day t = [year t, month t, day t]"
| "bucket Week t = [(day_number t + 2) div 7]"
| "bucket Month t = [year t, month t]"
| "bucket Quarter t = [year t, (month t - 1) div 3]"
| "bucket Year t = [year t]"

text \<open>1 January 1970 is day 719468, a Thursday: three days into its week.\<close>

lemma day_number_epoch:
  "day_number \<lparr>year = 1970, month = 1, day = 1, hour = 0\<rparr> = 719468"
  "(day_number \<lparr>year = 1970, month = 1, day = 1, hour = 0\<rparr> + 2) mod 7 = 3"
  by (simp_all add: day_number_def)

definition at :: "int \<Rightarrow> int \<Rightarrow> int \<Rightarrow> int \<Rightarrow> civil" where
  "at y m d h = \<lparr>year = y, month = m, day = d, hour = h\<rparr>"

text \<open>Two times that a coarser-than-given grain merges, one pair per target grain.\<close>

fun split_pair :: "TimeGrain \<Rightarrow> civil \<times> civil" where
  "split_pair Hour = (at 2024 1 1 0, at 2024 1 1 1)"
| "split_pair Day = (at 2024 1 1 0, at 2024 1 2 0)"
| "split_pair Week = (at 2024 1 1 0, at 2024 1 10 0)"
| "split_pair Month = (at 2024 1 31 0, at 2024 2 1 0)"
| "split_pair Quarter = (at 2024 9 30 0, at 2024 10 1 0)"
| "split_pair Year = (at 2024 12 31 0, at 2025 1 1 0)"

lemma split_pair_valid:
  "valid_time (fst (split_pair g))" "valid_time (snd (split_pair g))"
  by (cases g; simp add: at_def valid_time_def month_length_def leap_year_def)+

lemma day_number_cong:
  "year t = year t' \<Longrightarrow> month t = month t' \<Longrightarrow> day t = day t' \<Longrightarrow> day_number t = day_number t'"
  by (simp add: day_number_def Let_def)

lemma rolls_up_determines:
  "can_roll_up_to p q \<Longrightarrow> bucket p t = bucket p t' \<Longrightarrow> bucket q t = bucket q t'"
  using day_number_cong [of t t'] by (cases p; cases q) (simp_all add: can_roll_up_to_def)

lemma no_roll_up_splits:
  "\<not> can_roll_up_to p q \<Longrightarrow>
     bucket p (fst (split_pair q)) = bucket p (snd (split_pair q)) \<and>
     bucket q (fst (split_pair q)) \<noteq> bucket q (snd (split_pair q))"
  by (cases p; cases q) (simp_all add: can_roll_up_to_def at_def day_number_def)

text \<open>Roll-up of grains is exact with respect to the calendar: \<open>can_roll_up_to\<close> answers yes
  precisely when two times in the same bucket of the stored grain are always in the same bucket of
  the requested grain.  Re-truncating a stored bucket then loses nothing, and every refused pair
  of grains has two real dates that a rollup would have merged wrongly (a week that spans two
  months, for instance).\<close>

lemma can_roll_up_to_exact:
  "can_roll_up_to p q \<longleftrightarrow>
     (\<forall>t t'. valid_time t \<longrightarrow> valid_time t' \<longrightarrow> bucket p t = bucket p t' \<longrightarrow>
        bucket q t = bucket q t')"
  using rolls_up_determines no_roll_up_splits split_pair_valid by blast

text \<open>The documented rank of a grain is a necessary condition for rolling up, and weeks are
  the only grain for which it is not sufficient.\<close>

lemma can_roll_up_to_rank:
  "can_roll_up_to p q \<longleftrightarrow> grain_rank p \<le> grain_rank q \<and> (p = Week \<longrightarrow> q = Week)"
  by (cases p; cases q) (simp_all add: can_roll_up_to_def)

text \<open>Rolling up composes: a rollup of a rollup is a rollup.  So serving a query from any
  covering pre-aggregation gives the same buckets.\<close>

lemma can_roll_up_to_preorder:
  "can_roll_up_to g g \<and> (can_roll_up_to p q \<and> can_roll_up_to q r \<longrightarrow> can_roll_up_to p r)"
  by (cases p; cases q; cases r) (simp_all add: can_roll_up_to_def)

text \<open>The lowercase token of a grain and its parser are inverse, so the grain named in a
  query member is the grain truncated to.\<close>

lemma grain_parse_as_str: "grain_parse s = Some g \<longleftrightarrow> s = grain_as_str g"
  by (cases g) (auto simp: grain_parse_def)

end
