(* ===== verification/Join_Graph.thy ===== *)
theory Join_Graph
  imports Semantic_Types
begin

section \<open>The join graph: adjacency, reachability, needed models\<close>

text \<open>
  How \<open>pawrly-semantic\<close> finds its joins: \<open>SemanticCatalog::adjacency\<close> builds the bidirectional
  graph of relationships, \<open>reachability\<close> walks it breadth first from the fact model and records
  for each reached model its depth, its predecessor, whether the path multiplies rows and whether
  a second equally short path exists, and \<open>needed_models\<close> collects the models to join, parents
  first.  A \<open>HashMap\<close> that is only looked up is a map; the iteration order of a \<open>HashSet\<close>, which
  Rust leaves open, is the argument \<open>hash_iter\<close>.
\<close>

record Edge =
  e_target :: string
  e_kind :: RelationshipKind
  e_on :: string
  e_fans_out :: bool

record Node =
  n_depth :: nat
  n_fans_out :: bool
  n_parent :: "string option"
  n_on :: "string option"
  n_kind :: "RelationshipKind option"
  n_ambiguous :: bool

definition node_root :: Node where
  "node_root = \<lparr>n_depth = 0, n_fans_out = False, n_parent = None, n_on = None, n_kind = None,
     n_ambiguous = False\<rparr>"

type_synonym adj = "(string, Edge list) hmap"
type_synonym nodes = "string \<rightharpoonup> Node"

subsection \<open>Adjacency\<close>

fun invert_kind :: "RelationshipKind \<Rightarrow> RelationshipKind" where
  "invert_kind OneToMany = ManyToOne"
| "invert_kind ManyToOne = OneToMany"
| "invert_kind OneToOne = OneToOne"

definition push_edge :: "string \<Rightarrow> Edge \<Rightarrow> adj \<Rightarrow> adj" where
  "push_edge from edge adj =
     (let v = (case hm_get adj from of None \<Rightarrow> [] | Some v \<Rightarrow> v) in
      if list_ex (\<lambda>e. e_target e = e_target edge) v then adj
      else hm_insert from (v @ [edge]) adj)"

definition add_relationship ::
  "SemanticCatalog \<Rightarrow> SemanticModel \<Rightarrow> Relationship \<Rightarrow> adj \<Rightarrow> adj" where
  "add_relationship cat model rel adj =
     (if get_model cat (r_target_model rel) = None then adj
      else
        let on = replace_sub ''this.'' (m_name model @ ''.'') (r_join_predicate rel);
            adj1 = push_edge (m_name model)
              \<lparr>e_target = r_target_model rel, e_kind = r_kind rel, e_on = on,
               e_fans_out = (r_kind rel = OneToMany)\<rparr> adj;
            inv = invert_kind (r_kind rel)
        in push_edge (r_target_model rel)
             \<lparr>e_target = m_name model, e_kind = inv, e_on = on,
              e_fans_out = (inv = OneToMany)\<rparr> adj1)"

text \<open>The lookup of a model by one of the catalog's own keys always succeeds.\<close>

definition adjacency :: "SemanticCatalog \<Rightarrow> adj" where
  "adjacency cat =
     fold (\<lambda>name adj.
       case get_model cat name of
         None \<Rightarrow> adj
       | Some model \<Rightarrow> fold (add_relationship cat model) (m_relationships model) adj)
     (sort (map fst (c_models cat))) []"

subsection \<open>Reachability\<close>

definition relax :: "string \<Rightarrow> nat \<Rightarrow> bool \<Rightarrow> Edge \<Rightarrow> nodes \<times> string list \<Rightarrow> nodes \<times> string list" where
  "relax cur depth fans e st =
     (let (nodes, queue) = st; nd = depth + 1; nf = (fans \<or> e_fans_out e) in
      case nodes (e_target e) of
        None \<Rightarrow>
          (nodes(e_target e \<mapsto>
             \<lparr>n_depth = nd, n_fans_out = nf, n_parent = Some cur, n_on = Some (e_on e),
              n_kind = Some (e_kind e), n_ambiguous = False\<rparr>),
           queue @ [e_target e])
      | Some existing \<Rightarrow>
          if n_depth existing = nd \<and> n_parent existing \<noteq> Some cur
          then (nodes(e_target e \<mapsto> existing\<lparr>n_ambiguous := True\<rparr>), queue)
          else (nodes, queue))"

definition adj_targets :: "adj \<Rightarrow> string set" where
  "adj_targets adj = e_target ` (\<Union>(_, es) \<in> set adj. set es)"

lemma finite_adj_targets [simp]: "finite (adj_targets adj)"
  by (auto simp: adj_targets_def)

lemma adj_targets_mem: "hm_get adj u = Some es \<Longrightarrow> e \<in> set es \<Longrightarrow> e_target e \<in> adj_targets adj"
  unfolding adj_targets_def by (drule map_of_SomeD) blast

lemma relax_measure:
  assumes "finite T" "e_target e \<in> T"
  shows "card (T - dom (fst (relax cur d f e st))) + length (snd (relax cur d f e st)) =
    card (T - dom (fst st)) + length (snd st)"
proof (cases "fst st (e_target e)")
  case None
  then have mem: "e_target e \<in> T - dom (fst st)" using assms(2) by auto
  have "T - insert (e_target e) (dom (fst st)) = (T - dom (fst st)) - {e_target e}" by blast
  with mem assms(1) have "card (T - dom (fst st)) = Suc (card (T - insert (e_target e) (dom (fst st))))"
    by (simp only: card_Suc_Diff1 finite_Diff)
  with None show ?thesis by (simp add: relax_def split_beta Let_def)
next
  case (Some n)
  then have "insert (e_target e) (dom (fst st)) = dom (fst st)" by auto
  with Some show ?thesis by (simp add: relax_def split_beta Let_def)
qed

lemma fold_relax_measure:
  assumes "finite T" "\<forall>e\<in>set es. e_target e \<in> T"
  shows "card (T - dom (fst (fold (relax cur d f) es st))) +
      length (snd (fold (relax cur d f) es st)) =
    card (T - dom (fst st)) + length (snd st)"
  using assms(2) by (induction es arbitrary: st) (simp_all add: relax_measure [OF assms(1)])

text \<open>
  The loop \<open>while let Some(cur) = queue.pop_front()\<close>.  \<open>None\<close> is the panic of \<open>nodes[&cur]\<close> on
  an absent key.  Each round removes one queue entry, and every entry it adds is a model not seen
  before, so the unseen targets plus the queue length shrink.
\<close>

function bfs :: "adj \<Rightarrow> nodes \<Rightarrow> string list \<Rightarrow> nodes option" where
  "bfs adj nodes [] = Some nodes"
| "bfs adj nodes (cur # queue) =
     (case nodes cur of
        None \<Rightarrow> None
      | Some n \<Rightarrow>
          (case hm_get adj cur of
             None \<Rightarrow> bfs adj nodes queue
           | Some edges \<Rightarrow>
               (let st = fold (relax cur (n_depth n) (n_fans_out n)) edges (nodes, queue)
                in bfs adj (fst st) (snd st))))"
  by pat_completeness auto
termination
proof (relation "measure (\<lambda>(adj, nodes, queue). card (adj_targets adj - dom nodes) + length queue)",
    goal_cases)
  case (3 adj nodes cur queue n edges st)
  then show ?case
    using fold_relax_measure [of "adj_targets adj" edges cur "n_depth n" "n_fans_out n"
        "(nodes, queue)"]
    by (simp add: adj_targets_mem split_beta)
qed auto

definition reachability :: "SemanticCatalog \<Rightarrow> string \<Rightarrow> nodes option" where
  "reachability cat root = bfs (adjacency cat) [root \<mapsto> node_root] [root]"

subsection \<open>Needed models\<close>

partial_function (option) walk_up ::
  "nodes \<Rightarrow> string \<Rightarrow> string \<Rightarrow> string list \<Rightarrow> (SemanticError + string list) option" where
  "walk_up nodes root cur acc =
     (if cur = root then Some (Inr acc)
      else case nodes cur of
        None \<Rightarrow> Some (Inl (RelationshipCycle cur))
      | Some node \<Rightarrow>
          (case n_parent node of
             None \<Rightarrow> Some (Inl (RelationshipCycle cur))
           | Some p \<Rightarrow> walk_up nodes root p (push_new cur acc)))"

declare walk_up.simps [code]

fun collect_needed ::
  "nodes \<Rightarrow> string \<Rightarrow> string list \<Rightarrow> string list \<Rightarrow> SemanticError + string list" where
  "collect_needed nodes root [] acc = Inr acc"
| "collect_needed nodes root (m # ms) acc =
     (if m = root then collect_needed nodes root ms acc
      else case walk_up nodes root m acc of
             None \<Rightarrow> Inl Diverges
           | Some r \<Rightarrow> rbind r (collect_needed nodes root ms))"

definition u32_max :: nat where
  "u32_max = 4294967295"

definition depth_key :: "nodes \<Rightarrow> string \<Rightarrow> nat" where
  "depth_key nodes m = (case nodes m of Some n \<Rightarrow> n_depth n | None \<Rightarrow> u32_max)"

definition needed_models ::
  "(string list \<Rightarrow> string list) \<Rightarrow> nodes \<Rightarrow> string list \<Rightarrow> string \<Rightarrow> SemanticError + string list" where
  "needed_models hash_iter nodes referenced root =
     rbind (collect_needed nodes root referenced [])
       (\<lambda>needed. Inr (sort_key (depth_key nodes) (hash_iter needed)))"

subsection \<open>The contract of a reachability map\<close>

definition edge_of :: "adj \<Rightarrow> string \<Rightarrow> Edge \<Rightarrow> bool" where
  "edge_of adj u e \<longleftrightarrow> (\<exists>es. hm_get adj u = Some es \<and> e \<in> set es)"

text \<open>A non-root node hangs below a shallower node by an edge of the graph.\<close>

definition hangs :: "adj \<Rightarrow> nodes \<Rightarrow> string \<Rightarrow> Node \<Rightarrow> bool" where
  "hangs adj nodes v n \<longleftrightarrow>
     (\<exists>p pn e. n_parent n = Some p \<and> nodes p = Some pn \<and> edge_of adj p e \<and> e_target e = v \<and>
        n_depth n = Suc (n_depth pn) \<and> n_on n = Some (e_on e) \<and> n_kind n = Some (e_kind e) \<and>
        n_fans_out n = (n_fans_out pn \<or> e_fans_out e))"

text \<open>
  What the search keeps true, \<open>D\<close> being the edges it has looked at (as pairs of end points): the
  root is as created, every other node hangs in the tree, a looked-at edge goes at most one level
  deeper, a node is ambiguous exactly when a looked-at edge reaches it from a second node one
  level up, and the queue is ordered by depth and spans at most two levels.
\<close>

definition bfs_inv :: "adj \<Rightarrow> string \<Rightarrow> (string \<times> string) set \<Rightarrow> nodes \<Rightarrow> string list \<Rightarrow> bool" where
  "bfs_inv adj root D nodes queue \<longleftrightarrow>
     nodes root = Some node_root \<and>
     (\<forall>v n. nodes v = Some n \<longrightarrow> v \<noteq> root \<longrightarrow> hangs adj nodes v n) \<and>
     (\<forall>u v. (u, v) \<in> D \<longrightarrow>
        (\<exists>un vn. nodes u = Some un \<and> nodes v = Some vn \<and> n_depth vn \<le> Suc (n_depth un))) \<and>
     (\<forall>v n. nodes v = Some n \<longrightarrow>
        n_ambiguous n = (\<exists>p pn. (p, v) \<in> D \<and> nodes p = Some pn \<and>
          Suc (n_depth pn) = n_depth n \<and> n_parent n \<noteq> Some p)) \<and>
     distinct queue \<and> set queue \<subseteq> dom nodes \<and>
     sorted (map (depth_key nodes) queue) \<and>
     (\<forall>v n. nodes v = Some n \<longrightarrow> (\<forall>q\<in>set queue. n_depth n \<le> Suc (depth_key nodes q)))"

lemma bfs_invD:
  assumes "bfs_inv adj root D nodes queue"
  shows "nodes root = Some node_root"
    and "nodes v = Some n \<Longrightarrow> v \<noteq> root \<Longrightarrow> hangs adj nodes v n"
    and "(u, v) \<in> D \<Longrightarrow>
      \<exists>un vn. nodes u = Some un \<and> nodes v = Some vn \<and> n_depth vn \<le> Suc (n_depth un)"
    and "nodes v = Some n \<Longrightarrow> n_ambiguous n \<longleftrightarrow> (\<exists>p pn. (p, v) \<in> D \<and> nodes p = Some pn \<and>
        Suc (n_depth pn) = n_depth n \<and> n_parent n \<noteq> Some p)"
    and "distinct queue" "set queue \<subseteq> dom nodes" "sorted (map (depth_key nodes) queue)"
    and "nodes v = Some n \<Longrightarrow> q \<in> set queue \<Longrightarrow> n_depth n \<le> Suc (depth_key nodes q)"
  using assms unfolding bfs_inv_def by blast+

lemma bfs_invI:
  assumes "nodes root = Some node_root"
    and "\<And>v n. nodes v = Some n \<Longrightarrow> v \<noteq> root \<Longrightarrow> hangs adj nodes v n"
    and "\<And>u v. (u, v) \<in> D \<Longrightarrow>
      \<exists>un vn. nodes u = Some un \<and> nodes v = Some vn \<and> n_depth vn \<le> Suc (n_depth un)"
    and "\<And>v n. nodes v = Some n \<Longrightarrow> n_ambiguous n \<longleftrightarrow> (\<exists>p pn. (p, v) \<in> D \<and> nodes p = Some pn \<and>
        Suc (n_depth pn) = n_depth n \<and> n_parent n \<noteq> Some p)"
    and "distinct queue" "set queue \<subseteq> dom nodes" "sorted (map (depth_key nodes) queue)"
    and "\<And>v n q. nodes v = Some n \<Longrightarrow> q \<in> set queue \<Longrightarrow> n_depth n \<le> Suc (depth_key nodes q)"
  shows "bfs_inv adj root D nodes queue"
  unfolding bfs_inv_def using assms by (intro conjI allI impI ballI)

lemma bfs_inv_init: "bfs_inv adj root {} [root \<mapsto> node_root] [root]"
  by (auto simp: bfs_inv_def node_root_def depth_key_def split: if_splits)

text \<open>Changing the ambiguity flag of a node leaves everything else about the map as it was.\<close>

lemma hangs_upd_ambiguous:
  assumes "nodes t = Some ex" "hangs adj nodes v n"
  shows "hangs adj (nodes(t \<mapsto> ex\<lparr>n_ambiguous := a\<rparr>)) v n"
    and "hangs adj (nodes(t \<mapsto> ex\<lparr>n_ambiguous := a\<rparr>)) v (n\<lparr>n_ambiguous := b\<rparr>)"
  using assms unfolding hangs_def by (fastforce)+

lemma depth_key_upd_ambiguous:
  "nodes t = Some ex \<Longrightarrow> depth_key (nodes(t \<mapsto> ex\<lparr>n_ambiguous := a\<rparr>)) = depth_key nodes"
  by (auto simp: depth_key_def fun_eq_iff)

lemma hangs_new:
  assumes "nodes t = None" "hangs adj nodes v n"
  shows "hangs adj (nodes(t \<mapsto> m)) v n"
  using assms unfolding hangs_def by (metis fun_upd_other option.distinct(1))

lemma depth_key_new: "nodes t = None \<Longrightarrow> q \<in> dom nodes \<Longrightarrow> depth_key (nodes(t \<mapsto> m)) q = depth_key nodes q"
  by (auto simp: depth_key_def)

lemma bfs_inv_see_new:
  assumes inv: "bfs_inv adj root D nodes (cur # queue)"
    and cur: "nodes cur = Some n" and e: "edge_of adj cur e" and t: "nodes (e_target e) = None"
  defines "m \<equiv> \<lparr>n_depth = n_depth n + 1, n_fans_out = (n_fans_out n \<or> e_fans_out e),
    n_parent = Some cur, n_on = Some (e_on e), n_kind = Some (e_kind e), n_ambiguous = False\<rparr>"
  shows "bfs_inv adj root (insert (cur, e_target e) D) (nodes(e_target e \<mapsto> m))
    (cur # queue @ [e_target e])"
proof -
  let ?t = "e_target e" and ?N = "nodes(e_target e \<mapsto> m)"
  note I = bfs_invD [OF inv]
  have old: "nodes v = Some x \<Longrightarrow> ?N v = Some x" for v x using t by auto
  have dk: "q \<in> set (cur # queue) \<Longrightarrow> depth_key ?N q = depth_key nodes q" for q
    using I(6) t by (intro depth_key_new) auto
  have dkt: "depth_key ?N ?t = Suc (n_depth n)" by (simp add: depth_key_def m_def)
  have dkc: "depth_key nodes cur = n_depth n" using cur by (simp add: depth_key_def)
  have "?N root = Some node_root" using I(1) t by auto
  moreover have "hangs adj ?N v x" if "?N v = Some x" "v \<noteq> root" for v x
  proof (cases "v = ?t")
    case True
    with that e cur t show ?thesis
      unfolding hangs_def
      by (intro exI [of _ cur] exI [of _ n] exI [of _ e]) (auto simp: m_def)
  next
    case False
    with that I(2) t show ?thesis by (auto intro: hangs_new)
  qed
  moreover have "\<exists>un vn. ?N u = Some un \<and> ?N v = Some vn \<and> n_depth vn \<le> Suc (n_depth un)"
    if "(u, v) \<in> insert (cur, ?t) D" for u v
  proof (cases "(u, v) = (cur, ?t)")
    case True
    with cur t show ?thesis by (auto simp: m_def)
  next
    case False
    with that I(3) obtain un vn where "nodes u = Some un" "nodes v = Some vn"
      "n_depth vn \<le> Suc (n_depth un)" by blast
    with old show ?thesis by blast
  qed
  moreover have "n_ambiguous x \<longleftrightarrow> (\<exists>p pn. (p, v) \<in> insert (cur, ?t) D \<and> ?N p = Some pn \<and>
      Suc (n_depth pn) = n_depth x \<and> n_parent x \<noteq> Some p)" if "?N v = Some x" for v x
  proof (cases "v = ?t")
    case True
    have "(p, ?t) \<notin> D" for p using I(3) t by fastforce
    with True that show ?thesis by (auto simp: m_def)
  next
    case False
    with that have v: "nodes v = Some x" by simp
    have "(p, v) \<in> insert (cur, ?t) D \<and> ?N p = Some pn \<longleftrightarrow> (p, v) \<in> D \<and> nodes p = Some pn" for p pn
      using I(3) [of p v] t False by (cases "p = ?t") auto
    then show ?thesis unfolding I(4) [OF v] by blast
  qed
  moreover have "distinct (cur # queue @ [?t])" "set (cur # queue @ [?t]) \<subseteq> dom ?N"
    using I(5,6) t by auto
  moreover have "sorted (map (depth_key ?N) (cur # queue @ [?t]))"
  proof -
    have eq: "map (depth_key ?N) (cur # queue) = map (depth_key nodes) (cur # queue)"
      using dk by (intro map_cong) auto
    have le: "depth_key nodes q \<le> Suc (n_depth n)" if q: "q \<in> set (cur # queue)" for q
    proof -
      from q I(6) obtain y where y: "nodes q = Some y" by blast
      with I(8) [of q y cur] dkc show ?thesis by (simp add: depth_key_def)
    qed
    have "map (depth_key ?N) (cur # queue @ [?t]) =
        map (depth_key nodes) (cur # queue) @ [Suc (n_depth n)]"
      using eq dkt by (simp del: fun_upd_apply)
    then show ?thesis
      using I(7) le by (simp only: sorted_append) auto
  qed
  moreover have "n_depth x \<le> Suc (depth_key ?N q)"
    if "?N v = Some x" "q \<in> set (cur # queue @ [?t])" for v x q
  proof -
    have le: "n_depth n \<le> depth_key ?N q"
      using that(2) I(7) dk [of q] dkt dkc by auto
    show ?thesis
    proof (cases "v = ?t")
      case True
      with that(1) have "n_depth x = Suc (n_depth n)" by (auto simp: m_def)
      with le show ?thesis by simp
    next
      case False
      with that I(8) [of v x cur] dkc le show ?thesis by auto
    qed
  qed
  ultimately show ?thesis by (intro bfs_invI)
qed

lemma bfs_inv_see_old:
  assumes inv: "bfs_inv adj root D nodes (cur # queue)"
    and cur: "nodes cur = Some n" and ex: "nodes t = Some ex"
  defines "a \<equiv> n_depth ex = Suc (n_depth n) \<and> n_parent ex \<noteq> Some cur"
  defines "N \<equiv> if a then nodes(t \<mapsto> ex\<lparr>n_ambiguous := True\<rparr>) else nodes"
  shows "bfs_inv adj root (insert (cur, t) D) N (cur # queue)"
proof -
  note I = bfs_invD [OF inv]
  have N: "N v = map_option (\<lambda>x. x\<lparr>n_ambiguous := n_ambiguous x \<or> (a \<and> v = t)\<rparr>) (nodes v)" for v
    using ex by (auto simp: N_def option.map_ident)
  have dk: "depth_key N = depth_key nodes"
    using depth_key_upd_ambiguous [of nodes t ex] ex by (simp add: N_def)
  have domN: "dom N = dom nodes" using ex by (auto simp: N_def)
  have dle: "n_depth ex \<le> Suc (n_depth n)"
    using I(8) [OF ex, of cur] cur by (simp add: depth_key_def)
  have "N root = Some node_root"
    using I(1) ex by (auto simp: N_def a_def node_root_def)
  moreover have "hangs adj N v x" if Nv: "N v = Some x" and "v \<noteq> root" for v x
  proof -
    from Nv obtain y where y: "nodes v = Some y"
      "x = y\<lparr>n_ambiguous := n_ambiguous y \<or> (a \<and> v = t)\<rparr>" by (auto simp: N)
    with I(2) \<open>v \<noteq> root\<close> have h: "hangs adj nodes v y" by blast
    then show ?thesis
      using hangs_upd_ambiguous(2) [OF ex h] y ex by (auto simp: N_def)
  qed
  moreover have "\<exists>un vn. N u = Some un \<and> N v = Some vn \<and> n_depth vn \<le> Suc (n_depth un)"
    if "(u, v) \<in> insert (cur, t) D" for u v
    using that I(3) [of u v] cur ex dle by (auto simp: N)
  moreover have "n_ambiguous x \<longleftrightarrow> (\<exists>p pn. (p, v) \<in> insert (cur, t) D \<and> N p = Some pn \<and>
      Suc (n_depth pn) = n_depth x \<and> n_parent x \<noteq> Some p)" if Nv: "N v = Some x" for v x
  proof -
    from Nv obtain y where y: "nodes v = Some y"
      "x = y\<lparr>n_ambiguous := n_ambiguous y \<or> (a \<and> v = t)\<rparr>" by (auto simp: N)
    have D: "(\<exists>p pn. (p, v) \<in> D \<and> N p = Some pn \<and> Suc (n_depth pn) = n_depth x \<and> n_parent x \<noteq> Some p)
        \<longleftrightarrow> n_ambiguous y"
      unfolding I(4) [OF y(1)] using y(2) by (auto simp: N)
    have C: "(\<exists>pn. v = t \<and> N cur = Some pn \<and> Suc (n_depth pn) = n_depth x \<and> n_parent x \<noteq> Some cur)
        \<longleftrightarrow> a \<and> v = t"
      using y ex cur by (auto simp: N a_def)
    from y(2) have "n_ambiguous x \<longleftrightarrow> n_ambiguous y \<or> a \<and> v = t" by simp
    with C D show ?thesis by blast
  qed
  moreover have "n_depth x \<le> Suc (depth_key N q)" if "N v = Some x" "q \<in> set (cur # queue)" for v x q
    using that I(8) [of v _ q] unfolding dk by (auto simp: N)
  moreover have "set (cur # queue) \<subseteq> dom N" "sorted (map (depth_key N) (cur # queue))"
    unfolding dk domN using I(6,7) .
  ultimately show ?thesis using I(5) by (intro bfs_invI)
qed

lemma relax_inv:
  assumes "bfs_inv adj root D nodes (cur # queue)" "nodes cur = Some n" "edge_of adj cur e"
  shows "case relax cur (n_depth n) (n_fans_out n) e (nodes, queue) of (nodes', queue') \<Rightarrow>
    bfs_inv adj root (insert (cur, e_target e) D) nodes' (cur # queue') \<and>
    (\<exists>n'. nodes' cur = Some n' \<and> n_depth n' = n_depth n \<and> n_fans_out n' = n_fans_out n) \<and>
    dom nodes' - set queue' = dom nodes - set queue"
proof (cases "nodes (e_target e)")
  case None
  then have "e_target e \<noteq> cur" "e_target e \<notin> set queue"
    using assms(2) bfs_invD(6) [OF assms(1)] by auto
  with None bfs_inv_see_new [OF assms None] assms(2) show ?thesis
    by (auto simp: relax_def)
next
  case (Some ex)
  then show ?thesis
    using bfs_inv_see_old [OF assms(1,2) Some] assms(2)
    by (auto simp: relax_def split: if_splits)
qed

lemma fold_relax_inv:
  assumes "bfs_inv adj root D nodes (cur # queue)" "nodes cur = Some n0" "n_depth n0 = d"
    "n_fans_out n0 = f" "\<forall>e\<in>set es. edge_of adj cur e"
  shows "case fold (relax cur d f) es (nodes, queue) of (nodes', queue') \<Rightarrow>
    bfs_inv adj root (D \<union> (\<lambda>e. (cur, e_target e)) ` set es) nodes' (cur # queue') \<and>
    dom nodes' - set queue' = dom nodes - set queue"
  using assms
proof (induction es arbitrary: nodes queue n0 D)
  case Nil
  then show ?case by simp
next
  case (Cons e es)
  obtain nodes' queue' where st: "relax cur d f e (nodes, queue) = (nodes', queue')" by fastforce
  from relax_inv [OF Cons.prems(1,2)] Cons.prems(3-5) st obtain n' where
    "bfs_inv adj root (insert (cur, e_target e) D) nodes' (cur # queue')"
    "nodes' cur = Some n'" "n_depth n' = d" "n_fans_out n' = f"
    "dom nodes' - set queue' = dom nodes - set queue"
    by fastforce
  with Cons.IH [OF this(1,2,3,4)] Cons.prems(5) st show ?case by simp
qed

definition seen_edges :: "adj \<Rightarrow> string set \<Rightarrow> (string \<times> string) set" where
  "seen_edges adj U = {(u, e_target e) |u e. u \<in> U \<and> edge_of adj u e}"

lemma bfs_correct:
  assumes "bfs_inv adj root (seen_edges adj (dom nodes - set queue)) nodes queue"
  shows "\<exists>nodes'. bfs adj nodes queue = Some nodes' \<and>
    bfs_inv adj root (seen_edges adj (dom nodes')) nodes' []"
  using assms
proof (induction adj nodes queue rule: bfs.induct)
  case (1 adj nodes)
  then show ?case by simp
next
  case (2 adj nodes cur queue)
  let ?D = "seen_edges adj (dom nodes - set (cur # queue))"
  note I = bfs_invD [OF 2(3)]
  from I(6) obtain n where n: "nodes cur = Some n" by auto
  have drop: "bfs_inv adj root D N (cur # Q) \<Longrightarrow> bfs_inv adj root D N Q" for D N Q
  proof (rule bfs_invI)
    assume i: "bfs_inv adj root D N (cur # Q)"
    note J = bfs_invD [OF i]
    show "N root = Some node_root" by (rule J(1))
    show "\<And>v n. N v = Some n \<Longrightarrow> v \<noteq> root \<Longrightarrow> hangs adj N v n" by (rule J(2))
    show "\<And>u v. (u, v) \<in> D \<Longrightarrow>
      \<exists>un vn. N u = Some un \<and> N v = Some vn \<and> n_depth vn \<le> Suc (n_depth un)" by (rule J(3))
    show "\<And>v n. N v = Some n \<Longrightarrow> n_ambiguous n \<longleftrightarrow> (\<exists>p pn. (p, v) \<in> D \<and> N p = Some pn \<and>
        Suc (n_depth pn) = n_depth n \<and> n_parent n \<noteq> Some p)" by (rule J(4))
    show "distinct Q" "set Q \<subseteq> dom N" "sorted (map (depth_key N) Q)"
      using J(5,6,7) by auto
    show "\<And>v n q. N v = Some n \<Longrightarrow> q \<in> set Q \<Longrightarrow> n_depth n \<le> Suc (depth_key N q)"
      using J(8) by auto
  qed
  have split: "seen_edges adj (insert cur U) = seen_edges adj U \<union> seen_edges adj {cur}" for U
    unfolding seen_edges_def by blast
  have dm: "dom nodes - set queue = insert cur (dom nodes - set (cur # queue))"
    using n I(5) by auto
  have D: "seen_edges adj (dom nodes - set queue) = ?D \<union> seen_edges adj {cur}"
    unfolding dm by (rule split)
  show ?case
  proof (cases "hm_get adj cur")
    case None
    then have "seen_edges adj {cur} = {}" by (auto simp: seen_edges_def edge_of_def)
    with D drop [OF 2(3)] have
      "bfs_inv adj root (seen_edges adj (dom nodes - set queue)) nodes queue" by simp
    with 2(1) [OF n None] n None show ?thesis by simp
  next
    case (Some es)
    then have edges: "\<forall>e\<in>set es. edge_of adj cur e"
      and img: "seen_edges adj {cur} = (\<lambda>e. (cur, e_target e)) ` set es"
      by (auto simp: seen_edges_def edge_of_def)
    obtain N Q where st: "fold (relax cur (n_depth n) (n_fans_out n)) es (nodes, queue) = (N, Q)"
      by fastforce
    from fold_relax_inv [OF 2(3) n refl refl edges] st
    have NQ: "bfs_inv adj root (?D \<union> seen_edges adj {cur}) N (cur # Q)"
      and dom: "dom N - set Q = dom nodes - set queue" by (simp_all add: img)
    from drop [OF NQ] have "bfs_inv adj root (seen_edges adj (dom N - set Q)) N Q"
      unfolding dom D .
    with 2(2) [OF n Some refl] st n Some show ?thesis by simp
  qed
qed

subsection \<open>What a client of the reachability map may rely on\<close>

inductive walk :: "adj \<Rightarrow> string \<Rightarrow> nat \<Rightarrow> string \<Rightarrow> bool" for adj root where
  walk_start: "walk adj root 0 root"
| walk_step: "walk adj root k u \<Longrightarrow> edge_of adj u e \<Longrightarrow> walk adj root (Suc k) (e_target e)"

text \<open>The models on the way from \<open>v\<close> up to the root, the root left out.\<close>

inductive chain :: "nodes \<Rightarrow> string \<Rightarrow> string \<Rightarrow> string list \<Rightarrow> bool" for nodes root where
  chain_root: "chain nodes root root []"
| chain_up: "v \<noteq> root \<Longrightarrow> nodes v = Some n \<Longrightarrow> n_parent n = Some p \<Longrightarrow> chain nodes root p ws \<Longrightarrow>
    chain nodes root v (v # ws)"

inductive_cases chain_ConsE: "chain nodes root v (w # ws)"

lemma chain_members:
  "chain nodes root v ws \<Longrightarrow> w \<in> set ws \<Longrightarrow>
     w \<noteq> root \<and> (\<exists>n p. nodes w = Some n \<and> n_parent n = Some p \<and> (p = root \<or> p \<in> set ws))"
proof (induction rule: chain.induct)
  case (chain_up v n p ws)
  have "p = root \<or> p \<in> set ws" using \<open>chain nodes root p ws\<close> by (cases rule: chain.cases) auto
  with chain_up show ?case by auto
qed simp

lemma walk_up_chain:
  "chain nodes root v ws \<Longrightarrow> walk_up nodes root v acc = Some (Inr (fold push_new ws acc))"
  by (induction arbitrary: acc rule: chain.induct) (simp_all add: walk_up.simps)

lemma chain_unique: "chain nodes root v ws \<Longrightarrow> chain nodes root v ws' \<Longrightarrow> ws' = ws"
proof (induction arbitrary: ws' rule: chain.induct)
  case chain_root
  then show ?case by (cases rule: chain.cases) auto
next
  case (chain_up v n p ws)
  from chain_up.prems chain_up.hyps(1,2,3) chain_up.IH show ?case by (cases rule: chain.cases) auto
qed

text \<open>The models a set of references pulls in: everything on the way from one of them to the root.\<close>

definition needed_for :: "nodes \<Rightarrow> string \<Rightarrow> string list \<Rightarrow> string \<Rightarrow> bool" where
  "needed_for nodes root ms w \<longleftrightarrow> (\<exists>m\<in>set ms. \<exists>ws. chain nodes root m ws \<and> w \<in> set ws)"

lemma needed_for_Cons:
  "chain nodes root m ws \<Longrightarrow>
     needed_for nodes root (m # ms) w \<longleftrightarrow> w \<in> set ws \<or> needed_for nodes root ms w"
  unfolding needed_for_def by (auto dest: chain_unique)

locale join_tree =
  fixes adj :: adj and root :: string and nodes :: nodes
  assumes root_node: "nodes root = Some node_root"
    and tree: "nodes v = Some n \<Longrightarrow> v \<noteq> root \<Longrightarrow> hangs adj nodes v n"
    and closed: "nodes u = Some un \<Longrightarrow> edge_of adj u e \<Longrightarrow>
      \<exists>vn. nodes (e_target e) = Some vn \<and> n_depth vn \<le> Suc (n_depth un)"
    and ambiguous_iff: "nodes v = Some n \<Longrightarrow> n_ambiguous n \<longleftrightarrow>
      (\<exists>p pn e. nodes p = Some pn \<and> edge_of adj p e \<and> e_target e = v \<and>
        Suc (n_depth pn) = n_depth n \<and> n_parent n \<noteq> Some p)"
begin

lemma walk_bound: "walk adj root k v \<Longrightarrow> \<exists>n. nodes v = Some n \<and> n_depth n \<le> k"
proof (induction rule: walk.induct)
  case walk_start
  then show ?case by (simp add: root_node node_root_def)
next
  case (walk_step k u e)
  then obtain un where "nodes u = Some un" "n_depth un \<le> k" by blast
  with closed [OF this(1) walk_step(2)] show ?case by auto
qed

lemma depth_0: "nodes v = Some n \<Longrightarrow> n_depth n = 0 \<Longrightarrow> v = root"
  using tree [of v n] by (auto simp: hangs_def)

lemma tree_parent:
  assumes "nodes v = Some n" "v \<noteq> root"
  obtains p pn e where "n_parent n = Some p" "nodes p = Some pn" "edge_of adj p e"
    "e_target e = v" "n_depth n = Suc (n_depth pn)" "n_kind n = Some (e_kind e)"
    "n_on n = Some (e_on e)" "n_fans_out n = (n_fans_out pn \<or> e_fans_out e)"
  using tree [OF assms] unfolding hangs_def by blast

lemma depth_walk: "nodes v = Some n \<Longrightarrow> walk adj root (n_depth n) v"
proof (induction "n_depth n" arbitrary: v n)
  case 0
  then have "v = root" using depth_0 by simp
  with 0 show ?case by (simp add: walk_start)
next
  case (Suc k)
  then have "v \<noteq> root" using root_node by (auto simp: node_root_def)
  with Suc.prems tree obtain p pn e where p: "nodes p = Some pn" "edge_of adj p e" "e_target e = v"
    "n_depth n = Suc (n_depth pn)" unfolding hangs_def by blast
  with Suc.hyps(2) have "k = n_depth pn" by simp
  from walk_step [OF Suc.hyps(1) [OF this p(1)] p(2)] p(3,4) show ?case by simp
qed

lemma reached_iff: "nodes v \<noteq> None \<longleftrightarrow> (\<exists>k. walk adj root k v)"
  using walk_bound depth_walk by blast

lemma depth_least: "nodes v = Some n \<Longrightarrow> n_depth n = (LEAST k. walk adj root k v)"
proof (rule sym, rule Least_equality)
  assume n: "nodes v = Some n"
  then show "walk adj root (n_depth n) v" by (rule depth_walk)
  show "n_depth n \<le> k" if "walk adj root k v" for k using walk_bound [OF that] n by simp
qed

lemma chain_ex: "nodes v = Some n \<Longrightarrow> \<exists>ws. chain nodes root v ws \<and> length ws = n_depth n"
proof (induction "n_depth n" arbitrary: v n)
  case 0
  then have "v = root" using depth_0 by simp
  with 0 show ?case by (auto intro: chain_root)
next
  case (Suc k)
  then have "v \<noteq> root" using root_node by (auto simp: node_root_def)
  with Suc.prems tree obtain p pn e where p: "n_parent n = Some p" "nodes p = Some pn"
    "n_depth n = Suc (n_depth pn)" unfolding hangs_def by blast
  with Suc.hyps(2) have "k = n_depth pn" by simp
  from Suc.hyps(1) [OF this p(2)] obtain ws where
    ws: "chain nodes root p ws" "length ws = n_depth pn" by blast
  from chain_up [OF \<open>v \<noteq> root\<close> Suc.prems p(1) ws(1)] ws(2) p(3) show ?case
    by (intro exI [of _ "v # ws"]) simp
qed

lemma collect_needed_ok:
  assumes "\<forall>m\<in>set ms. nodes m \<noteq> None" "distinct acc"
  shows "\<exists>out. collect_needed nodes root ms acc = Inr out \<and> distinct out \<and>
    (\<forall>w. w \<in> set out \<longleftrightarrow> w \<in> set acc \<or> needed_for nodes root ms w)"
  using assms
proof (induction ms arbitrary: acc)
  case Nil
  then show ?case by (simp add: needed_for_def)
next
  case (Cons m ms)
  from Cons.prems(1) obtain n where "nodes m = Some n" by auto
  then obtain ws where ws: "chain nodes root m ws" using chain_ex by blast
  have nf: "needed_for nodes root (m # ms) w \<longleftrightarrow> w \<in> set ws \<or> needed_for nodes root ms w" for w
    by (rule needed_for_Cons [OF ws])
  have "distinct (fold push_new ws acc)" using Cons.prems(2) by (rule distinct_fold_push_new)
  from Cons.IH [OF _ this] Cons.prems(1) obtain out where
    out: "collect_needed nodes root ms (fold push_new ws acc) = Inr out" "distinct out"
    "\<forall>w. w \<in> set out \<longleftrightarrow> w \<in> set (fold push_new ws acc) \<or> needed_for nodes root ms w"
    by (meson list.set_intros(2))
  have mem: "\<forall>w. w \<in> set out \<longleftrightarrow> w \<in> set acc \<or> needed_for nodes root (m # ms) w"
    using out(3) nf by simp
  show ?case
  proof (cases "m = root")
    case True
    with ws have "ws = []" by (auto elim: chain.cases)
    with out(1,2) True mem show ?thesis by simp
  next
    case False
    with out(1,2) mem show ?thesis by (simp add: walk_up_chain [OF ws])
  qed
qed

lemma needed_models_ok:
  assumes "\<forall>m\<in>set ms. nodes m \<noteq> None" and iter: "\<And>xs. mset (hash_iter xs) = mset xs"
  shows "\<exists>out. needed_models hash_iter nodes ms root = Inr out \<and> distinct out \<and>
    (\<forall>w. w \<in> set out \<longleftrightarrow> needed_for nodes root ms w) \<and> sorted (map (depth_key nodes) out)"
proof -
  obtain s where s: "collect_needed nodes root ms [] = Inr s" "distinct s"
    "\<forall>w. w \<in> set s \<longleftrightarrow> needed_for nodes root ms w"
    using collect_needed_ok [OF assms(1), of "[]"] by auto
  let ?out = "sort_key (depth_key nodes) (hash_iter s)"
  have ms: "mset ?out = mset s" by (simp add: iter)
  have "set ?out = set s" using mset_eq_setD [OF ms] .
  moreover have "distinct ?out" using s(2) mset_eq_imp_distinct_iff [OF ms] by blast
  ultimately show ?thesis using s(1,3) by (simp add: needed_models_def)
qed

lemma parents_first:
  assumes out: "distinct out" "sorted (map (depth_key nodes) out)"
    and closed_up: "\<And>w n p. w \<in> set out \<Longrightarrow> nodes w = Some n \<Longrightarrow> n_parent n = Some p \<Longrightarrow>
      p = root \<or> p \<in> set out"
    and i: "i < length out" "nodes (out ! i) = Some n" "n_parent n = Some p"
    and ne: "out ! i \<noteq> root"
  shows "p = root \<or> p \<in> set (take i out)"
proof (cases "p = root")
  case False
  from closed_up i have "p \<in> set out" using False nth_mem by blast
  then obtain j where j: "j < length out" "out ! j = p" by (metis in_set_conv_nth)
  from tree [OF i(2) ne] i(3) obtain pn where "nodes p = Some pn" "n_depth n = Suc (n_depth pn)"
    unfolding hangs_def by auto
  with i(2) have "depth_key nodes p < depth_key nodes (out ! i)" by (simp add: depth_key_def)
  with j have "\<not> i \<le> j"
    using sorted_nth_mono [OF out(2), of i j] by auto
  with j i(1) have "p \<in> set (take i out)" by (auto simp: in_set_conv_nth intro!: exI [of _ j])
  then show ?thesis by simp
qed simp

end

subsection \<open>The graph the catalog describes\<close>

text \<open>
  Every edge of the graph has its mirror image, with the relationship inverted and the same join
  predicate; a pair of models has at most one edge; an edge multiplies rows exactly when it is
  one-to-many.
\<close>

definition mirror :: "string \<Rightarrow> Edge \<Rightarrow> Edge" where
  "mirror u e = \<lparr>e_target = u, e_kind = invert_kind (e_kind e), e_on = e_on e,
     e_fans_out = (invert_kind (e_kind e) = OneToMany)\<rparr>"

definition adj_inv :: "adj \<Rightarrow> bool" where
  "adj_inv adj \<longleftrightarrow>
     (\<forall>u e. edge_of adj u e \<longrightarrow> (e_fans_out e \<longleftrightarrow> e_kind e = OneToMany)) \<and>
     (\<forall>u e e'. edge_of adj u e \<longrightarrow> edge_of adj u e' \<longrightarrow> e_target e = e_target e' \<longrightarrow> e = e') \<and>
     (\<forall>u e. edge_of adj u e \<longrightarrow> e_target e \<noteq> u \<longrightarrow> edge_of adj (e_target e) (mirror u e))"

lemma invert_kind_invol [simp]: "invert_kind (invert_kind k) = k"
  by (cases k) simp_all

lemma mirror_mirror:
  "(e_fans_out e \<longleftrightarrow> e_kind e = OneToMany) \<Longrightarrow> mirror (e_target e) (mirror u e) = e"
  by (cases e) (simp add: mirror_def)

definition linked :: "adj \<Rightarrow> string \<Rightarrow> string \<Rightarrow> bool" where
  "linked adj u v \<longleftrightarrow> (\<exists>e. edge_of adj u e \<and> e_target e = v)"

lemma push_edge_known: "linked adj from (e_target edge) \<Longrightarrow> push_edge from edge adj = adj"
  by (auto simp: linked_def edge_of_def push_edge_def list_ex_iff)

lemma edge_of_push_new:
  "\<not> linked adj from (e_target edge) \<Longrightarrow>
     edge_of (push_edge from edge adj) u e \<longleftrightarrow> edge_of adj u e \<or> u = from \<and> e = edge"
  by (cases "hm_get adj from") (auto simp: linked_def edge_of_def push_edge_def list_ex_iff)

lemma adj_inv_linked_sym: "adj_inv adj \<Longrightarrow> linked adj u v \<longleftrightarrow> linked adj v u"
  unfolding adj_inv_def linked_def by (metis Edge.select_convs(1) mirror_def)

definition pair_edge :: "SemanticModel \<Rightarrow> Relationship \<Rightarrow> Edge" where
  "pair_edge model rel =
     \<lparr>e_target = r_target_model rel, e_kind = r_kind rel,
      e_on = replace_sub ''this.'' (m_name model @ ''.'') (r_join_predicate rel),
      e_fans_out = (r_kind rel = OneToMany)\<rparr>"

lemma add_relationship_pair:
  "add_relationship cat model rel adj =
     (if get_model cat (r_target_model rel) = None then adj
      else push_edge (r_target_model rel) (mirror (m_name model) (pair_edge model rel))
             (push_edge (m_name model) (pair_edge model rel) adj))"
  by (simp add: add_relationship_def Let_def pair_edge_def mirror_def)

text \<open>Either both edges of a relationship are new or neither is.\<close>

lemma add_relationship_known:
  assumes "adj_inv adj"
    "get_model cat (r_target_model rel) = None \<or> linked adj (m_name model) (r_target_model rel)"
  shows "add_relationship cat model rel adj = adj"
  using assms adj_inv_linked_sym [OF assms(1)]
  by (auto simp: add_relationship_pair push_edge_known pair_edge_def mirror_def)

lemma edge_of_add_relationship:
  assumes "adj_inv adj" "get_model cat (r_target_model rel) \<noteq> None"
    and new: "\<not> linked adj (m_name model) (r_target_model rel)"
  shows "edge_of (add_relationship cat model rel adj) u e \<longleftrightarrow>
    edge_of adj u e \<or> u = m_name model \<and> e = pair_edge model rel \<or>
    u = r_target_model rel \<and> u \<noteq> m_name model \<and> e = mirror (m_name model) (pair_edge model rel)"
proof -
  let ?e = "pair_edge model rel" and ?m = "m_name model" and ?t = "r_target_model rel"
  let ?adj = "push_edge ?m ?e adj"
  have t: "e_target ?e = ?t" "e_target (mirror ?m ?e) = ?m" by (simp_all add: pair_edge_def mirror_def)
  have step1: "edge_of ?adj u e \<longleftrightarrow> edge_of adj u e \<or> u = ?m \<and> e = ?e" for u e
    using new edge_of_push_new [of adj ?m ?e] by (simp add: t)
  show ?thesis
  proof (cases "?t = ?m")
    case True
    have "linked ?adj ?t (e_target (mirror ?m ?e))"
      unfolding linked_def step1 t using True t by auto
    with assms(2) True show ?thesis
      by (auto simp: add_relationship_pair push_edge_known step1)
  next
    case False
    then have "\<not> linked ?adj ?t (e_target (mirror ?m ?e))"
      using new adj_inv_linked_sym [OF assms(1)] by (auto simp: linked_def step1 t)
    with assms(2) False show ?thesis
      by (auto simp: add_relationship_pair edge_of_push_new step1)
  qed
qed

lemma adj_inv_add:
  assumes "adj_inv adj"
  shows "adj_inv (add_relationship cat model rel adj)"
proof (cases "get_model cat (r_target_model rel) = None \<or> linked adj (m_name model) (r_target_model rel)")
  case True
  with assms show ?thesis by (simp add: add_relationship_known)
next
  case False
  then have new: "get_model cat (r_target_model rel) \<noteq> None"
    "\<not> linked adj (m_name model) (r_target_model rel)" by simp_all
  have new': "\<not> linked adj (r_target_model rel) (m_name model)"
    using new(2) adj_inv_linked_sym [OF assms] by simp
  let ?e = "pair_edge model rel" and ?m = "m_name model"
  have t: "e_target ?e = r_target_model rel" "e_target (mirror ?m ?e) = ?m"
    "e_fans_out ?e \<longleftrightarrow> e_kind ?e = OneToMany"
    "e_fans_out (mirror ?m ?e) \<longleftrightarrow> e_kind (mirror ?m ?e) = OneToMany"
    by (simp_all add: pair_edge_def mirror_def)
  have mm: "mirror (r_target_model rel) (mirror ?m ?e) = ?e"
    using mirror_mirror [OF t(3), of ?m] by (simp add: t)
  note E = edge_of_add_relationship [OF assms new]
  note A = assms [unfolded adj_inv_def]
  show ?thesis
    unfolding adj_inv_def
  proof (intro conjI allI impI)
    fix u e assume "edge_of (add_relationship cat model rel adj) u e"
    then show "e_fans_out e \<longleftrightarrow> e_kind e = OneToMany"
      unfolding E using A t(3,4) by blast
  next
    fix u e e' assume "edge_of (add_relationship cat model rel adj) u e"
      "edge_of (add_relationship cat model rel adj) u e'" "e_target e = e_target e'"
    then show "e = e'"
      unfolding E using A new(2) new' t(1,2) unfolding linked_def by metis
  next
    fix u e assume "edge_of (add_relationship cat model rel adj) u e" "e_target e \<noteq> u"
    then show "edge_of (add_relationship cat model rel adj) (e_target e) (mirror u e)"
      unfolding E using A t(1,2) mm by auto
  qed
qed

lemma linked_add_relationship:
  assumes "adj_inv adj"
  shows "linked (add_relationship cat model rel adj) u v \<longleftrightarrow>
    linked adj u v \<or> get_model cat (r_target_model rel) \<noteq> None \<and>
      (u = m_name model \<and> v = r_target_model rel \<or> v = m_name model \<and> u = r_target_model rel)"
proof (cases "get_model cat (r_target_model rel) = None \<or> linked adj (m_name model) (r_target_model rel)")
  case True
  with adj_inv_linked_sym [OF assms, of "m_name model" "r_target_model rel"] show ?thesis
    unfolding add_relationship_known [OF assms True] by auto
next
  case False
  then have E: "edge_of (add_relationship cat model rel adj) u e \<longleftrightarrow>
    edge_of adj u e \<or> u = m_name model \<and> e = pair_edge model rel \<or>
    u = r_target_model rel \<and> u \<noteq> m_name model \<and> e = mirror (m_name model) (pair_edge model rel)"
    for u e using edge_of_add_relationship [OF assms, of cat rel model u e] by simp
  have t: "e_target (pair_edge model rel) = r_target_model rel"
    "e_target (mirror (m_name model) (pair_edge model rel)) = m_name model"
    by (simp_all add: pair_edge_def mirror_def)
  from False show ?thesis unfolding linked_def E
    by (cases "u = m_name model"; cases "u = r_target_model rel") (auto simp: t)
qed

lemma fold_add_relationship:
  assumes "adj_inv adj"
  shows "adj_inv (fold (add_relationship cat model) rels adj) \<and>
    (linked (fold (add_relationship cat model) rels adj) u v \<longleftrightarrow> linked adj u v \<or>
      (\<exists>rel\<in>set rels. get_model cat (r_target_model rel) \<noteq> None \<and>
        (u = m_name model \<and> v = r_target_model rel \<or> v = m_name model \<and> u = r_target_model rel)))"
  using assms
proof (induction rels arbitrary: adj)
  case (Cons rel rels)
  from Cons.IH [OF adj_inv_add [OF Cons.prems]] linked_add_relationship [OF Cons.prems]
  show ?case by auto
qed simp

text \<open>A relationship is declared from \<open>u\<close> to \<open>v\<close>, both of them models of the catalog.\<close>

definition declares :: "SemanticCatalog \<Rightarrow> string \<Rightarrow> string \<Rightarrow> bool" where
  "declares cat u v \<longleftrightarrow> get_model cat v \<noteq> None \<and>
     (case get_model cat u of None \<Rightarrow> False
      | Some model \<Rightarrow> v \<in> set (map r_target_model (m_relationships model)))"

lemma declares_iff:
  "declares cat u v \<longleftrightarrow> get_model cat v \<noteq> None \<and>
     (\<exists>model. get_model cat u = Some model \<and> v \<in> r_target_model ` set (m_relationships model))"
  by (auto simp: declares_def split: option.splits)

lemma fold_adjacency:
  assumes "catalog_wf cat" "adj_inv adj"
  defines "step \<equiv> \<lambda>name adj. case get_model cat name of None \<Rightarrow> adj
    | Some model \<Rightarrow> fold (add_relationship cat model) (m_relationships model) adj"
  shows "adj_inv (fold step names adj) \<and>
    (linked (fold step names adj) u v \<longleftrightarrow> linked adj u v \<or>
      u \<in> set names \<and> declares cat u v \<or> v \<in> set names \<and> declares cat v u)"
  using assms(2)
proof (induction names arbitrary: adj)
  case (Cons name names)
  have "adj_inv (step name adj) \<and> (linked (step name adj) u v \<longleftrightarrow> linked adj u v \<or>
      u = name \<and> declares cat u v \<or> v = name \<and> declares cat v u)"
  proof (cases "get_model cat name")
    case None
    with Cons.prems show ?thesis by (auto simp: step_def declares_iff)
  next
    case (Some model)
    with wf_get_model [OF assms(1) Some] fold_add_relationship [OF Cons.prems, of cat model]
    show ?thesis by (auto simp: step_def declares_iff)
  qed
  with Cons.IH [of "step name adj"] show ?case by auto
qed simp

lemma adj_inv_Nil [simp]: "adj_inv []"
  by (simp add: adj_inv_def edge_of_def)

lemma adjacency_inv: "catalog_wf cat \<Longrightarrow> adj_inv (adjacency cat)"
  using fold_adjacency [of cat "[]"] by (simp add: adjacency_def)

lemma declares_key: "declares cat u v \<Longrightarrow> u \<in> fst ` set (c_models cat)"
  by (auto simp: declares_iff get_model_def dest!: map_of_SomeD intro: rev_image_eqI)

lemma adjacency_linked:
  "catalog_wf cat \<Longrightarrow> linked (adjacency cat) u v \<longleftrightarrow> declares cat u v \<or> declares cat v u"
  using fold_adjacency [of cat "[]" "sort (map fst (c_models cat))" u v] declares_key
  by (auto simp: adjacency_def linked_def edge_of_def)

subsection \<open>The search on the catalog's graph\<close>

lemma reachability_Some:
  obtains nodes where "reachability cat root = Some nodes"
    "bfs_inv (adjacency cat) root (seen_edges (adjacency cat) (dom nodes)) nodes []"
proof -
  have "seen_edges adj (dom [root \<mapsto> node_root] - set [root]) = {}" for adj
    by (simp add: seen_edges_def)
  with bfs_inv_init have
    "bfs_inv adj root (seen_edges adj (dom [root \<mapsto> node_root] - set [root]))
       [root \<mapsto> node_root] [root]" for adj by simp
  from bfs_correct [OF this] that show ?thesis unfolding reachability_def by blast
qed

abbreviation reach_nodes :: "SemanticCatalog \<Rightarrow> string \<Rightarrow> nodes" where
  "reach_nodes cat root \<equiv> the (reachability cat root)"

lemma reachability_the: "reachability cat root = Some (reach_nodes cat root)"
  by (rule reachability_Some [of cat root]) simp

interpretation reach: join_tree "adjacency cat" root "reach_nodes cat root" for cat root
proof
  obtain nodes where nodes: "reach_nodes cat root = nodes"
    "bfs_inv (adjacency cat) root (seen_edges (adjacency cat) (dom nodes)) nodes []"
    by (rule reachability_Some [of cat root]) simp
  note I = bfs_invD [OF nodes(2)]
  show "reach_nodes cat root root = Some node_root" unfolding nodes by (rule I(1))
  show "hangs (adjacency cat) (reach_nodes cat root) v n"
    if "reach_nodes cat root v = Some n" "v \<noteq> root" for v n
    using that unfolding nodes by (rule I(2))
  show "\<exists>vn. reach_nodes cat root (e_target e) = Some vn \<and> n_depth vn \<le> Suc (n_depth un)"
    if "reach_nodes cat root u = Some un" "edge_of (adjacency cat) u e" for u un e
    using that I(3) [of u "e_target e"] unfolding nodes seen_edges_def by fastforce
  show "n_ambiguous n \<longleftrightarrow> (\<exists>p pn e. reach_nodes cat root p = Some pn \<and>
      edge_of (adjacency cat) p e \<and> e_target e = v \<and> Suc (n_depth pn) = n_depth n \<and>
      n_parent n \<noteq> Some p)" if "reach_nodes cat root v = Some n" for v n
    using that unfolding nodes I(4) [OF that [unfolded nodes]] seen_edges_def by blast
qed

text \<open>Where the edges say themselves whether they multiply rows, so do the paths.\<close>

locale fan_tree = join_tree +
  assumes edge_fans: "edge_of adj u e \<Longrightarrow> e_fans_out e \<longleftrightarrow> e_kind e = OneToMany"
begin

lemma fans_out_iff:
  "chain nodes root v ws \<Longrightarrow> nodes v = Some n \<Longrightarrow>
     n_fans_out n \<longleftrightarrow> (\<exists>w\<in>set ws. \<exists>wn. nodes w = Some wn \<and> n_kind wn = Some OneToMany)"
proof (induction arbitrary: n rule: chain.induct)
  case chain_root
  then show ?case using root_node by (auto simp: node_root_def)
next
  case (chain_up v vn p ws)
  from tree [OF chain_up.hyps(2,1)] chain_up.hyps(3) obtain pn e where
    "nodes p = Some pn" "edge_of adj p e" "n_kind vn = Some (e_kind e)"
    "n_fans_out vn = (n_fans_out pn \<or> e_fans_out e)"
    unfolding hangs_def by auto
  moreover from this chain_up.IH have
    "n_fans_out pn \<longleftrightarrow> (\<exists>w\<in>set ws. \<exists>wn. nodes w = Some wn \<and> n_kind wn = Some OneToMany)" by blast
  ultimately show ?case using edge_fans chain_up.hyps(2) chain_up.prems by auto
qed

lemma no_fan_needed:
  assumes "\<forall>m\<in>set ms. m = root \<or> (\<exists>n. nodes m = Some n \<and> \<not> n_fans_out n)"
    and "needed_for nodes root ms w"
  shows "\<exists>n. nodes w = Some n \<and> n_kind n \<noteq> Some OneToMany"
proof -
  from assms(2) obtain m ws where m: "m \<in> set ms" "chain nodes root m ws" "w \<in> set ws"
    unfolding needed_for_def by blast
  then have "m \<noteq> root" by (auto elim: chain.cases)
  with assms(1) m(1) obtain n where "nodes m = Some n" "\<not> n_fans_out n" by blast
  with fans_out_iff [OF m(2)] chain_members [OF m(2,3)] m(3) show ?thesis by blast
qed

end

lemma fan_tree_reach: "catalog_wf cat \<Longrightarrow> fan_tree (adjacency cat) root (reach_nodes cat root)"
proof (unfold_locales)
  show "e_fans_out e \<longleftrightarrow> e_kind e = OneToMany"
    if "catalog_wf cat" "edge_of (adjacency cat) u e" for u e
    using adjacency_inv [OF that(1)] that(2) unfolding adj_inv_def by blast
qed

interpretation new_reach: fan_tree "adjacency (new_with_metrics models metrics)" root
  "reach_nodes (new_with_metrics models metrics) root" for models metrics root
  by (rule fan_tree_reach) (rule new_with_metrics_wf)

subsection \<open>Properties\<close>

text \<open>
  C24. The search for join paths terminates without a panic, reaches exactly the models that a walk
  over declared relationships can reach, and the depth it records is the length of a shortest
  walk.
\<close>

theorem reachability_shortest:
  "\<exists>nodes. reachability cat root = Some nodes \<and>
     (\<forall>v. map_option n_depth (nodes v) =
        (if \<exists>k. walk (adjacency cat) root k v
         then Some (LEAST k. walk (adjacency cat) root k v) else None))"
proof (rule exI [of _ "reach_nodes cat root"], intro conjI allI)
  show "reachability cat root = Some (reach_nodes cat root)" by (rule reachability_the)
  fix v
  show "map_option n_depth (reach_nodes cat root v) =
        (if \<exists>k. walk (adjacency cat) root k v
         then Some (LEAST k. walk (adjacency cat) root k v) else None)"
    using reach.reached_iff [of cat root v] reach.depth_least [of cat root v]
    by (cases "reach_nodes cat root v") simp_all
qed

text \<open>
  A model has two shortest join paths when two different models one step nearer to the root are
  both linked to it.
\<close>

definition two_paths :: "adj \<Rightarrow> string \<Rightarrow> string \<Rightarrow> bool" where
  "two_paths adj root v \<longleftrightarrow>
     (\<exists>p q k. p \<noteq> q \<and> walk adj root k p \<and> walk adj root k q \<and> linked adj p v \<and> linked adj q v \<and>
        (\<forall>j. walk adj root j v \<longrightarrow> Suc k \<le> j))"

context join_tree
begin

lemma pred_depth:
  assumes "nodes v = Some n" "walk adj root k p" "linked adj p v"
    "\<forall>j. walk adj root j v \<longrightarrow> Suc k \<le> j"
  shows "\<exists>pn e. nodes p = Some pn \<and> edge_of adj p e \<and> e_target e = v \<and>
    Suc (n_depth pn) = n_depth n \<and> n_depth pn = k"
proof -
  from walk_bound [OF assms(2)] obtain pn where pn: "nodes p = Some pn" "n_depth pn \<le> k" by blast
  from assms(3) obtain e where e: "edge_of adj p e" "e_target e = v" unfolding linked_def by blast
  from closed [OF pn(1) e(1)] e(2) assms(1) have "n_depth n \<le> Suc (n_depth pn)" by simp
  moreover from assms(4) depth_walk [OF assms(1)] have "Suc k \<le> n_depth n" by blast
  ultimately show ?thesis using pn e by auto
qed

lemma ambiguous_two_paths:
  assumes n: "nodes v = Some n"
  shows "n_ambiguous n \<longleftrightarrow> two_paths adj root v"
proof
  assume "n_ambiguous n"
  with ambiguous_iff [OF n] obtain q qn e where q: "nodes q = Some qn" "edge_of adj q e"
    "e_target e = v" "Suc (n_depth qn) = n_depth n" "n_parent n \<noteq> Some q" by blast
  have "v \<noteq> root" using q(4) n root_node by (auto simp: node_root_def)
  from tree [OF n this] obtain p pn e' where p: "n_parent n = Some p" "nodes p = Some pn"
    "edge_of adj p e'" "e_target e' = v" "n_depth n = Suc (n_depth pn)" unfolding hangs_def by blast
  have "Suc (n_depth pn) \<le> j" if "walk adj root j v" for j
    using walk_bound [OF that] n p(5) by simp
  moreover have "p \<noteq> q" "n_depth qn = n_depth pn" using p q by auto
  ultimately show "two_paths adj root v"
    unfolding two_paths_def linked_def
    using p(2,3,4) q(1,2,3) depth_walk [OF p(2)] depth_walk [OF q(1)]
    by (intro exI [of _ p] exI [of _ q] exI [of _ "n_depth pn"]) auto
next
  assume "two_paths adj root v"
  then obtain p q k where pq: "p \<noteq> q" "walk adj root k p" "walk adj root k q" "linked adj p v"
    "linked adj q v" "\<forall>j. walk adj root j v \<longrightarrow> Suc k \<le> j" unfolding two_paths_def by blast
  from pred_depth [OF n pq(2,4,6)] pred_depth [OF n pq(3,5,6)] pq(1) show "n_ambiguous n"
    unfolding ambiguous_iff [OF n] by (cases "n_parent n = Some p") auto
qed

end

text \<open>
  A reached model is flagged ambiguous exactly when two different models one step nearer to the
  root both lead to it, that is when there is a second join path of the same shortest length.
\<close>

lemma reachability_ambiguous:
  "\<exists>nodes. reachability cat root = Some nodes \<and>
     (\<forall>v. map_option n_ambiguous (nodes v) =
        (if \<exists>k. walk (adjacency cat) root k v
         then Some (two_paths (adjacency cat) root v) else None))"
proof (rule exI [of _ "reach_nodes cat root"], intro conjI allI)
  show "reachability cat root = Some (reach_nodes cat root)" by (rule reachability_the)
  fix v
  show "map_option n_ambiguous (reach_nodes cat root v) =
        (if \<exists>k. walk (adjacency cat) root k v
         then Some (two_paths (adjacency cat) root v) else None)"
    using reach.reached_iff [of cat root v] reach.ambiguous_two_paths [of cat root v]
    by (cases "reach_nodes cat root v") simp_all
qed

lemma shop_wf: "catalog_wf shop"
  unfolding shop_def by (rule new_with_metrics_wf)

lemma shop_items_node:
  "map_option (\<lambda>n. (n_depth n, n_fans_out n)) (reach_nodes shop ''orders'' ''items'') = Some (1, True)"
  by code_simp

text \<open>
  A reached model carries the fan-out flag exactly when the join path recorded for it (the chain
  of parents up to the root, as long as its depth) crosses a one-to-many edge.
\<close>

lemma reachability_fans_out:
  assumes "catalog_wf cat" "reachability cat root = Some nodes" "nodes v = Some n"
  shows "\<exists>ws. chain nodes root v ws \<and> length ws = n_depth n \<and>
    (n_fans_out n \<longleftrightarrow> (\<exists>w\<in>set ws. \<exists>wn. nodes w = Some wn \<and> n_kind wn = Some OneToMany))"
proof -
  have eq: "nodes = reach_nodes cat root" using assms(2) by simp
  from assms(3) obtain ws where ws: "chain nodes root v ws" "length ws = n_depth n"
    using reach.chain_ex unfolding eq by blast
  from fan_tree.fans_out_iff [OF fan_tree_reach [OF assms(1), of root], folded eq, OF ws(1) assms(3)]
  show ?thesis using ws by blast
qed

text \<open>
  For reachable references, collecting the models to join terminates without an error; the
  result lists, without repetition, exactly the models on the recorded join paths, and the model
  through which each one is joined comes before it, whatever the iteration order of the hash set.
\<close>

lemma needed_models_parents_first:
  assumes "reachability cat root = Some nodes" "\<forall>m\<in>set ms. nodes m \<noteq> None"
    and "\<And>xs. mset (hash_iter xs) = mset xs"
  shows "\<exists>out. needed_models hash_iter nodes ms root = Inr out \<and> distinct out \<and>
    (\<forall>w. w \<in> set out \<longleftrightarrow> needed_for nodes root ms w) \<and>
    (\<forall>i<length out. \<exists>n p. nodes (out ! i) = Some n \<and> n_parent n = Some p \<and>
       (p = root \<or> p \<in> set (take i out)))"
proof -
  have eq: "nodes = reach_nodes cat root" using assms(1) by simp
  from reach.needed_models_ok [of ms cat root hash_iter, folded eq, OF assms(2,3)] obtain out where
    out: "needed_models hash_iter nodes ms root = Inr out" "distinct out"
      "\<forall>w. w \<in> set out \<longleftrightarrow> needed_for nodes root ms w" "sorted (map (depth_key nodes) out)" by blast
  have up: "w \<noteq> root \<and> (\<exists>n p. nodes w = Some n \<and> n_parent n = Some p \<and> (p = root \<or> p \<in> set out))"
    if w: "w \<in> set out" for w
  proof -
    from w out(3) obtain m ws where "m \<in> set ms" "chain nodes root m ws" "w \<in> set ws"
      by (auto simp: needed_for_def)
    with chain_members [OF this(2,3)] out(3) show ?thesis by (auto simp: needed_for_def)
  qed
  have "\<exists>n p. nodes (out ! i) = Some n \<and> n_parent n = Some p \<and> (p = root \<or> p \<in> set (take i out))"
    if i: "i < length out" for i
  proof -
    from up [of "out ! i"] i obtain n p where n: "out ! i \<noteq> root" "nodes (out ! i) = Some n"
      "n_parent n = Some p" by auto
    have cl: "w \<in> set out \<Longrightarrow> nodes w = Some n \<Longrightarrow> n_parent n = Some p \<Longrightarrow> p = root \<or> p \<in> set out"
      for w n p using up [of w] by auto
    have "p = root \<or> p \<in> set (take i out)"
      by (rule reach.parents_first [of out cat root, folded eq, OF out(2,4) _ i n(2,3,1)]) (rule cl)
    with n show ?thesis by blast
  qed
  with out(1-3) show ?thesis by blast
qed

text \<open>
  The join graph has an edge between two models exactly when one of them declares a relationship
  to the other and both are in the catalog; there is at most one edge per pair and direction, and
  every edge between different models has its mirror image: the inverted kind, the same predicate.
\<close>

lemma adjacency_mirrored:
  assumes "catalog_wf cat"
  shows "(linked (adjacency cat) u v \<longleftrightarrow> declares cat u v \<or> declares cat v u) \<and>
    (edge_of (adjacency cat) u e \<longrightarrow> edge_of (adjacency cat) u e' \<longrightarrow> e_target e = e_target e' \<longrightarrow>
       e = e') \<and>
    (edge_of (adjacency cat) u e \<longrightarrow> e_target e \<noteq> u \<longrightarrow>
       edge_of (adjacency cat) (e_target e) (mirror u e))"
  using adjacency_linked [OF assms] adjacency_inv [OF assms] unfolding adj_inv_def by blast

end
