(* ===== verification/Semantic_Compiler.thy ===== *)
theory Semantic_Compiler
  imports Sql_Text Join_Graph
begin

section \<open>Compiling a query of measures and dimensions\<close>

text \<open>
  \<open>SemanticCatalog::compile_sql\<close> of \<open>pawrly-semantic/src/lib.rs\<close> for queries without metrics, with
  everything it calls: resolution of members, segments, the two forms of compilation (one fact
  model, or one common table expression per fact model), the safety guard rails and the clauses of
  the statement.  Text is built as the source builds it; the clauses are collected in a record
  before they are rendered, so that theorems can speak of them.  \<open>hash_iter\<close> is the iteration order
  of the hash set in \<open>needed_models\<close>.
\<close>

abbreviation nl :: char where
  "nl \<equiv> CHR 0x0A"

subsection \<open>Members\<close>

definition member_model :: "string \<Rightarrow> SemanticError + string" where
  "member_model member =
     (let m = hd (split_on (CHR ''.'') member) in
      if m = [] then Inl (UnknownMember member) else Inr m)"

definition dimension_of_member :: "string \<Rightarrow> string option" where
  "dimension_of_member member =
     (case split_on (CHR ''.'') member of _ # d # _ \<Rightarrow> Some d | _ \<Rightarrow> None)"

definition find_dimension :: "SemanticModel \<Rightarrow> string \<Rightarrow> Dimension option" where
  "find_dimension model name = find (\<lambda>d. d_name d = name) (m_dimensions model)"

definition find_measure :: "SemanticModel \<Rightarrow> string \<Rightarrow> Measure option" where
  "find_measure model name = find (\<lambda>m. ms_name m = name) (m_measures model)"

definition member_is_measure :: "SemanticModel \<Rightarrow> string \<Rightarrow> bool" where
  "member_is_measure model member =
     (let parts = split_on (CHR ''.'') member in
      length parts = 2 \<and> find_measure model (parts ! 1) \<noteq> None)"

definition measure_member_name :: "string \<Rightarrow> string option" where
  "measure_member_name member =
     (let parts = split_on (CHR ''.'') member in
      if length parts = 2 then Some (parts ! 1) else None)"

definition is_bare_ident :: "string \<Rightarrow> bool" where
  "is_bare_ident s =
     (case s of
        [] \<Rightarrow> False
      | c # cs \<Rightarrow> (is_ascii_alphabetic c \<or> c = CHR ''_'') \<and>
                 list_all (\<lambda>c. is_ascii_alphanumeric c \<or> c = CHR ''_'') cs)"

definition qualify :: "string \<Rightarrow> string option \<Rightarrow> string" where
  "qualify expr alias =
     (case alias of
        Some a \<Rightarrow> if is_bare_ident expr then a @ ''.'' @ expr else expr
      | None \<Rightarrow> expr)"

definition agg_sql :: "Measure \<Rightarrow> string option \<Rightarrow> string" where
  "agg_sql m alias =
     (let col = qualify (ms_expr m) alias;
          base = (case ms_agg m of
              Sum \<Rightarrow> ''SUM('' @ col @ '')''
            | Count \<Rightarrow> ''COUNT('' @ col @ '')''
            | CountDistinct \<Rightarrow> ''COUNT(DISTINCT '' @ col @ '')''
            | Avg \<Rightarrow> ''AVG('' @ col @ '')''
            | Min \<Rightarrow> ''MIN('' @ col @ '')''
            | Max \<Rightarrow> ''MAX('' @ col @ '')''
            | Custom sql \<Rightarrow> sql)
      in if ms_filters m = [] then base
         else base @ '' FILTER (WHERE '' @ join '' AND '' (ms_filters m) @ '')'')"

text \<open>The dimension and grain parts of a member \<open>model.dim\<close> or \<open>model.dim.grain\<close>.\<close>

definition dim_parts :: "string \<Rightarrow> SemanticError + string \<times> string option" where
  "dim_parts member =
     (case split_on (CHR ''.'') member of
        [_, dim] \<Rightarrow> Inr (dim, None)
      | [_, dim, grain] \<Rightarrow> Inr (dim, Some grain)
      | _ \<Rightarrow> Inl (UnknownMember member))"

definition resolve_dimension_expr ::
  "SemanticModel \<Rightarrow> string \<Rightarrow> string option \<Rightarrow> string option \<Rightarrow> SemanticError + string" where
  "resolve_dimension_expr model member alias tz =
     rbind (dim_parts member) (\<lambda>(dim_name, grain).
     rbind (ok_or (UnknownMember member) (find_dimension model dim_name)) (\<lambda>dim.
       let base = qualify (d_expr dim) alias in
       case grain of
         None \<Rightarrow> Inr base
       | Some grain_str \<Rightarrow>
           rbind (ok_or (InvalidGrain dim_name grain_str) (grain_parse grain_str)) (\<lambda>grain.
             if d_data_type dim \<noteq> TTime then Inl (InvalidGrain dim_name grain_str)
             else if d_time_grains dim \<noteq> [] \<and> grain \<notin> set (d_time_grains dim)
             then Inl (InvalidGrain dim_name grain_str)
             else
               let trunc_input = (case tz of
                     Some zone \<Rightarrow> base @ '' AT TIME ZONE '' @ lit zone
                   | None \<Rightarrow> base)
               in Inr (''DATE_TRUNC('' @ [CHR 0x27] @ grain_as_str grain @ [CHR 0x27] @ '', '' @
                       trunc_input @ '')''))))"

definition resolve_measure_expr ::
  "SemanticModel \<Rightarrow> string \<Rightarrow> string option \<Rightarrow> SemanticError + string" where
  "resolve_measure_expr model member alias =
     (case split_on (CHR ''.'') member of
        [_, measure_name] \<Rightarrow>
          rbind (ok_or (UnknownMember member) (find_measure model measure_name)) (\<lambda>m.
            Inr (agg_sql m alias))
      | _ \<Rightarrow> Inl (UnknownMember member))"

definition resolve_filter ::
  "SemanticModel \<Rightarrow> SemanticFilter \<Rightarrow> string option \<Rightarrow> string option \<Rightarrow> SemanticError + string" where
  "resolve_filter model f alias tz =
     rbind (resolve_dimension_expr model (f_member f) alias tz) (\<lambda>expr. apply_op expr f False)"

definition resolve_measure_filter ::
  "SemanticModel \<Rightarrow> SemanticFilter \<Rightarrow> string option \<Rightarrow> SemanticError + string" where
  "resolve_measure_filter model f alias =
     rbind (resolve_measure_expr model (f_member f) alias) (\<lambda>expr. apply_op expr f True)"

subsection \<open>Lookups in the catalog\<close>

text \<open>The segments of the query are expanded in order; the first unknown one is the error.\<close>

definition segment_filters :: "SemanticCatalog \<Rightarrow> string \<Rightarrow> SemanticError + SemanticFilter list" where
  "segment_filters cat seg_ref =
     rbind (ok_or (UnknownSegment seg_ref) (split_once (CHR ''.'') seg_ref)) (\<lambda>(model_name, sname).
     rbind (ok_or (UnknownModel model_name) (get_model cat model_name)) (\<lambda>model.
     rbind (ok_or (UnknownSegment seg_ref) (find (\<lambda>s. seg_name s = sname) (m_segments model)))
       (\<lambda>seg. Inr (seg_filters seg))))"

definition expand_segments :: "SemanticCatalog \<Rightarrow> SemanticQuery \<Rightarrow> SemanticError + SemanticQuery" where
  "expand_segments cat q =
     (if q_segments q = [] then Inr q
      else rbind (rmap (segment_filters cat) (q_segments q)) (\<lambda>fss.
        Inr (q\<lparr>q_filters := q_filters q @ concat fss, q_segments := []\<rparr>)))"

text \<open>Distinct models owning a list of members, in first-appearance order.\<close>

fun models_of :: "SemanticCatalog \<Rightarrow> string list \<Rightarrow> string list \<Rightarrow> SemanticError + string list" where
  "models_of cat [] out = Inr out"
| "models_of cat (member # ms) out =
     rbind (member_model member) (\<lambda>name.
       if get_model cat name = None then Inl (UnknownModel name)
       else models_of cat ms (push_new name out))"

definition measure_roots :: "SemanticCatalog \<Rightarrow> SemanticQuery \<Rightarrow> SemanticError + string list" where
  "measure_roots cat q = models_of cat (q_measures q) []"

definition query_members :: "SemanticQuery \<Rightarrow> string list" where
  "query_members q = q_measures q @ q_dimensions q @ map f_member (q_filters q)"

definition referenced_models :: "SemanticCatalog \<Rightarrow> SemanticQuery \<Rightarrow> SemanticError + string list" where
  "referenced_models cat q = models_of cat (query_members q) []"

definition model_for_member :: "SemanticCatalog \<Rightarrow> string \<Rightarrow> SemanticError + SemanticModel" where
  "model_for_member cat member =
     rbind (member_model member) (\<lambda>name. ok_or (UnknownModel name) (get_model cat name))"

definition owned_by :: "string \<Rightarrow> string \<Rightarrow> bool" where
  "owned_by model member \<longleftrightarrow> member_model member = Inr model"

definition first_measure_member :: "SemanticQuery \<Rightarrow> string \<Rightarrow> string" where
  "first_measure_member q root =
     (case find (owned_by root) (q_measures q) of Some m \<Rightarrow> m | None \<Rightarrow> root)"

definition first_member_for_model :: "SemanticQuery \<Rightarrow> string \<Rightarrow> string" where
  "first_member_for_model q model =
     (case find (owned_by model) (query_members q) of Some m \<Rightarrow> m | None \<Rightarrow> model)"

definition resolve_orders :: "SemanticQuery \<Rightarrow> SemanticError + string list" where
  "resolve_orders q =
     rmap (\<lambda>ord. if o_member ord \<in> set (q_dimensions q @ q_measures q) then Inr (resolve_order ord)
              else Inl (UnknownMember (o_member ord))) (q_order_by q)"

definition qualified_table :: "SemanticCatalog \<Rightarrow> string \<Rightarrow> SemanticError + string" where
  "qualified_table cat model_name =
     rbind (ok_or (UnknownModel model_name) (get_model cat model_name)) (\<lambda>model.
     rbind (ok_or (InvalidSource (m_name model) (m_source model)) (TableName_parse (m_source model)))
       (\<lambda>table. Inr (quote_ident (tn_schema table) @ ''.'' @ quote_ident (tn_table table))))"

definition join_clause :: "SemanticCatalog \<Rightarrow> nodes \<Rightarrow> string \<Rightarrow> SemanticError + string" where
  "join_clause cat nodes model =
     rbind (ok_or (RelationshipCycle model) (nodes model)) (\<lambda>node.
       case (n_kind node, n_on node) of
         (Some kind, Some on) \<Rightarrow>
           rbind (qualified_table cat model) (\<lambda>table.
             Inr ([nl] @ join_kind kind @ '' JOIN '' @ table @ '' AS '' @ model @
                  [nl] @ ''  ON '' @ on))
       | _ \<Rightarrow> Inl (RelationshipCycle model))"

definition render_from ::
  "SemanticCatalog \<Rightarrow> string \<Rightarrow> nodes \<Rightarrow> string list \<Rightarrow> bool \<Rightarrow> SemanticError + string" where
  "render_from cat root nodes needed joined =
     rbind (qualified_table cat root) (\<lambda>root_table.
       if \<not> joined then Inr root_table
       else rbind (rmap (join_clause cat nodes) needed) (\<lambda>clauses.
         Inr (root_table @ '' AS '' @ root @ concat clauses)))"

subsection \<open>Guard rails\<close>

definition model_safety :: "SemanticCatalog \<Rightarrow> string \<Rightarrow> SafetyPolicy option" where
  "model_safety cat name = Option.bind (get_model cat name) m_safety"

text \<open>Is there a user filter on the given column of the root model?\<close>

definition filters_column :: "SemanticQuery \<Rightarrow> string \<Rightarrow> string \<Rightarrow> bool" where
  "filters_column q root col \<longleftrightarrow>
     list_ex (\<lambda>f. owned_by root (f_member f) \<and> dimension_of_member (f_member f) = Some col)
       (q_filters q)"

definition enforce_filter_safety ::
  "SemanticCatalog \<Rightarrow> string \<Rightarrow> SemanticQuery \<Rightarrow> SemanticError + unit" where
  "enforce_filter_safety cat root q =
     (case model_safety cat root of
        None \<Rightarrow> Inr ()
      | Some safety \<Rightarrow>
          if require_at_least_one_filter safety \<and> q_filters q = []
          then Inl (Safety (NoFilters root))
          else (case find (\<lambda>col. \<not> filters_column q root col) (require_filters_on safety) of
                  Some col \<Rightarrow> Inl (Safety (MissingRequiredFilter root col))
                | None \<Rightarrow> Inr ()))"

definition max_rows :: "SemanticCatalog \<Rightarrow> string \<Rightarrow> nat option" where
  "max_rows cat root = Option.bind (model_safety cat root) sp_max_rows"

text \<open>The required predicates of a model, with the query's parameters bound.\<close>

definition safety_err :: "SafetyError + 'a \<Rightarrow> SemanticError + 'a" where
  "safety_err r = (case r of Inl e \<Rightarrow> Inl (Safety e) | Inr a \<Rightarrow> Inr a)"

definition model_predicates ::
  "SemanticCatalog \<Rightarrow> SemanticQuery \<Rightarrow> string \<Rightarrow> SemanticError + string list" where
  "model_predicates cat q model_name =
     (case model_safety cat model_name of
        None \<Rightarrow> Inr []
      | Some safety \<Rightarrow>
          rmap (\<lambda>pred. safety_err (bind_params pred (q_params q) model_name))
            (required_predicates safety))"

definition required_wheres ::
  "SemanticCatalog \<Rightarrow> SemanticQuery \<Rightarrow> string list \<Rightarrow> SemanticError + string list" where
  "required_wheres cat q referenced =
     rbind (rmap (model_predicates cat q) referenced) (\<lambda>pss. Inr (concat pss))"

subsection \<open>One fact model\<close>

text \<open>The clauses of a \<open>SELECT\<close> statement, and how the compiler renders them.\<close>

record Clauses =
  cl_select :: "string list"
  cl_from :: string
  cl_where :: "string list"
  cl_group :: "string list"
  cl_having :: "string list"
  cl_order :: "string list"
  cl_limit :: "nat option"

definition opt_clause :: "string \<Rightarrow> string \<Rightarrow> string list \<Rightarrow> string" where
  "opt_clause kw sep items = (if items = [] then [] else [nl] @ kw @ join sep items)"

definition limit_clause :: "nat option \<Rightarrow> string" where
  "limit_clause l = (case l of None \<Rightarrow> [] | Some n \<Rightarrow> [nl] @ ''LIMIT '' @ show_nat n)"

definition render_select :: "Clauses \<Rightarrow> string" where
  "render_select c =
     ''SELECT '' @ join '', '' (cl_select c) @ [nl] @ ''FROM '' @ cl_from c @
     opt_clause ''WHERE '' '' AND '' (cl_where c) @
     opt_clause ''GROUP BY '' '', '' (cl_group c) @
     opt_clause ''HAVING '' '' AND '' (cl_having c) @
     opt_clause ''ORDER BY '' '', '' (cl_order c) @
     limit_clause (cl_limit c)"

text \<open>A referenced model must be connected, unambiguous and, under aggregation, free of fan-out.\<close>

definition check_reachable ::
  "nodes \<Rightarrow> SemanticQuery \<Rightarrow> string \<Rightarrow> bool \<Rightarrow> string \<Rightarrow> SemanticError + unit" where
  "check_reachable nodes q root has_measures model =
     (if model = root then Inr ()
      else case nodes model of
        None \<Rightarrow> Inl (DisconnectedMember (first_member_for_model q model))
      | Some node \<Rightarrow>
          if n_ambiguous node then Inl (AmbiguousJoinPath root model)
          else if has_measures \<and> n_fans_out node
          then Inl (FanOut (first_measure_member q root) model)
          else Inr ())"

definition alias_for :: "bool \<Rightarrow> string \<Rightarrow> string option" where
  "alias_for joined model = (if joined then Some model else None)"

definition select_dim ::
  "SemanticCatalog \<Rightarrow> bool \<Rightarrow> string option \<Rightarrow> string \<Rightarrow> SemanticError + string" where
  "select_dim cat joined tz member =
     rbind (model_for_member cat member) (\<lambda>model.
       resolve_dimension_expr model member (alias_for joined (m_name model)) tz)"

definition select_measure :: "SemanticCatalog \<Rightarrow> bool \<Rightarrow> string \<Rightarrow> SemanticError + string" where
  "select_measure cat joined member =
     rbind (model_for_member cat member) (\<lambda>model.
       resolve_measure_expr model member (alias_for joined (m_name model)))"

definition as_member :: "string \<Rightarrow> string \<Rightarrow> string" where
  "as_member expr member = expr @ '' AS '' @ quote_ident member"

text \<open>A filter, resolved: to a \<open>HAVING\<close> term (\<open>True\<close>) or a \<open>WHERE\<close> term (\<open>False\<close>).\<close>

definition split_filter ::
  "SemanticCatalog \<Rightarrow> bool \<Rightarrow> string option \<Rightarrow> SemanticFilter \<Rightarrow> SemanticError + bool \<times> string" where
  "split_filter cat joined tz f =
     rbind (model_for_member cat (f_member f)) (\<lambda>model.
       let alias = alias_for joined (m_name model) in
       if member_is_measure model (f_member f)
       then rbind (resolve_measure_filter model f alias) (\<lambda>s. Inr (True, s))
       else rbind (resolve_filter model f alias tz) (\<lambda>s. Inr (False, s)))"

definition having_terms :: "(bool \<times> string) list \<Rightarrow> string list" where
  "having_terms ts = map snd (filter fst ts)"

definition where_terms :: "(bool \<times> string) list \<Rightarrow> string list" where
  "where_terms ts = map snd (filter (\<lambda>t. \<not> fst t) ts)"

definition single_clauses ::
  "(string list \<Rightarrow> string list) \<Rightarrow> SemanticCatalog \<Rightarrow> SemanticQuery \<Rightarrow> string \<Rightarrow> bool \<Rightarrow>
   SemanticError + Clauses" where
  "single_clauses hash_iter cat q root has_measures =
     rbind (referenced_models cat q) (\<lambda>referenced.
     rbind (ok_or Panicked (reachability cat root)) (\<lambda>nodes.
     rbind (rmap (check_reachable nodes q root has_measures) referenced) (\<lambda>_.
     let joined = length referenced > 1; tz = q_time_zone q in
     rbind (rmap (select_dim cat joined tz) (q_dimensions q)) (\<lambda>dim_exprs.
     rbind (rmap (select_measure cat joined) (q_measures q)) (\<lambda>measure_exprs.
     rbind (needed_models hash_iter nodes referenced root) (\<lambda>needed.
     rbind (render_from cat root nodes needed joined) (\<lambda>from.
     rbind (enforce_filter_safety cat root q) (\<lambda>_.
     rbind (rmap (split_filter cat joined tz) (q_filters q)) (\<lambda>terms.
     rbind (required_wheres cat q referenced) (\<lambda>required.
     rbind (resolve_orders q) (\<lambda>orders.
       Inr \<lparr>cl_select = map2 as_member dim_exprs (q_dimensions q) @
              map2 as_member measure_exprs (q_measures q),
            cl_from = from,
            cl_where = where_terms terms @ required,
            cl_group = dim_exprs,
            cl_having = having_terms terms,
            cl_order = orders,
            cl_limit = effective_limit (q_limit q) (max_rows cat root)\<rparr>)))))))))))"

definition compile_single ::
  "(string list \<Rightarrow> string list) \<Rightarrow> SemanticCatalog \<Rightarrow> SemanticQuery \<Rightarrow> string \<Rightarrow> bool \<Rightarrow>
   SemanticError + string" where
  "compile_single hash_iter cat q root has_measures =
     rbind (single_clauses hash_iter cat q root has_measures) (\<lambda>c. Inr (render_select c))"

subsection \<open>Several fact models\<close>

text \<open>One member of the query, considered for the common table expression of \<open>root\<close>.\<close>

definition consider_member ::
  "SemanticCatalog \<Rightarrow> nodes \<Rightarrow> SemanticQuery \<Rightarrow> string \<Rightarrow> string \<Rightarrow> string list \<Rightarrow>
   SemanticError + string list" where
  "consider_member cat nodes q root member referenced =
     rbind (member_model member) (\<lambda>m.
       if get_model cat m = None then Inl (UnknownModel m)
       else if m = root then Inr (push_new m referenced)
       else case nodes m of
         None \<Rightarrow> Inl (DisconnectedMember member)
       | Some node \<Rightarrow>
           if n_ambiguous node then Inl (AmbiguousJoinPath root m)
           else if n_fans_out node then Inl (FanOut (first_measure_member q root) m)
           else Inr (push_new m referenced))"

fun consider_all ::
  "SemanticCatalog \<Rightarrow> nodes \<Rightarrow> SemanticQuery \<Rightarrow> string \<Rightarrow> string list \<Rightarrow> string list \<Rightarrow>
   SemanticError + string list" where
  "consider_all cat nodes q root [] referenced = Inr referenced"
| "consider_all cat nodes q root (m # ms) referenced =
     rbind (consider_member cat nodes q root m referenced) (consider_all cat nodes q root ms)"

definition cte_name :: "string \<Rightarrow> string" where
  "cte_name root = quote_ident (''_'' @ root)"

definition cte_clauses ::
  "(string list \<Rightarrow> string list) \<Rightarrow> SemanticCatalog \<Rightarrow> SemanticQuery \<Rightarrow> SemanticFilter list \<Rightarrow> string \<Rightarrow>
   SemanticError + Clauses" where
  "cte_clauses hash_iter cat q dim_filters root =
     rbind (ok_or Panicked (reachability cat root)) (\<lambda>nodes.
     rbind (consider_all cat nodes q root (q_dimensions q @ map f_member dim_filters) [root])
       (\<lambda>referenced.
     rbind (needed_models hash_iter nodes referenced root) (\<lambda>needed.
     rbind (render_from cat root nodes needed True) (\<lambda>from.
     let own = filter (owned_by root) (q_measures q); tz = q_time_zone q in
     rbind (rmap (select_dim cat True tz) (q_dimensions q)) (\<lambda>group_exprs.
     rbind (rmap (select_measure cat True) own) (\<lambda>measure_exprs.
     rbind (rmap (\<lambda>f. rbind (model_for_member cat (f_member f)) (\<lambda>model.
              resolve_filter model f (Some (m_name model)) tz)) dim_filters) (\<lambda>wheres.
     rbind (required_wheres cat q referenced) (\<lambda>required.
       Inr \<lparr>cl_select = map2 as_member group_exprs (q_dimensions q) @ map2 as_member measure_exprs own,
            cl_from = from,
            cl_where = wheres @ required,
            cl_group = group_exprs,
            cl_having = [], cl_order = [], cl_limit = None\<rparr>))))))))"

definition render_cte :: "string \<Rightarrow> Clauses \<Rightarrow> string" where
  "render_cte root c = cte_name root @ '' AS ('' @ [nl] @ render_select c @ [nl] @ '')''"

text \<open>The tightest row cap of the fact models.\<close>

fun combined_cap :: "nat option list \<Rightarrow> nat option \<Rightarrow> nat option" where
  "combined_cap [] cap = cap"
| "combined_cap (None # cs) cap = combined_cap cs cap"
| "combined_cap (Some c # cs) cap =
     combined_cap cs (Some (case cap of None \<Rightarrow> c | Some x \<Rightarrow> min x c))"

definition cte_col :: "string \<Rightarrow> string \<Rightarrow> string" where
  "cte_col root member = cte_name root @ ''.'' @ quote_ident member"

definition coalesce_cols :: "string list \<Rightarrow> string \<Rightarrow> string" where
  "coalesce_cols roots d = ''COALESCE('' @ join '', '' (map (\<lambda>r. cte_col r d) roots) @ '')''"

fun join_ctes :: "string list \<Rightarrow> string list \<Rightarrow> string list \<Rightarrow> string" where
  "join_ctes dims prev [] = []"
| "join_ctes dims prev (root # roots) =
     (if dims = [] then [nl] @ ''CROSS JOIN '' @ cte_name root
      else [nl] @ ''FULL OUTER JOIN '' @ cte_name root @ '' ON '' @
        join '' AND '' (map (\<lambda>d. coalesce_cols prev d @ '' IS NOT DISTINCT FROM '' @ cte_col root d)
          dims)) @
     join_ctes dims (prev @ [root]) roots"

definition is_measure_filter :: "SemanticCatalog \<Rightarrow> SemanticFilter \<Rightarrow> SemanticError + bool" where
  "is_measure_filter cat f =
     rbind (model_for_member cat (f_member f)) (\<lambda>model. Inr (member_is_measure model (f_member f)))"

definition locality_parts ::
  "(string list \<Rightarrow> string list) \<Rightarrow> SemanticCatalog \<Rightarrow> SemanticQuery \<Rightarrow> string list \<Rightarrow>
   SemanticError + (string \<times> Clauses) list \<times> Clauses" where
  "locality_parts hash_iter cat q roots =
     rbind (rmap (is_measure_filter cat) (q_filters q)) (\<lambda>kinds.
     let dim_filters = map snd (filter (\<lambda>p. \<not> fst p) (zip kinds (q_filters q)));
         measure_filters = map snd (filter fst (zip kinds (q_filters q))) in
     rbind (rmap (\<lambda>root. enforce_filter_safety cat root q) roots) (\<lambda>_.
     let cap = combined_cap (map (max_rows cat) roots) None in
     rbind (rmap (cte_clauses hash_iter cat q dim_filters) roots) (\<lambda>ctes.
     rbind (rmap member_model (q_measures q)) (\<lambda>owners.
     rbind (case roots of [] \<Rightarrow> Inl Panicked
            | r # rs \<Rightarrow> Inr (cte_name r @ join_ctes (q_dimensions q) [r] rs)) (\<lambda>from.
     rbind (rmap (\<lambda>f. rbind (member_model (f_member f)) (\<lambda>root.
              apply_op (cte_col root (f_member f)) f True)) measure_filters) (\<lambda>wheres.
     rbind (resolve_orders q) (\<lambda>orders.
       Inr (zip roots ctes,
         \<lparr>cl_select =
            map (\<lambda>d. coalesce_cols roots d @ '' AS '' @ quote_ident d) (q_dimensions q) @
            map2 (\<lambda>root m. cte_col root m @ '' AS '' @ quote_ident m) owners (q_measures q),
          cl_from = from, cl_where = wheres, cl_group = [], cl_having = [], cl_order = orders,
          cl_limit = effective_limit (q_limit q) cap\<rparr>))))))))"

definition compile_aggregate_locality ::
  "(string list \<Rightarrow> string list) \<Rightarrow> SemanticCatalog \<Rightarrow> SemanticQuery \<Rightarrow> string list \<Rightarrow>
   SemanticError + string" where
  "compile_aggregate_locality hash_iter cat q roots =
     rbind (locality_parts hash_iter cat q roots) (\<lambda>(ctes, c).
       Inr (''WITH '' @ join ('','' @ [nl]) (map (\<lambda>(root, b). render_cte root b) ctes) @ [nl] @
            render_select c))"

text \<open>\<open>compile_sql\<close> after the expansion of segments, for a query without metrics.\<close>

definition compile_members ::
  "(string list \<Rightarrow> string list) \<Rightarrow> SemanticCatalog \<Rightarrow> SemanticQuery \<Rightarrow> SemanticError + string" where
  "compile_members hash_iter cat q =
     rbind (measure_roots cat q) (\<lambda>roots.
       if length roots \<ge> 2 then compile_aggregate_locality hash_iter cat q roots
       else
         rbind (case roots of
             r # _ \<Rightarrow> Inr r
           | [] \<Rightarrow> (case q_dimensions q of [] \<Rightarrow> Inl EmptyQuery | d # _ \<Rightarrow> member_model d))
           (\<lambda>root. compile_single hash_iter cat q root (roots \<noteq> [])))"

subsection \<open>What the guards establish\<close>

lemma models_of_sound:
  "models_of cat ms out = Inr res \<Longrightarrow>
     set res = set out \<union> {m. \<exists>member\<in>set ms. member_model member = Inr m} \<and>
     (\<forall>member\<in>set ms. \<exists>m. member_model member = Inr m \<and> get_model cat m \<noteq> None)"
  by (induction cat ms out rule: models_of.induct) (auto simp: res_simps split: if_splits)

lemma models_of_distinct: "models_of cat ms out = Inr res \<Longrightarrow> distinct out \<Longrightarrow> distinct res"
  by (induction cat ms out rule: models_of.induct) (auto simp: res_simps split: if_splits)

lemma check_reachable_ok:
  "check_reachable nodes q root hm m = Inr () \<longleftrightarrow>
     m = root \<or> (\<exists>n. nodes m = Some n \<and> \<not> n_ambiguous n \<and> (hm \<longrightarrow> \<not> n_fans_out n))"
  by (auto simp: check_reachable_def split: option.splits)

lemma rmap_unit_ok:
  fixes f :: "'a \<Rightarrow> 'e + unit"
  shows "(\<exists>us. rmap f xs = Inr us) \<longleftrightarrow> (\<forall>x\<in>set xs. f x = Inr ())"
  by (induction xs) (auto simp: res_simps)

lemma consider_all_sound:
  "consider_all cat nodes q root ms refd = Inr res \<Longrightarrow>
     set res = set refd \<union> {m. \<exists>member\<in>set ms. member_model member = Inr m} \<and>
     (\<forall>member\<in>set ms. \<exists>m. member_model member = Inr m \<and> get_model cat m \<noteq> None \<and>
        (m = root \<or> (\<exists>n. nodes m = Some n \<and> \<not> n_ambiguous n \<and> \<not> n_fans_out n)))"
proof (induction ms arbitrary: refd)
  case (Cons member ms)
  then obtain refd' where c: "consider_member cat nodes q root member refd = Inr refd'"
    and r: "consider_all cat nodes q root ms refd' = Inr res" by (auto simp: res_simps)
  from c have "\<exists>m. member_model member = Inr m \<and> get_model cat m \<noteq> None \<and>
      set refd' = insert m (set refd) \<and>
      (m = root \<or> (\<exists>n. nodes m = Some n \<and> \<not> n_ambiguous n \<and> \<not> n_fans_out n))"
    by (auto simp: consider_member_def res_simps split: if_splits option.splits)
  with Cons.IH [OF r] show ?case by auto
qed simp

lemma consider_all_models:
  assumes "consider_all cat nodes q root ms [root] = Inr res" "m \<in> set res"
  shows "m = root \<or> (\<exists>n. nodes m = Some n \<and> \<not> n_ambiguous n \<and> \<not> n_fans_out n)"
proof (cases "m = root")
  case False
  with assms consider_all_sound [OF assms(1)] obtain member where
    "member \<in> set ms" "member_model member = Inr m" by auto
  with consider_all_sound [OF assms(1)] show ?thesis by fastforce
qed simp

lemma find_violation_ok:
  "(case find (\<lambda>x. \<not> P x) xs of Some c \<Rightarrow> Inl (g c) | None \<Rightarrow> Inr ()) = Inr () \<longleftrightarrow> (\<forall>x\<in>set xs. P x)"
  by (induction xs) auto

lemma enforce_filter_safety_ok:
  "enforce_filter_safety cat root q = Inr () \<longleftrightarrow>
     (\<forall>safety. model_safety cat root = Some safety \<longrightarrow>
        (require_at_least_one_filter safety \<longrightarrow> q_filters q \<noteq> []) \<and>
        (\<forall>col\<in>set (require_filters_on safety). filters_column q root col))"
  by (cases "model_safety cat root") (auto simp: enforce_filter_safety_def find_violation_ok)

lemma required_wheres_sound:
  assumes "required_wheres cat q refd = Inr ws" "m \<in> set refd" "model_safety cat m = Some safety"
    "pred \<in> set (required_predicates safety)"
  shows "\<exists>b. bind_params pred (q_params q) m = Inr b \<and> b \<in> set ws"
proof -
  from assms(1) obtain pss where pss: "rmap (model_predicates cat q) refd = Inr pss" "ws = concat pss"
    by (auto simp: required_wheres_def res_simps)
  from rmap_mem [OF pss(1) assms(2)] obtain ps where
    ps: "ps \<in> set pss" "model_predicates cat q m = Inr ps" by blast
  then have "rmap (\<lambda>pred. safety_err (bind_params pred (q_params q) m)) (required_predicates safety) =
    Inr ps" using assms(3) by (simp add: model_predicates_def)
  from rmap_mem [OF this assms(4)] obtain b where
    "b \<in> set ps" "bind_params pred (q_params q) m = Inr b"
    by (auto simp: safety_err_def split: sum.splits)
  with ps(1) pss(2) show ?thesis by auto
qed

lemma combined_cap_acc: "\<exists>n. combined_cap cs (Some x) = Some n \<and> n \<le> x"
proof (induction cs arbitrary: x)
  case (Cons c cs)
  show ?case
  proof (cases c)
    case (Some c')
    with Cons.IH [of "min x c'"] show ?thesis by auto
  qed (use Cons.IH in simp)
qed simp

lemma combined_cap_le: "Some c \<in> set cs \<Longrightarrow> \<exists>n. combined_cap cs cap = Some n \<and> n \<le> c"
proof (induction cs cap rule: combined_cap.induct)
  case (3 c' cs cap)
  show ?case
  proof (cases "Some c \<in> set cs")
    case False
    with 3(2) have "c' = c" by simp
    with combined_cap_acc [of cs "case cap of None \<Rightarrow> c | Some x \<Rightarrow> min x c"] show ?thesis
      by (auto split: option.splits)
  qed (use 3(1) in simp)
qed auto

lemma effective_limit_cap:
  "\<exists>n. effective_limit l (Some cap) = Some n \<and> n \<le> cap"
  "\<exists>n. effective_limit (Some l') cap' = Some n \<and> n \<le> l'"
  by (cases l; cases cap'; simp add: effective_limit_def)+

lemma single_clauses_inv:
  assumes "single_clauses hash_iter cat q root hm = Inr c"
  obtains refd nodes needed terms required where
    "referenced_models cat q = Inr refd" "reachability cat root = Some nodes"
    "\<forall>m\<in>set refd. check_reachable nodes q root hm m = Inr ()"
    "needed_models hash_iter nodes refd root = Inr needed"
    "render_from cat root nodes needed (length refd > 1) = Inr (cl_from c)"
    "enforce_filter_safety cat root q = Inr ()"
    "rmap (select_dim cat (length refd > 1) (q_time_zone q)) (q_dimensions q) = Inr (cl_group c)"
    "rmap (split_filter cat (length refd > 1) (q_time_zone q)) (q_filters q) = Inr terms"
    "required_wheres cat q refd = Inr required"
    "cl_where c = where_terms terms @ required" "cl_having c = having_terms terms"
    "resolve_orders q = Inr (cl_order c)"
    "cl_limit c = effective_limit (q_limit q) (max_rows cat root)"
    "length (cl_select c) = length (q_dimensions q) + length (q_measures q)"
proof -
  from assms obtain refd nodes us dims msrs needed frm terms required orders where
    r: "referenced_models cat q = Inr refd" "reachability cat root = Some nodes"
    "rmap (check_reachable nodes q root hm) refd = Inr us"
    "needed_models hash_iter nodes refd root = Inr needed"
    "render_from cat root nodes needed (length refd > 1) = Inr frm"
    "enforce_filter_safety cat root q = Inr ()"
    "rmap (select_dim cat (length refd > 1) (q_time_zone q)) (q_dimensions q) = Inr dims"
    "rmap (split_filter cat (length refd > 1) (q_time_zone q)) (q_filters q) = Inr terms"
    "required_wheres cat q refd = Inr required" "resolve_orders q = Inr orders"
    "rmap (select_measure cat (length refd > 1)) (q_measures q) = Inr msrs"
    and c: "c = \<lparr>cl_select = map2 as_member dims (q_dimensions q) @
              map2 as_member msrs (q_measures q), cl_from = frm,
            cl_where = where_terms terms @ required, cl_group = dims,
            cl_having = having_terms terms, cl_order = orders,
            cl_limit = effective_limit (q_limit q) (max_rows cat root)\<rparr>"
    unfolding single_clauses_def Let_def rbind_eq_Inr ok_or_eq by auto
  from r(3) have "\<forall>m\<in>set refd. check_reachable nodes q root hm m = Inr ()"
    using rmap_unit_ok [of "check_reachable nodes q root hm" refd] by auto
  moreover have "cl_group c = dims" "cl_from c = frm" "cl_order c = orders"
    "length (cl_select c) = length (q_dimensions q) + length (q_measures q)"
    "cl_where c = where_terms terms @ required" "cl_having c = having_terms terms"
    "cl_limit c = effective_limit (q_limit q) (max_rows cat root)"
    using rmap_length [OF r(7)] rmap_length [OF r(11)] unfolding c by simp_all
  ultimately show ?thesis using r(1,2,4-10) by (intro that [of refd nodes needed terms required]) simp_all
qed

subsection \<open>Errors that cannot happen\<close>

text \<open>
  The compiler's own consistency errors: a panic, an endless loop, and the error the source returns
  where its search tree would be broken.
\<close>

fun internal :: "SemanticError \<Rightarrow> bool" where
  "internal Panicked = True"
| "internal Diverges = True"
| "internal (RelationshipCycle _) = True"
| "internal _ = False"

definition clean :: "SemanticError + 'a \<Rightarrow> bool" where
  "clean r \<longleftrightarrow> (\<forall>e. r = Inl e \<longrightarrow> \<not> internal e)"

named_theorems clean_intros \<open>results without an internal error\<close>

lemma clean_simps [simp]: "clean (Inr a)" "clean (Inl e) \<longleftrightarrow> \<not> internal e"
  by (simp_all add: clean_def)

lemma clean_rbind [clean_intros]:
  "clean m \<Longrightarrow> (\<And>a. m = Inr a \<Longrightarrow> clean (f a)) \<Longrightarrow> clean (rbind m f)"
  by (cases m) simp_all

lemma clean_ok_or [clean_intros]: "\<not> internal e \<Longrightarrow> clean (ok_or e x)"
  by (cases x) simp_all

lemma clean_rmap [clean_intros]: "(\<And>x. x \<in> set xs \<Longrightarrow> clean (f x)) \<Longrightarrow> clean (rmap f xs)"
  unfolding clean_def using rmap_Inl by metis

lemma clean_leaf [clean_intros]:
  "clean (member_model member)"
  "clean (dim_parts member)"
  "clean (first_value f)"
  "clean (safety_err r)"
  by (auto simp: member_model_def dim_parts_def first_value_def safety_err_def Let_def
      split: list.splits sum.splits)

lemma clean_apply_op [clean_intros]: "clean (apply_op expr f b)"
  by (cases "f_op f") (auto simp: apply_op_def first_value_def Let_def split: list.splits)

lemma clean_resolve_dimension_expr [clean_intros]: "clean (resolve_dimension_expr model member alias tz)"
  unfolding resolve_dimension_expr_def Let_def
  by (auto intro!: clean_intros split: option.splits)

lemma clean_resolve_measure_expr [clean_intros]: "clean (resolve_measure_expr model member alias)"
  unfolding resolve_measure_expr_def by (auto intro!: clean_intros split: list.splits)

lemma clean_lookup [clean_intros]:
  "clean (model_for_member cat member)"
  "clean (qualified_table cat m)"
  "clean (segment_filters cat s)"
  "clean (resolve_orders q)"
  "clean (model_predicates cat q m)"
  "clean (enforce_filter_safety cat root q)"
  unfolding model_for_member_def qualified_table_def segment_filters_def resolve_orders_def
    model_predicates_def enforce_filter_safety_def
  by (auto intro!: clean_intros split: option.splits)

lemma clean_models_of [clean_intros]: "clean (models_of cat ms out)"
  by (induction cat ms out rule: models_of.induct) (auto intro!: clean_intros)

lemma clean_select [clean_intros]:
  "clean (select_dim cat j tz member)"
  "clean (select_measure cat j member)"
  "clean (split_filter cat j tz f)"
  "clean (required_wheres cat q refd)"
  "clean (is_measure_filter cat f)"
  "clean (expand_segments cat q)"
  "clean (resolve_filter model f alias tz)"
  unfolding select_dim_def select_measure_def split_filter_def required_wheres_def Let_def
    is_measure_filter_def expand_segments_def resolve_filter_def resolve_measure_filter_def
  by (auto intro!: clean_intros)

lemma clean_check_reachable [clean_intros]: "clean (check_reachable nodes q root hm m)"
  by (auto simp: check_reachable_def split: option.splits)

lemma clean_consider_all [clean_intros]: "clean (consider_all cat nodes q root ms refd)"
  by (induction ms arbitrary: refd)
    (auto intro!: clean_intros simp: consider_member_def split: option.splits)

context join_tree
begin

lemma needed_node:
  assumes "needed_for nodes root ms w"
  shows "\<exists>n k on. nodes w = Some n \<and> n_kind n = Some k \<and> n_on n = Some on"
proof -
  from assms obtain m ws where "chain nodes root m ws" "w \<in> set ws"
    unfolding needed_for_def by blast
  from chain_members [OF this] obtain n where "nodes w = Some n" "w \<noteq> root" by blast
  with tree [OF this] show ?thesis unfolding hangs_def by blast
qed

lemma needed_models_clean:
  assumes "\<forall>m\<in>set ms. m = root \<or> nodes m \<noteq> None" "\<And>xs. mset (hash_iter xs) = mset xs"
  shows "\<exists>needed. needed_models hash_iter nodes ms root = Inr needed \<and>
    (\<forall>w. w \<in> set needed \<longleftrightarrow> needed_for nodes root ms w)"
  using needed_models_ok [of ms hash_iter] assms root_node by fastforce

lemma render_from_clean:
  assumes "\<forall>w\<in>set needed. needed_for nodes root ms w"
  shows "clean (render_from cat root nodes needed joined)"
proof -
  have "clean (join_clause cat nodes w)" if "w \<in> set needed" for w
  proof -
    from needed_node assms that obtain n k on where
      "nodes w = Some n" "n_kind n = Some k" "n_on n = Some on" by blast
    then show ?thesis unfolding join_clause_def by (auto intro!: clean_intros)
  qed
  then show ?thesis unfolding render_from_def by (auto intro!: clean_intros)
qed

end

lemma reach_steps_clean:
  assumes "\<And>xs. mset (hash_iter xs) = mset xs" "reachability cat root = Some nodes"
    "\<forall>m\<in>set ms. m = root \<or> nodes m \<noteq> None"
  shows "clean (needed_models hash_iter nodes ms root)"
    and "needed_models hash_iter nodes ms root = Inr needed \<Longrightarrow>
      clean (render_from cat root nodes needed joined)"
proof -
  have eq: "nodes = reach_nodes cat root" using assms(2) by simp
  from reach.needed_models_clean [of ms root cat hash_iter, folded eq, OF assms(3,1)] obtain out where
    out: "needed_models hash_iter nodes ms root = Inr out"
    "\<forall>w\<in>set out. needed_for nodes root ms w" by blast
  then show "clean (needed_models hash_iter nodes ms root)" by simp
  from out reach.render_from_clean [of out cat root ms cat joined, folded eq]
  show "needed_models hash_iter nodes ms root = Inr needed \<Longrightarrow>
      clean (render_from cat root nodes needed joined)" by simp
qed

lemma clean_single_clauses:
  assumes iter: "\<And>xs. mset (hash_iter xs) = mset xs"
  shows "clean (single_clauses hash_iter cat q root hm)"
  unfolding single_clauses_def Let_def
proof (intro clean_rbind)
  show "clean (referenced_models cat q)" unfolding referenced_models_def by (rule clean_intros)
  show "clean (ok_or Panicked (reachability cat root))" by (subst reachability_the) simp
  fix refd nodes us
  assume n: "ok_or Panicked (reachability cat root) = Inr nodes"
    "rmap (check_reachable nodes q root hm) refd = Inr us"
  then have nodes: "reachability cat root = Some nodes" by (simp add: res_simps)
  have "\<forall>m\<in>set refd. m = root \<or> nodes m \<noteq> None"
    using n(2) rmap_unit_ok [of "check_reachable nodes q root hm" refd]
    by (auto simp: check_reachable_ok)
  note clean = reach_steps_clean [OF iter nodes this]
  show "clean (needed_models hash_iter nodes refd root)" by (rule clean(1))
  show "needed_models hash_iter nodes refd root = Inr needed \<Longrightarrow>
    clean (render_from cat root nodes needed joined)" for needed joined by (rule clean(2))
qed (auto intro: clean_intros)

lemma clean_cte_clauses:
  assumes iter: "\<And>xs. mset (hash_iter xs) = mset xs"
  shows "clean (cte_clauses hash_iter cat q fs root)"
  unfolding cte_clauses_def Let_def
proof (intro clean_rbind)
  show "clean (ok_or Panicked (reachability cat root))" by (subst reachability_the) simp
  fix nodes refd
  assume n: "ok_or Panicked (reachability cat root) = Inr nodes"
    "consider_all cat nodes q root (q_dimensions q @ map f_member fs) [root] = Inr refd"
  then have nodes: "reachability cat root = Some nodes" by (simp add: res_simps)
  have "\<forall>m\<in>set refd. m = root \<or> nodes m \<noteq> None"
    using consider_all_models [OF n(2)] by auto
  note clean = reach_steps_clean [OF iter nodes this]
  show "clean (needed_models hash_iter nodes refd root)" by (rule clean(1))
  show "needed_models hash_iter nodes refd root = Inr needed \<Longrightarrow>
    clean (render_from cat root nodes needed True)" for needed by (rule clean(2))
qed (auto intro: clean_intros intro!: clean_rmap clean_rbind)

lemma clean_locality_parts:
  assumes "\<And>xs. mset (hash_iter xs) = mset xs" "roots \<noteq> []"
  shows "clean (locality_parts hash_iter cat q roots)"
  using assms(2) clean_cte_clauses [OF assms(1)] unfolding locality_parts_def Let_def
  by (auto intro!: clean_intros split: list.splits)

lemma clean_compile_members:
  assumes iter: "\<And>xs. mset (hash_iter xs) = mset xs"
  shows "clean (compile_members hash_iter cat q)"
proof -
  have "clean (compile_aggregate_locality hash_iter cat q roots)" if "2 \<le> length roots" for roots
  proof -
    from that have "roots \<noteq> []" by auto
    from clean_locality_parts [OF iter this] show ?thesis
      unfolding compile_aggregate_locality_def by (auto intro!: clean_intros)
  qed
  moreover have "clean (compile_single hash_iter cat q root hm)" for root hm
    unfolding compile_single_def by (intro clean_rbind clean_single_clauses iter) simp
  ultimately show ?thesis
    unfolding compile_members_def measure_roots_def
    by (auto intro!: clean_intros split: list.splits)
qed

lemma checked_joins:
  assumes wf: "catalog_wf cat" and iter: "\<And>xs. mset (hash_iter xs) = mset xs"
    and reach: "reachability cat root = Some nodes"
    and needed: "needed_models hash_iter nodes refd root = Inr needed"
    and ok: "\<forall>m\<in>set refd. m = root \<or> (\<exists>n. nodes m = Some n \<and> \<not> n_ambiguous n \<and> \<not> n_fans_out n)"
  shows "\<forall>m\<in>set refd. m = root \<or>
      (\<exists>k. walk (adjacency cat) root k m) \<and> \<not> two_paths (adjacency cat) root m"
    and "\<forall>w\<in>set needed. \<exists>n. nodes w = Some n \<and> n_kind n \<noteq> Some OneToMany"
proof -
  have eq: "nodes = reach_nodes cat root" using reach by simp
  from ok show "\<forall>m\<in>set refd. m = root \<or>
      (\<exists>k. walk (adjacency cat) root k m) \<and> \<not> two_paths (adjacency cat) root m"
    using reach.depth_walk reach.ambiguous_two_paths unfolding eq by blast
  have reached: "\<forall>m\<in>set refd. m = root \<or> nodes m \<noteq> None" using ok by auto
  from reach.needed_models_clean [of refd root cat hash_iter, folded eq, OF this iter] needed
  have "\<forall>w\<in>set needed. needed_for nodes root refd w" by auto
  moreover have "\<forall>m\<in>set refd. m = root \<or> (\<exists>n. nodes m = Some n \<and> \<not> n_fans_out n)"
    using ok by blast
  ultimately show "\<forall>w\<in>set needed. \<exists>n. nodes w = Some n \<and> n_kind n \<noteq> Some OneToMany"
    using fan_tree.no_fan_needed [OF fan_tree_reach [OF wf, of root], folded eq] by blast
qed

subsection \<open>Properties\<close>

definition shop_query :: SemanticQuery where
  "shop_query = \<lparr>q_measures = [''orders.total''], q_dimensions = [''customers.city''],
     q_filters = [\<lparr>f_member = ''orders.status'', f_op = Equals, f_values = [''open'']\<rparr>],
     q_segments = [], q_order_by = [\<lparr>o_member = ''orders.total'', o_direction = Desc\<rparr>],
     q_limit = Some 5000, q_time_zone = None, q_params = [(''org'', ''acme'')]\<rparr>"

lemma shop_query_compiles:
  "compile_single rev shop shop_query ''orders'' True = Inr
     (''SELECT customers.city AS '' @ quote_ident ''customers.city'' @ '', SUM(orders.amount) AS '' @
      quote_ident ''orders.total'' @ [nl] @
      ''FROM '' @ quote_ident ''shop'' @ ''.'' @ quote_ident ''orders'' @ '' AS orders'' @ [nl] @
      ''INNER JOIN '' @ quote_ident ''shop'' @ ''.'' @ quote_ident ''customers'' @ '' AS customers'' @
      [nl] @ ''  ON orders.cid = customers.id'' @ [nl] @
      ''WHERE orders.status = '' @ lit ''open'' @ '' AND org = '' @ lit ''acme'' @ [nl] @
      ''GROUP BY customers.city'' @ [nl] @
      ''ORDER BY '' @ quote_ident ''orders.total'' @ '' DESC'' @ [nl] @ ''LIMIT 1000'')"
  by code_simp





text \<open>
  The guard rails a statement has to honour on behalf of one model: the filters the policy asks for
  are there, and a row cap is a limit.
\<close>

definition rails_hold :: "SemanticCatalog \<Rightarrow> SemanticQuery \<Rightarrow> string \<Rightarrow> nat option \<Rightarrow> bool" where
  "rails_hold cat q root limit \<longleftrightarrow>
     (case model_safety cat root of
        None \<Rightarrow> True
      | Some safety \<Rightarrow>
          (require_at_least_one_filter safety \<longrightarrow> q_filters q \<noteq> []) \<and>
          list_all (filters_column q root) (require_filters_on safety) \<and>
          (case sp_max_rows safety of
             None \<Rightarrow> True
           | Some cap \<Rightarrow> (case limit of None \<Rightarrow> False | Some n \<Rightarrow> n \<le> cap)))"

lemma rails_holdI:
  assumes "enforce_filter_safety cat root q = Inr ()"
    "\<And>cap. max_rows cat root = Some cap \<Longrightarrow> \<exists>n. limit = Some n \<and> n \<le> cap"
  shows "rails_hold cat q root limit"
  using assms(2) enforce_filter_safety_ok [THEN iffD1, OF assms(1)]
  by (auto simp: rails_hold_def max_rows_def list_all_iff split: option.splits)

text \<open>
  A statement of the single-fact form honours the guard rails of its fact model: the required
  filters are present and the limit does not exceed the row cap; it never exceeds the limit of the
  query either, every ordering term names a selected member, and it groups by exactly its
  dimensions.
\<close>

lemma compile_single_guard_rails:
  assumes "compile_single hash_iter cat q root hm = Inr sql"
  shows "\<exists>c. sql = render_select c \<and> rails_hold cat q root (cl_limit c) \<and>
    (\<forall>l. q_limit q = Some l \<longrightarrow> (\<exists>n. cl_limit c = Some n \<and> n \<le> l)) \<and>
    o_member ` set (q_order_by q) \<subseteq> set (q_dimensions q) \<union> set (q_measures q) \<and>
    length (cl_group c) = length (q_dimensions q) \<and>
    length (cl_select c) = length (q_dimensions q) + length (q_measures q)"
proof -
  from assms obtain c where c: "single_clauses hash_iter cat q root hm = Inr c"
    "sql = render_select c" by (auto simp: compile_single_def res_simps)
  from c(1) obtain refd :: "string list" where
    r: "enforce_filter_safety cat root q = Inr ()"
      "rmap (select_dim cat (length refd > 1) (q_time_zone q)) (q_dimensions q) = Inr (cl_group c)"
      "resolve_orders q = Inr (cl_order c)"
      "cl_limit c = effective_limit (q_limit q) (max_rows cat root)"
      "length (cl_select c) = length (q_dimensions q) + length (q_measures q)"
    by (rule single_clauses_inv)
  have "rails_hold cat q root (cl_limit c)"
    using effective_limit_cap(1) [of "q_limit q"] unfolding r(4) by (intro rails_holdI r(1)) auto
  moreover have "\<forall>l. q_limit q = Some l \<longrightarrow> (\<exists>n. cl_limit c = Some n \<and> n \<le> l)"
    unfolding r(4) using effective_limit_cap(2) by metis
  moreover have "o_member ord \<in> set (q_dimensions q @ q_measures q)" if "ord \<in> set (q_order_by q)" for ord
    using rmap_mem [OF r(3) [unfolded resolve_orders_def] that] by (auto split: if_splits)
  ultimately show ?thesis using c(2) rmap_length [OF r(2)] r(5) by auto
qed

lemma cte_clauses_inv:
  assumes "cte_clauses hash_iter cat q fs root = Inr c"
  obtains nodes refd needed wheres required where
    "reachability cat root = Some nodes"
    "consider_all cat nodes q root (q_dimensions q @ map f_member fs) [root] = Inr refd"
    "needed_models hash_iter nodes refd root = Inr needed"
    "render_from cat root nodes needed True = Inr (cl_from c)"
    "required_wheres cat q refd = Inr required" "cl_where c = wheres @ required"
  using assms unfolding cte_clauses_def Let_def rbind_eq_Inr ok_or_eq by auto

text \<open>What one common table expression of the multi-fact form guarantees.\<close>

definition cte_safe ::
  "(string list \<Rightarrow> string list) \<Rightarrow> SemanticCatalog \<Rightarrow> SemanticQuery \<Rightarrow> string \<Rightarrow> Clauses \<Rightarrow> bool" where
  "cte_safe hash_iter cat q root c \<longleftrightarrow>
     (\<exists>nodes refd needed. reachability cat root = Some nodes \<and> root \<in> set refd \<and>
        needed_models hash_iter nodes refd root = Inr needed \<and>
        render_from cat root nodes needed True = Inr (cl_from c) \<and>
        (\<forall>d\<in>set (q_dimensions q). \<exists>m\<in>set refd. member_model d = Inr m) \<and>
        (\<forall>m\<in>set refd. m = root \<or>
           (\<exists>k. walk (adjacency cat) root k m) \<and> \<not> two_paths (adjacency cat) root m) \<and>
        (\<forall>w\<in>set needed. \<exists>n. nodes w = Some n \<and> n_kind n \<noteq> Some OneToMany) \<and>
        (\<forall>m\<in>set refd. \<forall>safety. model_safety cat m = Some safety \<longrightarrow>
           (\<forall>pred\<in>set (required_predicates safety). \<exists>bound.
              bind_params pred (q_params q) m = Inr bound \<and> bound \<in> set (cl_where c))))"

lemma cte_clauses_safe:
  assumes wf: "catalog_wf cat" and iter: "\<And>xs. mset (hash_iter xs) = mset xs"
    and ok: "cte_clauses hash_iter cat q fs root = Inr c"
  shows "cte_safe hash_iter cat q root c"
proof -
  from ok obtain nodes refd needed wheres required where
    r: "reachability cat root = Some nodes"
      "consider_all cat nodes q root (q_dimensions q @ map f_member fs) [root] = Inr refd"
      "needed_models hash_iter nodes refd root = Inr needed"
      "render_from cat root nodes needed True = Inr (cl_from c)"
      "required_wheres cat q refd = Inr required" "cl_where c = wheres @ required"
    by (rule cte_clauses_inv)
  have ok: "\<forall>m\<in>set refd. m = root \<or> (\<exists>n. nodes m = Some n \<and> \<not> n_ambiguous n \<and> \<not> n_fans_out n)"
    using consider_all_models [OF r(2)] by blast
  note joins = checked_joins [OF wf iter r(1,3) ok]
  have dims: "\<forall>d\<in>set (q_dimensions q). \<exists>m\<in>set refd. member_model d = Inr m"
    using consider_all_sound [OF r(2)] by auto
  have "root \<in> set refd" using consider_all_sound [OF r(2)] by auto
  moreover have "\<forall>m\<in>set refd. \<forall>safety. model_safety cat m = Some safety \<longrightarrow>
      (\<forall>pred\<in>set (required_predicates safety). \<exists>bound.
         bind_params pred (q_params q) m = Inr bound \<and> bound \<in> set (cl_where c))"
    using required_wheres_sound [OF r(5)] unfolding r(6) set_append by blast
  ultimately show ?thesis
    unfolding cte_safe_def using r(1,3,4) dims joins by blast
qed

lemma locality_parts_inv:
  assumes "locality_parts hash_iter cat q roots = Inr (ctes, c)"
  obtains fs bodies us where
    "rmap (\<lambda>root. enforce_filter_safety cat root q) roots = Inr us"
    "rmap (cte_clauses hash_iter cat q fs) roots = Inr bodies" "ctes = zip roots bodies"
    "cl_limit c = effective_limit (q_limit q) (combined_cap (map (max_rows cat) roots) None)"
  using assms unfolding locality_parts_def Let_def rbind_eq_Inr by auto

definition shop_multi :: SemanticQuery where
  "shop_multi = shop_query\<lparr>q_measures := [''orders.total'', ''items.qty''], q_dimensions := [''orders.status''],
     q_filters := [\<lparr>f_member = ''items.qty'', f_op = IsNotNull, f_values = []\<rparr>], q_limit := None\<rparr>"

lemma shop_multi_compiles:
  "compile_aggregate_locality rev shop shop_multi [''orders'', ''items''] = Inr
     (''WITH '' @ cte_name ''orders'' @ '' AS ('' @ [nl] @ ''SELECT orders.status AS '' @
      quote_ident ''orders.status'' @ '', SUM(orders.amount) AS '' @ quote_ident ''orders.total'' @ [nl] @
      ''FROM '' @ quote_ident ''shop'' @ ''.'' @ quote_ident ''orders'' @ '' AS orders'' @ [nl] @
      ''GROUP BY orders.status'' @ [nl] @ ''),'' @ [nl] @
      cte_name ''items'' @ '' AS ('' @ [nl] @ ''SELECT orders.status AS '' @ quote_ident ''orders.status'' @
      '', SUM(items.qty) AS '' @ quote_ident ''items.qty'' @ [nl] @
      ''FROM '' @ quote_ident ''shop'' @ ''.'' @ quote_ident ''items'' @ '' AS items'' @ [nl] @
      ''INNER JOIN '' @ quote_ident ''shop'' @ ''.'' @ quote_ident ''orders'' @ '' AS orders'' @ [nl] @
      ''  ON orders.id = items.oid'' @ [nl] @ ''GROUP BY orders.status'' @ [nl] @ '')'' @ [nl] @
      ''SELECT '' @ coalesce_cols [''orders'', ''items''] ''orders.status'' @ '' AS '' @
      quote_ident ''orders.status'' @ '', '' @ cte_col ''orders'' ''orders.total'' @ '' AS '' @
      quote_ident ''orders.total'' @ '', '' @ cte_col ''items'' ''items.qty'' @ '' AS '' @
      quote_ident ''items.qty'' @ [nl] @
      ''FROM '' @ cte_name ''orders'' @ [nl] @ ''FULL OUTER JOIN '' @ cte_name ''items'' @ '' ON '' @
      coalesce_cols [''orders''] ''orders.status'' @ '' IS NOT DISTINCT FROM '' @
      cte_col ''items'' ''orders.status'' @ [nl] @
      ''WHERE '' @ cte_col ''items'' ''items.qty'' @ '' IS NOT NULL'' @ [nl] @
      ''ORDER BY '' @ quote_ident ''orders.total'' @ '' DESC'' @ [nl] @ ''LIMIT 1000'')"
  by code_simp



text \<open>
  Expanding segments fails on the first reference that names no segment of a model in the
  catalog; otherwise it appends the filters of the selected segments, in order, to the filters of the
  query, clears the selection and leaves the rest of the query as it was.
\<close>

lemma expand_segments_appends:
  "expand_segments cat q =
     (case rmap (segment_filters cat) (q_segments q) of
        Inl e \<Rightarrow> Inl e
      | Inr fss \<Rightarrow> Inr (q\<lparr>q_filters := q_filters q @ concat fss, q_segments := []\<rparr>)) \<and>
   (segment_filters cat seg_ref = Inr fs) =
     (\<exists>mname sname model seg. split_once (CHR ''.'') seg_ref = Some (mname, sname) \<and>
        get_model cat mname = Some model \<and> find (\<lambda>s. seg_name s = sname) (m_segments model) = Some seg \<and>
        fs = seg_filters seg)"
proof
  show "expand_segments cat q =
     (case rmap (segment_filters cat) (q_segments q) of
        Inl e \<Rightarrow> Inl e
      | Inr fss \<Rightarrow> Inr (q\<lparr>q_filters := q_filters q @ concat fss, q_segments := []\<rparr>))"
  proof (cases "q_segments q = []")
    case True
    then have "q\<lparr>q_segments := []\<rparr> = q" by (cases q) simp
    with True show ?thesis by (simp add: expand_segments_def)
  qed (simp add: expand_segments_def rbind_def split: sum.split)
qed (auto simp: segment_filters_def res_simps)

subsection \<open>Two gaps\<close>

text \<open>
  A chain of three models in which the middle one carries a required predicate, and a diamond with a
  further model behind its tip.
\<close>

definition bare_model :: "string \<Rightarrow> string list \<Rightarrow> string list \<Rightarrow> SemanticModel" where
  "bare_model name targets preds =
     shop_items\<lparr>m_name := name, m_source := ''s.'' @ name,
       m_relationships := map (\<lambda>t. \<lparr>r_name = t, r_kind = ManyToOne, r_target_model = t,
         r_join_predicate = ''this.'' @ t @ '' = '' @ t @ ''.id''\<rparr>) targets,
       m_safety := Some (permissive\<lparr>required_predicates := preds\<rparr>)\<rparr>"

definition chain_catalog :: SemanticCatalog where
  "chain_catalog = new_with_metrics
     [bare_model ''a'' [''b''] [], bare_model ''b'' [''c''] [''b.tenant = 1''], bare_model ''c'' [] []] []"

definition diamond_catalog :: SemanticCatalog where
  "diamond_catalog = new_with_metrics
     [bare_model ''a'' [''b'', ''c''] [], bare_model ''b'' [''d''] [], bare_model ''c'' [''d''] [],
      bare_model ''d'' [''e''] [], bare_model ''e'' [] []] []"

definition gap_query :: "string \<Rightarrow> SemanticQuery" where
  "gap_query dim = \<lparr>q_measures = [''a.qty''], q_dimensions = [dim], q_filters = [], q_segments = [],
     q_order_by = [], q_limit = None, q_time_zone = None, q_params = []\<rparr>"

text \<open>
  The required predicate of a model that a statement only joins through is not applied: joining
  \<open>a\<close> to \<open>c\<close> through \<open>b\<close> yields a statement without a \<open>WHERE\<close> clause although \<open>b\<close> requires one.
\<close>

lemma intermediate_predicates_skipped:
  "compile_single rev chain_catalog (gap_query ''c.sku'') ''a'' True = Inr
     (''SELECT c.sku AS '' @ quote_ident ''c.sku'' @ '', SUM(a.qty) AS '' @ quote_ident ''a.qty'' @ [nl] @
      ''FROM '' @ quote_ident ''s'' @ ''.'' @ quote_ident ''a'' @ '' AS a'' @ [nl] @
      ''INNER JOIN '' @ quote_ident ''s'' @ ''.'' @ quote_ident ''b'' @ '' AS b'' @ [nl] @
      ''  ON a.b = b.id'' @ [nl] @
      ''INNER JOIN '' @ quote_ident ''s'' @ ''.'' @ quote_ident ''c'' @ '' AS c'' @ [nl] @
      ''  ON b.c = c.id'' @ [nl] @ ''GROUP BY c.sku'') \<and>
   map_option required_predicates (model_safety chain_catalog ''b'') = Some [''b.tenant = 1'']"
  by code_simp

text \<open>
  Ambiguity is detected only at the model where two shortest paths meet: the model behind the
  tip of a diamond compiles although two equally short join paths lead to it, while the tip itself
  is refused.
\<close>

lemma ambiguity_behind_diamond:
  "compile_single rev diamond_catalog (gap_query ''d.sku'') ''a'' True =
     Inl (AmbiguousJoinPath ''a'' ''d'') \<and>
   res_ok (compile_single rev diamond_catalog (gap_query ''e.sku'') ''a'' True) \<noteq> None"
  by code_simp

end
