(* ===== verification/Rollup.thy ===== *)
theory Rollup
  imports Semantic_Compiler Time_Grains Complex_Main "HOL-Library.Multiset"
begin

section \<open>Rollups: coverage, materialisation, rewriting\<close>

text \<open>
  \<open>pawrly-semantic/src/rollup.rs\<close> (which pre-aggregation covers a query) and the parts of \<open>lib.rs\<close>
  that materialise a pre-aggregation and rewrite a query to read it.  The specification side gives
  the aggregates their SQL meaning on columns with NULLs and asks when answering from stored partial
  aggregates gives the answer of the base table.
\<close>

subsection \<open>Coverage\<close>

definition rollup_schema :: string where
  "rollup_schema = ''semantic''"

definition rollup_table_name :: "string \<Rightarrow> string \<Rightarrow> string" where
  "rollup_table_name model preagg = model @ ''__'' @ preagg"

fun is_rollup_safe :: "MeasureAgg \<Rightarrow> bool" where
  "is_rollup_safe Sum = True"
| "is_rollup_safe Count = True"
| "is_rollup_safe Min = True"
| "is_rollup_safe Max = True"
| "is_rollup_safe _ = False"

type_synonym dim_ref = "string \<times> TimeGrain option"

definition parse_bare_dim :: "string \<Rightarrow> dim_ref" where
  "parse_bare_dim s =
     (case split_once (CHR ''.'') s of
        Some (name, grain) \<Rightarrow> (name, grain_parse grain)
      | None \<Rightarrow> (s, None))"

definition parse_query_dim :: "string \<Rightarrow> dim_ref" where
  "parse_query_dim member =
     parse_bare_dim (case split_once (CHR ''.'') member of Some (_, r) \<Rightarrow> r | None \<Rightarrow> member)"

definition measure_name :: "string \<Rightarrow> string" where
  "measure_name member = last (split_on (CHR ''.'') member)"

fun grain_covers :: "TimeGrain option \<Rightarrow> TimeGrain option \<Rightarrow> bool" where
  "grain_covers None None = True"
| "grain_covers (Some _) None = False"
| "grain_covers None (Some _) = True"
| "grain_covers (Some p) (Some qg) = can_roll_up_to p qg"

definition dim_covered :: "dim_ref list \<Rightarrow> dim_ref \<Rightarrow> bool" where
  "dim_covered pre_dims want =
     list_ex (\<lambda>d. fst d = fst want \<and> grain_covers (snd d) (snd want)) pre_dims"

definition covers :: "PreAggregation \<Rightarrow> SemanticQuery \<Rightarrow> bool" where
  "covers pre q =
     (let pre_dims = map parse_bare_dim (pa_dimensions pre) in
      list_all (\<lambda>m. dim_covered pre_dims (parse_query_dim m)) (q_dimensions q) \<and>
      list_all (\<lambda>f. list_ex (\<lambda>d. fst d = fst (parse_query_dim (f_member f))) pre_dims) (q_filters q) \<and>
      list_all (\<lambda>m. measure_name m \<in> set (pa_measures pre)) (q_measures q))"

text \<open>\<open>Iterator::min_by_key\<close>: the first of the minimal elements.\<close>

fun min_by_key :: "('a \<Rightarrow> nat) \<Rightarrow> 'a list \<Rightarrow> 'a option" where
  "min_by_key k [] = None"
| "min_by_key k (x # xs) =
     (case min_by_key k xs of
        None \<Rightarrow> Some x
      | Some y \<Rightarrow> if k x \<le> k y then Some x else Some y)"

definition match_rollup :: "SemanticModel \<Rightarrow> SemanticQuery \<Rightarrow> PreAggregation option" where
  "match_rollup model q =
     min_by_key (\<lambda>pre. length (pa_dimensions pre)) (filter (\<lambda>pre. covers pre q) (m_pre_aggregations model))"

subsection \<open>Materialisation and rewriting\<close>

definition rollup_col :: "string \<Rightarrow> string \<Rightarrow> string" where
  "rollup_col alias col = alias @ ''.'' @ quote_ident col"

definition rollup_dim_expr :: "string \<Rightarrow> string \<Rightarrow> SemanticError + string" where
  "rollup_dim_expr member alias =
     rbind (dim_parts member) (\<lambda>(dim, grain).
       let col = rollup_col alias dim in
       case grain of
         None \<Rightarrow> Inr col
       | Some g \<Rightarrow>
           rbind (ok_or (InvalidGrain dim g) (grain_parse g)) (\<lambda>grain.
             Inr (''DATE_TRUNC('' @ [CHR 0x27] @ grain_as_str grain @ [CHR 0x27] @ '', '' @ col @ '')'')))"

definition combine_sql :: "MeasureAgg \<Rightarrow> string \<Rightarrow> string" where
  "combine_sql agg col =
     (case agg of
        Min \<Rightarrow> ''MIN('' @ col @ '')''
      | Max \<Rightarrow> ''MAX('' @ col @ '')''
      | _ \<Rightarrow> ''SUM('' @ col @ '')'')"

definition preagg_dim :: "SemanticModel \<Rightarrow> string \<Rightarrow> string \<Rightarrow> SemanticError + string \<times> string" where
  "preagg_dim m model d =
     rbind (resolve_dimension_expr m (model @ ''.'' @ d) None None) (\<lambda>expr.
       Inr (expr, expr @ '' AS '' @ quote_ident (hd (split_on (CHR ''.'') d))))"

definition compile_preagg_sql :: "SemanticCatalog \<Rightarrow> string \<Rightarrow> string \<Rightarrow> SemanticError + string" where
  "compile_preagg_sql cat model preagg =
     rbind (ok_or (UnknownModel model) (get_model cat model)) (\<lambda>m.
     rbind (ok_or (Compile (''unknown pre-aggregation `'' @ model @ ''.'' @ preagg @ ''`''))
              (find (\<lambda>p. pa_name p = preagg) (m_pre_aggregations m))) (\<lambda>pre.
     rbind (rmap (preagg_dim m model) (pa_dimensions pre)) (\<lambda>dims.
     rbind (rmap (\<lambda>name.
              rbind (ok_or (UnknownMember (model @ ''.'' @ name)) (find_measure m name)) (\<lambda>measure.
                Inr (agg_sql measure None @ '' AS '' @ quote_ident name))) (pa_measures pre)) (\<lambda>measures.
     rbind (qualified_table cat model) (\<lambda>from.
       Inr (''SELECT '' @ join '', '' (map snd dims @ measures) @ [nl] @ ''FROM '' @ from @
            opt_clause ''GROUP BY '' '', '' (map fst dims)))))))"

record RollupMatch =
  rm_model :: string
  rm_preagg :: string

text \<open>The re-aggregation of one measure member.\<close>

definition rollup_measure :: "SemanticModel \<Rightarrow> string \<Rightarrow> string \<Rightarrow> SemanticError + string" where
  "rollup_measure model alias member =
     rbind (ok_or (UnknownMember member) (measure_member_name member)) (\<lambda>name.
     rbind (ok_or (UnknownMember member) (find_measure model name)) (\<lambda>measure.
       Inr (combine_sql (ms_agg measure) (rollup_col alias name))))"

definition rollup_filter ::
  "SemanticModel \<Rightarrow> string \<Rightarrow> SemanticFilter \<Rightarrow> SemanticError + bool \<times> string" where
  "rollup_filter model alias f =
     (if member_is_measure model (f_member f) then
        rbind (rollup_measure model alias (f_member f)) (\<lambda>expr.
        rbind (apply_op expr f True) (\<lambda>s. Inr (True, s)))
      else
        rbind (rollup_dim_expr (f_member f) alias) (\<lambda>expr.
        rbind (apply_op expr f False) (\<lambda>s. Inr (False, s))))"

definition rollup_clauses ::
  "SemanticCatalog \<Rightarrow> SemanticQuery \<Rightarrow> RollupMatch \<Rightarrow> SemanticError + Clauses" where
  "rollup_clauses cat q r =
     rbind (ok_or (UnknownModel (rm_model r)) (get_model cat (rm_model r))) (\<lambda>model.
     let alias = rm_model r in
     rbind (rmap (\<lambda>m. rollup_dim_expr m alias) (q_dimensions q)) (\<lambda>dim_exprs.
     rbind (rmap (rollup_measure model alias) (q_measures q)) (\<lambda>measure_exprs.
     rbind (enforce_filter_safety cat (rm_model r) q) (\<lambda>_.
     rbind (rmap (rollup_filter model alias) (q_filters q)) (\<lambda>terms.
     rbind (resolve_orders q) (\<lambda>orders.
       Inr \<lparr>cl_select = map2 as_member dim_exprs (q_dimensions q) @
              map2 as_member measure_exprs (q_measures q),
            cl_from = quote_ident rollup_schema @ ''.'' @
              quote_ident (rollup_table_name (rm_model r) (rm_preagg r)) @ '' AS '' @ alias,
            cl_where = where_terms terms,
            cl_group = dim_exprs,
            cl_having = having_terms terms,
            cl_order = orders,
            cl_limit = effective_limit (q_limit q) (max_rows cat (rm_model r))\<rparr>))))))"

definition rollup_measure_sql ::
  "SemanticCatalog \<Rightarrow> SemanticQuery \<Rightarrow> RollupMatch \<Rightarrow> SemanticError + string" where
  "rollup_measure_sql cat q r = rbind (rollup_clauses cat q r) (\<lambda>c. Inr (render_select c))"

record RollupSpec =
  rs_model :: string
  rs_preagg :: string
  rs_refresh :: "nat option"

text \<open>
  \<open>rollups\<close>: all declared pre-aggregations, sorted by model and name.  The models come out of a hash
  map; a stable sort by the pair of names follows.
\<close>

definition name_le :: "string \<times> string \<Rightarrow> string \<times> string \<Rightarrow> bool" where
  "name_le a b \<longleftrightarrow> fst a < fst b \<or> fst a = fst b \<and> snd a \<le> snd b"

fun insert_spec :: "RollupSpec \<Rightarrow> RollupSpec list \<Rightarrow> RollupSpec list" where
  "insert_spec x [] = [x]"
| "insert_spec x (y # ys) =
     (if name_le (rs_model x, rs_preagg x) (rs_model y, rs_preagg y) then x # y # ys
      else y # insert_spec x ys)"

definition rollups :: "(SemanticModel list \<Rightarrow> SemanticModel list) \<Rightarrow> SemanticCatalog \<Rightarrow> RollupSpec list" where
  "rollups map_iter cat =
     foldr insert_spec
       (concat (map (\<lambda>m. map (\<lambda>p. \<lparr>rs_model = m_name m, rs_preagg = pa_name p, rs_refresh = pa_refresh p\<rparr>)
          (m_pre_aggregations m)) (map_iter (map snd (c_models cat))))) []"

subsection \<open>The meaning of the aggregates\<close>

text \<open>
  A column is a list of values, \<open>None\<close> being NULL.  Every aggregate skips NULLs; all but the counts
  are NULL on a column without values.  A custom aggregate has no fixed meaning.
\<close>

type_synonym column = "rat option list"

definition non_null :: "column \<Rightarrow> rat list" where
  "non_null xs = concat (map (\<lambda>x. case x of None \<Rightarrow> [] | Some v \<Rightarrow> [v]) xs)"

fun fold1 :: "(rat \<Rightarrow> rat \<Rightarrow> rat) \<Rightarrow> rat list \<Rightarrow> rat option" where
  "fold1 f [] = None"
| "fold1 f (x # xs) = Some (fold f xs x)"

fun eval_agg :: "MeasureAgg \<Rightarrow> column \<Rightarrow> rat option" where
  "eval_agg Sum xs = fold1 (+) (non_null xs)"
| "eval_agg Count xs = Some (of_nat (length (non_null xs)))"
| "eval_agg CountDistinct xs = Some (of_nat (card (set (non_null xs))))"
| "eval_agg Avg xs =
     map_option (\<lambda>s. s / of_nat (length (non_null xs))) (fold1 (+) (non_null xs))"
| "eval_agg Min xs = fold1 min (non_null xs)"
| "eval_agg Max xs = fold1 max (non_null xs)"
| "eval_agg (Custom _) xs = None"

text \<open>The aggregate that \<open>combine_sql\<close> applies to the stored partials.\<close>

fun combine_agg :: "MeasureAgg \<Rightarrow> MeasureAgg" where
  "combine_agg Min = Min"
| "combine_agg Max = Max"
| "combine_agg _ = Sum"

lemma combine_sql_agg:
  assumes "ms_filters m = []" "ms_agg m = combine_agg agg"
  shows "combine_sql agg (qualify (ms_expr m) None) = agg_sql m None"
  using assms by (cases agg) (simp_all add: combine_sql_def agg_sql_def Let_def)

lemma non_null_simps [simp]:
  "non_null [] = []"
  "non_null (None # xs) = non_null xs"
  "non_null (Some v # xs) = v # non_null xs"
  "non_null (xs @ ys) = non_null xs @ non_null ys"
  by (simp_all add: non_null_def)

text \<open>Folding an associative and commutative operation, group by group.\<close>

locale reagg =
  fixes f :: "rat \<Rightarrow> rat \<Rightarrow> rat"
  assumes f_assoc: "f (f a b) c = f a (f b c)" and f_comm: "f a b = f b a"
begin

lemma fold_shift: "fold f xs (f a b) = f a (fold f xs b)"
proof (induction xs arbitrary: b)
  case (Cons x xs)
  have "f x (f a b) = f a (f x b)" by (metis f_assoc f_comm)
  with Cons [of "f x b"] show ?case by simp
qed simp

lemma fold1_append:
  "fold1 f (xs @ ys) =
     (case fold1 f xs of None \<Rightarrow> fold1 f ys
      | Some a \<Rightarrow> (case fold1 f ys of None \<Rightarrow> Some a | Some b \<Rightarrow> Some (f a b)))"
proof (cases xs)
  case (Cons x xs')
  show ?thesis
  proof (cases ys)
    case (Cons y ys')
    with \<open>xs = x # xs'\<close> show ?thesis
      using fold_shift [of ys' "fold f xs' x" y] by (simp add: f_comm)
  qed (simp add: Cons split: option.split)
qed simp

lemma fold1_regroup:
  "fold1 f (non_null (map (\<lambda>g. fold1 f (non_null g)) gs)) = fold1 f (non_null (concat gs))"
proof (induction gs)
  case (Cons g gs)
  show ?case
  proof (cases "fold1 f (non_null g)")
    case None
    then show ?thesis using Cons by (simp add: fold1_append)
  next
    case (Some a)
    have "a # ys = [a] @ ys" for ys :: "rat list" by simp
    with Some Cons show ?thesis using fold1_append [of "[a]"] by (simp add: fold1_append)
  qed
qed simp

lemma fold1_mset: "mset xs = mset ys \<Longrightarrow> fold1 f xs = fold1 f ys"
proof (induction xs arbitrary: ys)
  case (Cons x xs)
  from Cons.prems have "x \<in> set ys" by (metis list.set_intros(1) mset_eq_setD)
  then obtain as bs where ys: "ys = as @ x # bs" by (meson split_list)
  with Cons.prems have "mset xs = mset (as @ bs)" by simp
  with Cons.IH have ih: "fold1 f xs = fold1 f (as @ bs)" by blast
  have "fold1 f (x # xs) = fold1 f (x # as @ bs)"
    using fold1_append [of "[x]" xs] fold1_append [of "[x]" "as @ bs"] ih by simp
  also have "\<dots> = fold1 f (as @ x # bs)"
    using fold1_append [of "[x]" "as @ bs"] fold1_append [of as "x # bs"] fold1_append [of "[x]" bs]
      fold1_append [of as bs]
    by (auto simp: f_comm f_assoc split: option.splits) (metis f_assoc f_comm)+
  finally show ?case unfolding ys .
qed simp

end

interpretation add: reagg "(+)" by unfold_locales simp_all
interpretation mn: reagg "min" by unfold_locales (simp_all add: min.assoc min.commute)
interpretation mx: reagg "max" by unfold_locales (simp_all add: max.assoc max.commute)

lemma eval_agg_mset:
  assumes "mset xs = mset ys" shows "eval_agg agg xs = eval_agg agg ys"
proof -
  have "mset (non_null xs) = mset (non_null ys)"
  proof -
    have "mset (non_null zs) = image_mset the (filter_mset (\<lambda>x. x \<noteq> None) (mset zs))" for zs
      by (induction zs) (auto simp: non_null_def split: option.splits)
    with assms show ?thesis by simp
  qed
  from mset_eq_length [OF this] mset_eq_setD [OF this] add.fold1_mset [OF this]
    mn.fold1_mset [OF this] mx.fold1_mset [OF this]
  show ?thesis by (cases agg) simp_all
qed

lemma count_regroup:
  "gs \<noteq> [] \<Longrightarrow>
     fold1 (+) (map (\<lambda>g. of_nat (length (non_null g))) gs) = Some (of_nat (length (non_null (concat gs))))"
proof (induction gs)
  case (Cons g gs)
  show ?case
  proof (cases "gs = []")
    case False
    with Cons show ?thesis
      using add.fold1_append [of "[of_nat (length (non_null g))]"] by simp
  qed simp
qed simp

lemma eval_agg_eta:
  "eval_agg Sum = (\<lambda>g. fold1 (+) (non_null g))" "eval_agg Min = (\<lambda>g. fold1 min (non_null g))"
  "eval_agg Max = (\<lambda>g. fold1 max (non_null g))"
  by (simp_all add: fun_eq_iff)

lemma rollup_safe_regroup:
  assumes "is_rollup_safe agg" "gs \<noteq> []"
  shows "eval_agg (combine_agg agg) (map (eval_agg agg) gs) = eval_agg agg (concat gs)"
proof (cases agg)
  case Count
  have "non_null (map (eval_agg Count) gs) = map (\<lambda>g. of_nat (length (non_null g))) gs"
    by (induction gs) simp_all
  with Count count_regroup [OF assms(2)] show ?thesis by simp
qed (use assms(1) in \<open>simp_all add: eval_agg_eta add.fold1_regroup mn.fold1_regroup mx.fold1_regroup\<close>)

text \<open>
  Re-aggregating stored partials is right for exactly the aggregates the code calls rollup-safe:
  for these the combination of the partials of any groups is the aggregate over all rows, and for
  averages and distinct counts (the other aggregates with a fixed meaning) there are groups on which
  it is not.
\<close>

lemma is_rollup_safe_exact:
  "(\<forall>sql. agg \<noteq> Custom sql) \<Longrightarrow>
   is_rollup_safe agg \<longleftrightarrow>
     (\<forall>gs. gs \<noteq> [] \<longrightarrow> eval_agg (combine_agg agg) (map (eval_agg agg) gs) = eval_agg agg (concat gs))"
proof (cases "is_rollup_safe agg")
  case True
  with rollup_safe_regroup show ?thesis by blast
next
  case False
  assume "\<forall>sql. agg \<noteq> Custom sql"
  with False consider "agg = Avg" | "agg = CountDistinct" by (cases agg) auto
  then have "\<exists>gs. gs \<noteq> [] \<and>
      eval_agg (combine_agg agg) (map (eval_agg agg) gs) \<noteq> eval_agg agg (concat gs)"
    by cases (rule exI [of _ "[[Some 1], [Some 1]]"], simp)+
  with False show ?thesis by blast
qed

subsection \<open>Answering from a rollup\<close>

text \<open>
  The rows of a base table, their grouping key at the grain of the rollup (\<open>fine\<close>) and of the query
  (\<open>coarse\<close>), and the rows a filter keeps.  The contract of a rollup that can serve the query: both
  the query's key and its filter can be computed from the stored key.
\<close>

definition rollup_rows :: "('r \<Rightarrow> 'k) \<Rightarrow> MeasureAgg \<Rightarrow> ('r \<times> rat option) list \<Rightarrow> ('k \<times> rat option) list" where
  "rollup_rows fine agg rows =
     map (\<lambda>k. (k, eval_agg agg (map snd (filter (\<lambda>r. fine (fst r) = k) rows))))
       (remdups (map (\<lambda>r. fine (fst r)) rows))"

definition answer :: "('r \<Rightarrow> bool) \<Rightarrow> ('r \<Rightarrow> 'c) \<Rightarrow> MeasureAgg \<Rightarrow> ('r \<times> rat option) list \<Rightarrow> 'c \<Rightarrow> rat option" where
  "answer keep key agg rows K = eval_agg agg (map snd (filter (\<lambda>r. keep (fst r) \<and> key (fst r) = K) rows))"

lemma mset_regroup:
  assumes "distinct ks" "\<forall>r\<in>set rows. P (g r) \<longrightarrow> g r \<in> set ks"
  shows "mset (concat (map (\<lambda>k. filter (\<lambda>r. g r = k) rows) (filter P ks))) =
    mset (filter (\<lambda>r. P (g r)) rows)"
  using assms(2)
proof (induction rows)
  case Nil
  then show ?case by (induction ks) simp_all
next
  case (Cons r rows)
  let ?c = "\<lambda>rows ks. mset (concat (map (\<lambda>k. filter (\<lambda>r. g r = k) rows) ks))"
  have step: "?c (r # rows) ks' = (if g r \<in> set ks' then {#r#} else {#}) + ?c rows ks'"
    if "distinct ks'" for ks' using that by (induction ks') auto
  from Cons show ?case using step [of "filter P ks"] assms(1) by auto
qed

lemma rollup_answer:
  assumes recoarse: "\<And>r. recoarse (fine r) = coarse r" and rekeep: "\<And>r. rekeep (fine r) = keep r"
    and "is_rollup_safe agg" "\<exists>r\<in>set rows. keep (fst r) \<and> coarse (fst r) = K"
  shows "answer rekeep recoarse (combine_agg agg) (rollup_rows fine agg rows) K =
    answer keep coarse agg rows K"
proof -
  let ?P = "\<lambda>k. rekeep k \<and> recoarse k = K"
  let ?ks = "filter ?P (remdups (map (\<lambda>r. fine (fst r)) rows))"
  let ?gs = "map (\<lambda>k. filter (\<lambda>r. fine (fst r) = k) rows) ?ks"
  have "answer rekeep recoarse (combine_agg agg) (rollup_rows fine agg rows) K =
      eval_agg (combine_agg agg) (map (eval_agg agg) (map (map snd) ?gs))"
    by (simp add: answer_def rollup_rows_def filter_map comp_def)
  also have "\<dots> = eval_agg agg (concat (map (map snd) ?gs))"
    using assms(3,4) by (intro rollup_safe_regroup) (auto simp: filter_empty_conv recoarse rekeep)
  also have "\<dots> = eval_agg agg (map snd (concat ?gs))" by (simp add: map_concat)
  also have "\<dots> = eval_agg agg (map snd (filter (\<lambda>r. ?P (fine (fst r))) rows))"
    using mset_regroup [of "remdups (map (\<lambda>r. fine (fst r)) rows)" rows ?P "\<lambda>r. fine (fst r)"]
    by (intro eval_agg_mset) (simp only: mset_map distinct_remdups set_remdups, simp)
  finally show ?thesis by (simp add: answer_def recoarse rekeep)
qed

text \<open>
  The contract between rollups \<open>'p\<close> and queries \<open>'q\<close>: where a rollup serves a query, rows with the
  same stored key have the same key in the query and the same cells for its filters.
\<close>

locale rollup_service =
  fixes fine :: "'p \<Rightarrow> 'r \<Rightarrow> 'k" and coarse :: "'q \<Rightarrow> 'r \<Rightarrow> 'c" and cells :: "'q \<Rightarrow> 'r \<Rightarrow> 'f"
    and serves :: "'p \<Rightarrow> 'q \<Rightarrow> bool"
  assumes serves_key: "serves p q \<Longrightarrow> fine p r = fine p r' \<Longrightarrow> coarse q r = coarse q r'"
    and serves_cells: "serves p q \<Longrightarrow> fine p r = fine p r' \<Longrightarrow> cells q r = cells q r'"
begin

lemma served_answer:
  assumes "serves p q"
  shows "\<exists>recoarse rekeep. \<forall>agg rows K. is_rollup_safe agg \<longrightarrow>
    (\<exists>r\<in>set rows. keep (cells q (fst r)) \<and> coarse q (fst r) = K) \<longrightarrow>
    answer rekeep recoarse (combine_agg agg) (rollup_rows (fine p) agg rows) K =
    answer (\<lambda>r. keep (cells q r)) (coarse q) agg rows K"
proof -
  have some: "fine p (SOME x. fine p x = fine p r) = fine p r" for r
    by (rule someI [of "\<lambda>x. fine p x = fine p r" r]) simp
  show ?thesis
    by (rule exI [of _ "\<lambda>k. coarse q (SOME x. fine p x = k)"],
        rule exI [of _ "\<lambda>k. keep (cells q (SOME x. fine p x = k))"], intro allI impI rollup_answer)
      (simp_all add: serves_key [OF assms some] serves_cells [OF assms some])
qed

end

subsection \<open>Covering pre-aggregations\<close>

text \<open>
  A row of a base table gives each dimension a cell, a text or a point in time; a dimension reference
  with a grain reads a truncated time.
\<close>

datatype cell = Txt string | Time civil | Bucket "int list"

fun dim_cell :: "dim_ref \<Rightarrow> (string \<Rightarrow> cell) \<Rightarrow> cell" where
  "dim_cell (name, None) row = row name"
| "dim_cell (name, Some g) row = (case row name of Time t \<Rightarrow> Bucket (bucket g t) | c \<Rightarrow> c)"

definition pre_key :: "PreAggregation \<Rightarrow> (string \<Rightarrow> cell) \<Rightarrow> cell list" where
  "pre_key pre row = map (\<lambda>d. dim_cell (parse_bare_dim d) row) (pa_dimensions pre)"

definition query_key :: "SemanticQuery \<Rightarrow> (string \<Rightarrow> cell) \<Rightarrow> cell list" where
  "query_key q row = map (\<lambda>m. dim_cell (parse_query_dim m) row) (q_dimensions q)"

text \<open>The cells the query's filters look at; what the operators decide on them is left open.\<close>

definition filter_cells :: "SemanticQuery \<Rightarrow> (string \<Rightarrow> cell) \<Rightarrow> cell list" where
  "filter_cells q row = map (\<lambda>f. dim_cell (parse_query_dim (f_member f)) row) (q_filters q)"

text \<open>Base tables hold raw cells, not buckets.\<close>

definition raw_row :: "(string \<Rightarrow> cell) \<Rightarrow> bool" where
  "raw_row row \<longleftrightarrow> (\<forall>n b. row n \<noteq> Bucket b)"

typedef base_row = "{row. raw_row row}"
  by (rule exI [of _ "\<lambda>_. Txt []"]) (simp add: raw_row_def)

lemma grain_covers_determines:
  assumes "grain_covers p g" "dim_cell (n, p) r = dim_cell (n, p) r'" "raw_row r" "raw_row r'"
  shows "dim_cell (n, g) r = dim_cell (n, g) r'"
  using assms
  by (cases p; cases g)
    (auto simp: raw_row_def dest: rolls_up_determines split: cell.splits)

lemma dim_covered_determines:
  assumes "dim_covered (map parse_bare_dim (pa_dimensions pre)) want" "pre_key pre r = pre_key pre r'"
    "raw_row r" "raw_row r'"
  shows "dim_cell want r = dim_cell want r'"
proof -
  from assms(1) obtain d where d: "d \<in> set (pa_dimensions pre)" "fst (parse_bare_dim d) = fst want"
    "grain_covers (snd (parse_bare_dim d)) (snd want)"
    by (auto simp: dim_covered_def list_ex_iff)
  from assms(2) d(1) have "dim_cell (parse_bare_dim d) r = dim_cell (parse_bare_dim d) r'"
    by (auto simp: pre_key_def map_eq_conv)
  with grain_covers_determines [OF d(3), of "fst want"] d(2) assms(3,4) show ?thesis
    by (cases want) (metis prod.collapse)
qed

definition grain_covered_filters :: "PreAggregation \<Rightarrow> SemanticQuery \<Rightarrow> bool" where
  "grain_covered_filters pre q \<longleftrightarrow>
     list_all (\<lambda>f. dim_covered (map parse_bare_dim (pa_dimensions pre)) (parse_query_dim (f_member f)))
       (q_filters q)"

definition serves :: "PreAggregation \<Rightarrow> SemanticQuery \<Rightarrow> bool" where
  "serves pre q \<longleftrightarrow> covers pre q \<and> grain_covered_filters pre q"

interpretation preagg: rollup_service
  "\<lambda>pre r. pre_key pre (Rep_base_row r)" "\<lambda>q r. query_key q (Rep_base_row r)"
  "\<lambda>q r. filter_cells q (Rep_base_row r)" serves
proof
  have raw: "raw_row (Rep_base_row r)" for r using Rep_base_row by auto
  fix pre q r r'
  assume s: "serves pre q" "pre_key pre (Rep_base_row r) = pre_key pre (Rep_base_row r')"
  note det = dim_covered_determines [OF _ s(2) raw raw]
  show "query_key q (Rep_base_row r) = query_key q (Rep_base_row r')"
    using s(1) det by (auto simp: serves_def covers_def query_key_def list_all_iff Let_def)
  show "filter_cells q (Rep_base_row r) = filter_cells q (Rep_base_row r')"
    using s(1) det by (auto simp: serves_def grain_covered_filters_def filter_cells_def list_all_iff)
qed

subsection \<open>Properties\<close>

definition daily :: PreAggregation where
  "daily = \<lparr>pa_name = ''daily'', pa_dimensions = [''status'', ''at.day''], pa_measures = [''total''],
     pa_refresh = None, pa_partition_by = None\<rparr>"

definition monthly_query :: SemanticQuery where
  "monthly_query = \<lparr>q_measures = [''orders.total''], q_dimensions = [''orders.at.month''],
     q_filters = [\<lparr>f_member = ''orders.status'', f_op = Equals, f_values = [''open'']\<rparr>],
     q_segments = [], q_order_by = [], q_limit = None, q_time_zone = None, q_params = []\<rparr>"



lemma min_by_key_None: "min_by_key k xs = None \<longleftrightarrow> xs = []"
  by (cases xs) (auto split: option.splits)

lemma min_by_key_Some:
  "min_by_key k xs = Some x \<Longrightarrow> x \<in> set xs \<and> (\<forall>y\<in>set xs. k x \<le> k y) \<and> find (\<lambda>y. k y = k x) xs = Some x"
proof (induction xs arbitrary: x)
  case (Cons a xs)
  show ?case
  proof (cases "min_by_key k xs")
    case None
    with Cons.prems show ?thesis by (auto simp: min_by_key_None)
  next
    case (Some y)
    from Cons.IH [OF Some] Cons.prems Some show ?thesis by (auto split: if_splits)
  qed
qed simp

text \<open>
  The rollup chosen for a query is a declared pre-aggregation that covers it, no covering one has
  fewer dimensions, and among equally small ones it is the first declared; none is chosen only when
  none covers.
\<close>

lemma match_rollup_smallest:
  "case match_rollup model q of
     None \<Rightarrow> \<not> list_ex (\<lambda>pre. covers pre q) (m_pre_aggregations model)
   | Some pre \<Rightarrow> pre \<in> set (m_pre_aggregations model) \<and> covers pre q \<and>
       filter (\<lambda>p. covers p q \<and> length (pa_dimensions p) < length (pa_dimensions pre))
         (m_pre_aggregations model) = [] \<and>
       find (\<lambda>p. covers p q \<and> length (pa_dimensions p) = length (pa_dimensions pre))
         (m_pre_aggregations model) = Some pre"
proof (cases "match_rollup model q")
  case None
  then show ?thesis by (simp add: match_rollup_def min_by_key_None filter_empty_conv list_ex_iff)
next
  case (Some pre)
  have ff: "find P (filter Q xs) = find (\<lambda>x. Q x \<and> P x) xs" for P Q and xs :: "PreAggregation list"
    by (induction xs) auto
  from min_by_key_Some [OF Some [unfolded match_rollup_def]] Some show ?thesis
    by (auto simp: ff filter_empty_conv)
qed

definition since_query :: SemanticQuery where
  "since_query = monthly_query\<lparr>q_dimensions := [],
     q_filters := [\<lparr>f_member = ''orders.at'', f_op = Gte, f_values = [''2024-01-01T03:00:00'']\<rparr>]\<rparr>"

definition row_at :: "int \<Rightarrow> string \<Rightarrow> cell" where
  "row_at h name = (if name = ''at'' then Time (Time_Grains.at 2024 1 1 h) else Txt ''open'')"

definition since_three :: "cell list \<Rightarrow> bool" where
  "since_three cs = (case cs of [Time t] \<Rightarrow> 3 \<le> hour t | _ \<Rightarrow> False)"

text \<open>
  A filter on the raw time is accepted by the coverage check although the rollup stores only
  truncated times: two base tables with the same daily rollup have different answers, so no statement
  over the rollup can be right for both.
\<close>

lemma covers_ignores_filter_grain:
  "covers daily since_query \<and>
   rollup_rows (pre_key daily) Sum [(row_at 0, Some 1)] = rollup_rows (pre_key daily) Sum [(row_at 5, Some 1)] \<and>
   answer (\<lambda>r. since_three (filter_cells since_query r)) (query_key since_query) Sum [(row_at 0, Some 1)] [] \<noteq>
   answer (\<lambda>r. since_three (filter_cells since_query r)) (query_key since_query) Sum [(row_at 5, Some 1)] []"
proof -
  have "covers daily since_query" by code_simp
  moreover have "parse_query_dim ''orders.at'' = (''at'', None)"
    "map parse_bare_dim (pa_dimensions daily) = [(''status'', None), (''at'', Some Day)]" by code_simp+
  ultimately show ?thesis
    by (simp add: rollup_rows_def pre_key_def answer_def filter_cells_def query_key_def since_query_def
        monthly_query_def row_at_def since_three_def daily_def Time_Grains.at_def)
qed

lemma shop_monthly_rollup:
  "rollup_measure_sql shop monthly_query \<lparr>rm_model = ''orders'', rm_preagg = ''daily''\<rparr> = Inr
     (''SELECT DATE_TRUNC('' @ lit ''month'' @ '', orders.'' @ quote_ident ''at'' @ '') AS '' @
      quote_ident ''orders.at.month'' @ '', SUM(orders.'' @ quote_ident ''total'' @ '') AS '' @
      quote_ident ''orders.total'' @ [nl] @
      ''FROM '' @ quote_ident ''semantic'' @ ''.'' @ quote_ident ''orders__daily'' @ '' AS orders'' @ [nl] @
      ''WHERE orders.'' @ quote_ident ''status'' @ '' = '' @ lit ''open'' @ [nl] @
      ''GROUP BY DATE_TRUNC('' @ lit ''month'' @ '', orders.'' @ quote_ident ''at'' @ '')'' @ [nl] @
      ''LIMIT 1000'')"
  by code_simp

text \<open>
  A statement over a rollup honours the guard rails of the model it stands for, reads nothing but
  the rollup's table, and selects one item per dimension and measure.
\<close>

lemma rollup_guard_rails:
  assumes "rollup_measure_sql cat q r = Inr sql"
  shows "\<exists>c. sql = render_select c \<and> rails_hold cat q (rm_model r) (cl_limit c) \<and>
    cl_from c = quote_ident rollup_schema @ ''.'' @
      quote_ident (rollup_table_name (rm_model r) (rm_preagg r)) @ '' AS '' @ rm_model r \<and>
    length (cl_select c) = length (q_dimensions q) + length (q_measures q)"
proof -
  from assms obtain c where c: "rollup_clauses cat q r = Inr c" "sql = render_select c"
    by (auto simp: rollup_measure_sql_def res_simps)
  from c(1) obtain model dims msrs where
    m: "rmap (\<lambda>m. rollup_dim_expr m (rm_model r)) (q_dimensions q) = Inr dims"
      "rmap (rollup_measure model (rm_model r)) (q_measures q) = Inr msrs"
      "enforce_filter_safety cat (rm_model r) q = Inr ()"
      "cl_select c = map2 as_member dims (q_dimensions q) @ map2 as_member msrs (q_measures q)"
      "cl_limit c = effective_limit (q_limit q) (max_rows cat (rm_model r))"
      "cl_from c = quote_ident rollup_schema @ ''.'' @
        quote_ident (rollup_table_name (rm_model r) (rm_preagg r)) @ '' AS '' @ rm_model r"
    unfolding rollup_clauses_def Let_def rbind_eq_Inr by auto
  have "rails_hold cat q (rm_model r) (cl_limit c)"
    using effective_limit_cap(1) [of "q_limit q"] unfolding m(5) by (intro rails_holdI m(3)) auto
  with c(2) m(4,6) rmap_length [OF m(1)] rmap_length [OF m(2)] show ?thesis by auto
qed

end
