(* ===== verification/Metrics.thy ===== *)
theory Metrics
  imports Rollup
begin

section \<open>Metrics\<close>

text \<open>
  The metric pass of \<open>pawrly-semantic/src/metric.rs\<close>: metrics are expanded into leaf measures, the
  expanded query is compiled by the measure pipeline, and each metric becomes an expression over the
  aggregated columns.  Then \<open>compile_sql\<close> as a whole, and the selection of rollups, which looks through
  metrics.  The mutable \<open>Expansion\<close> is passed as state; the stack \<open>visiting\<close> is an argument, since the
  source pops what it pushed before it returns.
\<close>

definition agg_alias :: string where
  "agg_alias = ''__agg''"

definition axis_alias :: string where
  "axis_alias = ''__axis''"

subsection \<open>Window metrics\<close>

text \<open>
  The metrics that a metric inlines: dot-free members of ratios and derived metrics.  Members that
  cannot be read (\<open>references().unwrap_or_default()\<close>) count as none.
\<close>

definition inlined :: "Metric \<Rightarrow> string list" where
  "inlined metric =
     (case mt_kind metric of
        Ratio _ _ \<Rightarrow> filter (\<lambda>m. \<not> has_dot m) (case metric_references metric of Inr rs \<Rightarrow> map fst rs | Inl _ \<Rightarrow> [])
      | Derived _ \<Rightarrow> filter (\<lambda>m. \<not> has_dot m) (case metric_references metric of Inr rs \<Rightarrow> map fst rs | Inl _ \<Rightarrow> [])
      | _ \<Rightarrow> [])"

fun is_window :: "MetricKind \<Rightarrow> bool" where
  "is_window (Cumulative _ _ _) = True"
| "is_window (Offset _ _ _) = True"
| "is_window _ = False"

abbreviation metric_keys :: "SemanticCatalog \<Rightarrow> string set" where
  "metric_keys cat \<equiv> fst ` set (c_metrics cat)"

lemma get_metric_key: "get_metric cat name = Some m \<Longrightarrow> name \<in> metric_keys cat"
  unfolding get_metric_def by (drule map_of_SomeD) (auto intro: rev_image_eqI)

lemma unvisited_decreases:
  assumes "get_metric cat name = Some m" "name \<notin> set visited"
  shows "card (metric_keys cat - insert name (set visited)) < card (metric_keys cat - set visited)"
  using get_metric_key [OF assms(1)] assms(2) by (intro psubset_card_mono) auto

text \<open>
  \<open>has_window\<close> recurses into the references one after the other and shares one list of visited metrics
  among all calls; the first hit ends the whole search.  That is a depth-first search, written here with
  the references still to be looked at as a stack.
\<close>

function has_window :: "SemanticCatalog \<Rightarrow> string list \<Rightarrow> string list \<Rightarrow> bool" where
  "has_window cat [] visited = False"
| "has_window cat (name # todo) visited =
     (case get_metric cat name of
        None \<Rightarrow> has_window cat todo visited
      | Some metric \<Rightarrow>
          if name \<in> set visited then has_window cat todo visited
          else if is_window (mt_kind metric) then True
          else has_window cat (inlined metric @ todo) (visited @ [name]))"
  by pat_completeness auto
termination
  by (relation "inv_image (less_than <*lex*> less_than)
        (\<lambda>(cat, todo, visited). (card (metric_keys cat - set visited), length todo))")
    (auto simp: unvisited_decreases)

declare has_window.simps [simp del]

definition needs_axis :: "SemanticCatalog \<Rightarrow> SemanticQuery \<Rightarrow> bool" where
  "needs_axis cat q = list_ex (\<lambda>m. has_window cat [m] []) (filter (\<lambda>m. \<not> has_dot m) (q_measures q))"

subsection \<open>Text of window expressions\<close>

fun window_fn :: "WindowAgg \<Rightarrow> string" where
  "window_fn WSum = ''SUM''"
| "window_fn WAvg = ''AVG''"
| "window_fn WMin = ''MIN''"
| "window_fn WMax = ''MAX''"

fun grain_step :: "TimeGrain \<Rightarrow> string" where
  "grain_step Hour = ''1 hour''"
| "grain_step Day = ''1 day''"
| "grain_step Week = ''1 week''"
| "grain_step Month = ''1 month''"
| "grain_step Quarter = ''3 months''"
| "grain_step Year = ''1 year''"

definition gap_filled :: "string \<Rightarrow> bool \<Rightarrow> string" where
  "gap_filled col zero_fill =
     (let col = quote_ident col in
      if zero_fill then ''COALESCE('' @ agg_alias @ ''.'' @ col @ '', 0)''
      else agg_alias @ ''.'' @ col)"

definition partition_by :: "string list \<Rightarrow> string" where
  "partition_by terms = (if terms = [] then [] else ''PARTITION BY '' @ join '', '' terms @ '' '')"

definition and_filter :: "string list \<Rightarrow> string option \<Rightarrow> string list" where
  "and_filter base extra = (case extra of Some f \<Rightarrow> base @ [f] | None \<Rightarrow> base)"

subsection \<open>Expansion\<close>

record ExpCtx =
  x_catalog :: SemanticCatalog
  x_query :: SemanticQuery
  x_time_dims :: "(string \<times> TimeGrain) list"
  x_dims_alias :: string

record Expansion =
  x_leaves :: "string list"
  x_leaf_index :: "(string \<times> string list, string) hmap"
  x_synthetic :: "(string, Measure list) hmap"

definition empty_expansion :: Expansion where
  "empty_expansion = \<lparr>x_leaves = [], x_leaf_index = [], x_synthetic = []\<rparr>"

definition synthetic_name :: "nat \<Rightarrow> string \<Rightarrow> string" where
  "synthetic_name i mname = ''__mf'' @ show_nat i @ ''_'' @ mname"

text \<open>The filtered leaf: a synthetic measure on the owning model.\<close>

definition filtered_leaf ::
  "SemanticCatalog \<Rightarrow> string \<Rightarrow> string list \<Rightarrow> Expansion \<Rightarrow> SemanticError + string \<times> Expansion" where
  "filtered_leaf cat member key_filters st =
     rbind (ok_or (UnknownMember member) (split_once (CHR ''.'') member)) (\<lambda>(model_name, mname).
     rbind (ok_or (UnknownModel model_name) (get_model cat model_name)) (\<lambda>model.
     rbind (ok_or (UnknownMember member) (find (\<lambda>m. ms_name m = mname) (m_measures model))) (\<lambda>measure.
       let syn = measure\<lparr>ms_name := synthetic_name (length (x_leaf_index st)) mname,
             ms_filters := ms_filters measure @ key_filters\<rparr>;
           old = (case hm_get (x_synthetic st) model_name of None \<Rightarrow> [] | Some v \<Rightarrow> v)
       in Inr (model_name @ ''.'' @ ms_name syn,
               st\<lparr>x_synthetic := hm_insert model_name (old @ [syn]) (x_synthetic st)\<rparr>))))"

definition leaf ::
  "SemanticCatalog \<Rightarrow> string \<Rightarrow> string list \<Rightarrow> Expansion \<Rightarrow> SemanticError + string \<times> Expansion" where
  "leaf cat member filters st =
     (let key_filters = remdups_adj (sort filters); key = (member, key_filters) in
      case hm_get (x_leaf_index st) key of
        Some col \<Rightarrow> Inr (col, st)
      | None \<Rightarrow>
          rbind (if filters = [] then Inr (member, st) else filtered_leaf cat member key_filters st)
            (\<lambda>(inner_member, st').
              Inr (inner_member,
                st'\<lparr>x_leaves := x_leaves st' @ [inner_member],
                    x_leaf_index := hm_insert key inner_member (x_leaf_index st')\<rparr>)))"

definition window_axis :: "ExpCtx \<Rightarrow> string \<Rightarrow> SemanticError + string \<times> string list" where
  "window_axis ctx metric =
     (case x_time_dims ctx of
        [(member, _)] \<Rightarrow>
          Inr (axis_alias @ ''.'' @ quote_ident member,
               map (\<lambda>d. axis_alias @ ''.'' @ quote_ident d)
                 (filter (\<lambda>d. d \<noteq> member) (q_dimensions (x_query ctx))))
      | [] \<Rightarrow> Inl (MetricNeedsTimeGrain metric)
      | _ \<Rightarrow> Inl (Compile (''metric `'' @ metric @
               ''`: group by exactly one time-grained dimension (found several)'')))"

definition cumulative_expr ::
  "ExpCtx \<Rightarrow> string \<Rightarrow> string \<Rightarrow> CumulativeWindow \<Rightarrow> WindowAgg \<Rightarrow> SemanticError + string" where
  "cumulative_expr ctx name col window agg =
     rbind (window_axis ctx name) (\<lambda>(time_col, partition).
       let partition' = (case window of
             GrainToDate grain \<Rightarrow> partition @ [''DATE_TRUNC('' @ [CHR 0x27] @ grain_as_str grain @
               [CHR 0x27] @ '', '' @ time_col @ '')'']
           | _ \<Rightarrow> partition);
           frame = (case window of
             Trailing periods \<Rightarrow> ''ROWS BETWEEN '' @ show_nat (periods - 1) @ '' PRECEDING AND CURRENT ROW''
           | _ \<Rightarrow> ''ROWS UNBOUNDED PRECEDING'');
           zero_fill = (agg = WSum \<or> agg = WAvg)
       in Inr (window_fn agg @ ''('' @ gap_filled col zero_fill @ '') OVER ('' @ partition_by partition' @
               ''ORDER BY '' @ time_col @ '' '' @ frame @ '')''))"

definition offset_expr ::
  "ExpCtx \<Rightarrow> string \<Rightarrow> string \<Rightarrow> nat \<Rightarrow> OffsetOutput \<Rightarrow> SemanticError + string" where
  "offset_expr ctx name col periods output =
     rbind (window_axis ctx name) (\<lambda>(time_col, partition).
       let cur = gap_filled col True;
           lag = ''LAG('' @ cur @ '', '' @ show_nat periods @ '') OVER ('' @ partition_by partition @
             ''ORDER BY '' @ time_col @ '')''
       in Inr (case output of
           OValue \<Rightarrow> lag
         | ODelta \<Rightarrow> ''('' @ cur @ '' - '' @ lag @ '')''
         | OGrowth \<Rightarrow> ''CAST(('' @ cur @ '' - '' @ lag @ '') AS DOUBLE) / NULLIF('' @ lag @ '', 0)''))"

definition share_expr :: "ExpCtx \<Rightarrow> string \<Rightarrow> string list \<Rightarrow> WindowAgg \<Rightarrow> string" where
  "share_expr ctx col over agg =
     (let c = agg_alias @ ''.'' @ quote_ident col;
          partition = map (\<lambda>d. x_dims_alias ctx @ ''.'' @ quote_ident d) over
      in ''CAST('' @ c @ '' AS DOUBLE) / NULLIF('' @ window_fn agg @ ''('' @ c @ '') OVER ('' @
         trim_end (partition_by partition) @ ''), 0)'')"

definition ungrouped :: "ExpCtx \<Rightarrow> string list \<Rightarrow> string option" where
  "ungrouped ctx over = find (\<lambda>d. d \<notin> set (q_dimensions (x_query ctx))) over"
text \<open>
  \<open>metric_expr\<close>, \<open>member_expr\<close> and the loop over the tokens of a derived metric.  A metric that is already
  on the stack is a cycle, so each nested call works with one metric of the catalog less.
\<close>

function metric_expr ::
    "ExpCtx \<Rightarrow> string \<Rightarrow> string list \<Rightarrow> string list \<Rightarrow> Expansion \<Rightarrow> SemanticError + string \<times> Expansion"
  and member_expr ::
    "ExpCtx \<Rightarrow> string \<Rightarrow> string list \<Rightarrow> string list \<Rightarrow> Expansion \<Rightarrow> SemanticError + string \<times> Expansion"
  and derived_expr ::
    "ExpCtx \<Rightarrow> string list \<Rightarrow> string list \<Rightarrow> string \<Rightarrow> Expansion \<Rightarrow> SemanticError + string \<times> Expansion"
where
  "metric_expr ctx name inherited visiting st =
     (case get_metric (x_catalog ctx) name of
        None \<Rightarrow> Inl (UnknownMetric name)
      | Some metric \<Rightarrow>
          if name \<in> set visiting then Inl (MetricCycle name)
          else
            let visiting' = visiting @ [name];
                base = (case mt_filter metric of Some f \<Rightarrow> inherited @ [f] | None \<Rightarrow> inherited)
            in case mt_kind metric of
                 Ratio numerator denominator \<Rightarrow>
                   rbind (member_expr ctx (op_member numerator)
                     (and_filter base (op_filter numerator)) visiting' st) (\<lambda>(num, st1).
                   rbind (member_expr ctx (op_member denominator)
                     (and_filter base (op_filter denominator)) visiting' st1) (\<lambda>(den, st2).
                     Inr (''CAST('' @ num @ '' AS DOUBLE) / NULLIF('' @ den @ '', 0)'', st2)))
               | Derived expr \<Rightarrow>
                   (case derived_tokens expr of
                      Inl msg \<Rightarrow> Inl (Compile msg)
                    | Inr _ \<Rightarrow> derived_expr ctx base visiting' expr st)
               | Cumulative msr window agg \<Rightarrow>
                   rbind (leaf (x_catalog ctx) msr base st) (\<lambda>(col, st1).
                   rbind (cumulative_expr ctx name col window agg) (\<lambda>e. Inr (e, st1)))
               | Offset msr periods output \<Rightarrow>
                   rbind (leaf (x_catalog ctx) msr base st) (\<lambda>(col, st1).
                   rbind (offset_expr ctx name col periods output) (\<lambda>e. Inr (e, st1)))
               | Share msr over agg \<Rightarrow>
                   (case ungrouped ctx over of
                      Some d \<Rightarrow> Inl (ShareDimNotGrouped name d)
                    | None \<Rightarrow>
                        rbind (leaf (x_catalog ctx) msr base st) (\<lambda>(col, st1).
                          Inr (share_expr ctx col over agg, st1))))"
| "member_expr ctx member filters visiting st =
     (if has_dot member then
        rbind (leaf (x_catalog ctx) member filters st) (\<lambda>(col, st1).
          Inr (agg_alias @ ''.'' @ quote_ident col, st1))
      else metric_expr ctx member filters visiting st)"
| "derived_expr ctx base visiting rest st =
     (case split_once (CHR ''{'') rest of
        None \<Rightarrow> Inr (rest, st)
      | Some (before, after) \<Rightarrow>
          (case split_once (CHR ''}'') after of
             None \<Rightarrow> Inr (rest, st)
           | Some (body, rest') \<Rightarrow>
               rbind (member_expr ctx (fst (split_token body))
                 (and_filter base (snd (split_token body))) visiting st) (\<lambda>(sub, st1).
               rbind (derived_expr ctx base visiting rest' st1) (\<lambda>(out, st2).
                 Inr (before @ ''('' @ sub @ '')'' @ out, st2)))))"
  by pat_completeness auto
termination
  by (relation "inv_image (less_than <*lex*> less_than <*lex*> less_than) (\<lambda>x. case x of
        Inl (ctx, name, inherited, visiting, st) \<Rightarrow>
          (card (metric_keys (x_catalog ctx) - set visiting), 0, 0)
      | Inr (Inl (ctx, member, filters, visiting, st)) \<Rightarrow>
          (card (metric_keys (x_catalog ctx) - set visiting), 1, 0)
      | Inr (Inr (ctx, base, visiting, rest, st)) \<Rightarrow>
          (card (metric_keys (x_catalog ctx) - set visiting), 2, length rest))")
    (auto simp: unvisited_decreases split_once_Some_iff)

declare metric_expr.simps [simp del] member_expr.simps [simp del] derived_expr.simps [simp del]

text \<open>The keys of \<open>synthetic\<close> are distinct, so the order of the loop over the hash map is of no matter.\<close>

definition augmented_catalog :: "SemanticCatalog \<Rightarrow> Expansion \<Rightarrow> SemanticCatalog" where
  "augmented_catalog cat st =
     \<lparr>c_models = fold (\<lambda>(model_name, extra) models.
        case hm_get models model_name of
          None \<Rightarrow> models
        | Some model \<Rightarrow> hm_insert model_name (model\<lparr>m_measures := m_measures model @ extra\<rparr>) models)
        (x_synthetic st) (c_models cat),
      c_metrics = [], c_time_spine = None\<rparr>"

definition spine_sql :: "TimeSpine option \<Rightarrow> string \<Rightarrow> TimeGrain \<Rightarrow> SemanticError + string" where
  "spine_sql spine tc grain =
     (case spine of
        None \<Rightarrow>
          Inr (''SELECT unnest(generate_series((SELECT MIN('' @ tc @ '') FROM '' @ agg_alias @ ''), '' @
               ''(SELECT MAX('' @ tc @ '') FROM '' @ agg_alias @ ''), INTERVAL '' @ [CHR 0x27] @
               grain_step grain @ [CHR 0x27] @ '')) AS '' @ tc)
      | Some ts \<Rightarrow>
          rbind (ok_or (Compile (''time_spine source `'' @ ts_source ts @ ''` must be `source.table`''))
                   (TableName_parse (ts_source ts))) (\<lambda>table.
            let col = quote_ident (ts_column ts);
                trunc = ''DATE_TRUNC('' @ [CHR 0x27] @ grain_as_str grain @ [CHR 0x27] @ '', '' @ col @ '')''
            in Inr (''SELECT DISTINCT '' @ trunc @ '' AS '' @ tc @ '' FROM '' @
                 quote_ident (tn_schema table) @ ''.'' @ quote_ident (tn_table table) @
                 '' WHERE '' @ trunc @ '' BETWEEN (SELECT MIN('' @ tc @ '') FROM '' @ agg_alias @
                 '') AND (SELECT MAX('' @ tc @ '') FROM '' @ agg_alias @ '')'')))"

definition axis_sql :: "ExpCtx \<Rightarrow> SemanticError + string" where
  "axis_sql ctx =
     rbind (case x_time_dims ctx of
              [one] \<Rightarrow> Inr one
            | _ \<Rightarrow> Inl (Compile ''window metrics need exactly one time-grained dimension''))
       (\<lambda>(time_member, grain).
       let tc = quote_ident time_member in
       rbind (spine_sql (c_time_spine (x_catalog ctx)) tc grain) (\<lambda>spine.
         let keys = map quote_ident (filter (\<lambda>d. d \<noteq> time_member) (q_dimensions (x_query ctx))) in
         if keys = [] then Inr spine
         else Inr (''SELECT '' @ join '', '' ((''__t.'' @ tc) # map (\<lambda>k. ''__k.'' @ k) keys) @ [nl] @
                ''FROM ('' @ spine @ '') AS __t'' @ [nl] @ ''CROSS JOIN (SELECT DISTINCT '' @
                join '', '' keys @ '' FROM '' @ agg_alias @ '') AS __k'')))"

definition query_time_dims :: "SemanticQuery \<Rightarrow> (string \<times> TimeGrain) list" where
  "query_time_dims q =
     concat (map (\<lambda>d. case split_on (CHR ''.'') d of
                        [_, _, grain] \<Rightarrow> (case grain_parse grain of Some g \<Rightarrow> [(d, g)] | None \<Rightarrow> [])
                      | _ \<Rightarrow> []) (q_dimensions q))"

text \<open>The loop over the requested measures: their projections, the expansion being threaded through.\<close>

fun expand_measures ::
  "ExpCtx \<Rightarrow> string list \<Rightarrow> Expansion \<Rightarrow> SemanticError + string list \<times> Expansion" where
  "expand_measures ctx [] st = Inr ([], st)"
| "expand_measures ctx (m # ms) st =
     rbind (if has_dot m then
              rbind (leaf (x_catalog ctx) m [] st) (\<lambda>(_, st1).
                Inr (agg_alias @ ''.'' @ quote_ident m @ '' AS '' @ quote_ident m, st1))
            else
              rbind (metric_expr ctx m [] [] st) (\<lambda>(expr, st1).
                Inr (expr @ '' AS '' @ quote_ident m, st1)))
       (\<lambda>(p, st1). rbind (expand_measures ctx ms st1) (\<lambda>(ps, st2). Inr (p # ps, st2)))"

definition inner_query :: "SemanticQuery \<Rightarrow> Expansion \<Rightarrow> SemanticQuery" where
  "inner_query q st = q\<lparr>q_measures := x_leaves st, q_order_by := [], q_limit := None\<rparr>"

definition query_ctx :: "SemanticCatalog \<Rightarrow> SemanticQuery \<Rightarrow> ExpCtx" where
  "query_ctx cat q =
     \<lparr>x_catalog = cat, x_query = q, x_time_dims = query_time_dims q,
      x_dims_alias = (if needs_axis cat q then axis_alias else agg_alias)\<rparr>"

definition compile_with_metrics_via ::
  "SemanticCatalog \<Rightarrow> SemanticQuery \<Rightarrow>
   (SemanticCatalog \<Rightarrow> SemanticQuery \<Rightarrow> SemanticError + string) \<Rightarrow> SemanticError + string" where
  "compile_with_metrics_via cat q compile_inner =
     (let ctx = query_ctx cat q;
          dim_projections = map (\<lambda>d. x_dims_alias ctx @ ''.'' @ quote_ident d @ '' AS '' @ quote_ident d)
            (q_dimensions q) in
      rbind (expand_measures ctx (q_measures q) empty_expansion) (\<lambda>(measure_projections, st).
      let projections = dim_projections @ measure_projections in
      rbind (compile_inner (augmented_catalog cat st) (inner_query q st)) (\<lambda>inner_sql.
      rbind (if needs_axis cat q then
               rbind (axis_sql ctx) (\<lambda>axis.
                 let on = join '' AND '' (map (\<lambda>d. axis_alias @ ''.'' @ quote_ident d @
                       '' IS NOT DISTINCT FROM '' @ agg_alias @ ''.'' @ quote_ident d) (q_dimensions q))
                 in Inr (''WITH '' @ agg_alias @ '' AS ('' @ [nl] @ inner_sql @ [nl] @ ''),'' @ [nl] @
                      axis_alias @ '' AS ('' @ [nl] @ axis @ [nl] @ '')'' @ [nl] @
                      ''SELECT '' @ join '', '' projections @ [nl] @ ''FROM '' @ axis_alias @ [nl] @
                      ''LEFT JOIN '' @ agg_alias @ '' ON '' @ on))
             else Inr (''SELECT '' @ join '', '' projections @ [nl] @ ''FROM ('' @ [nl] @ inner_sql @ [nl] @
                    '') AS '' @ agg_alias)) (\<lambda>sql.
      rbind (resolve_orders q) (\<lambda>orders.
        Inr (sql @ opt_clause ''ORDER BY '' '', '' orders @ limit_clause (q_limit q)))))))"

text \<open>
  For a rollup the metrics are expanded with no time dimensions and the plain alias; the expression is
  thrown away, only the leaves count.
\<close>

definition rollup_leaf_query :: "SemanticCatalog \<Rightarrow> SemanticQuery \<Rightarrow> SemanticQuery option" where
  "rollup_leaf_query cat q =
     (if needs_axis cat q then None
      else
        case expand_measures
          \<lparr>x_catalog = cat, x_query = q, x_time_dims = [], x_dims_alias = agg_alias\<rparr>
          (q_measures q) empty_expansion of
          Inl _ \<Rightarrow> None
        | Inr (_, st) \<Rightarrow> if x_synthetic st \<noteq> [] then None else Some (inner_query q st))"

subsection \<open>The whole compiler\<close>

text \<open>
  \<open>compile_sql\<close> calls itself through the metric pass, on a catalog without metrics.  The first argument
  bounds the depth of that recursion; two levels are enough, which is a theorem below.
\<close>

fun compile_sql_n ::
  "nat \<Rightarrow> (string list \<Rightarrow> string list) \<Rightarrow> SemanticCatalog \<Rightarrow> SemanticQuery \<Rightarrow> SemanticError + string" where
  "compile_sql_n 0 hash_iter cat q = Inl Diverges"
| "compile_sql_n (Suc n) hash_iter cat q =
     rbind (expand_segments cat q) (\<lambda>q.
       if q_measures q = [] \<and> q_dimensions q = [] then Inl EmptyQuery
       else if list_ex (\<lambda>m. \<not> has_dot m) (q_measures q)
       then compile_with_metrics_via cat q (compile_sql_n n hash_iter)
       else compile_members hash_iter cat q)"

definition compile_sql ::
  "(string list \<Rightarrow> string list) \<Rightarrow> SemanticCatalog \<Rightarrow> SemanticQuery \<Rightarrow> SemanticError + string" where
  "compile_sql = compile_sql_n 2"

subsection \<open>Choosing and reading a rollup\<close>

definition rollup_eligible :: "SemanticModel \<Rightarrow> string \<Rightarrow> bool" where
  "rollup_eligible model member =
     (case Option.bind (measure_member_name member) (find_measure model) of
        None \<Rightarrow> False
      | Some msr \<Rightarrow> is_rollup_safe (ms_agg msr))"

text \<open>
  \<open>candidate_rollup\<close> in two parts: the query with its segments and metrics expanded, and the checks on it.
\<close>

definition leaf_query :: "SemanticCatalog \<Rightarrow> SemanticQuery \<Rightarrow> SemanticQuery option" where
  "leaf_query cat q =
     Option.bind (res_ok (expand_segments cat q)) (\<lambda>q.
       if list_ex (\<lambda>m. \<not> has_dot m) (q_measures q) then rollup_leaf_query cat q else Some q)"

definition single_model :: "SemanticCatalog \<Rightarrow> SemanticQuery \<Rightarrow> string option" where
  "single_model cat q =
     (case measure_roots cat q of
        Inr roots \<Rightarrow> if length roots = 1 then Some (hd roots) else None
      | Inl _ \<Rightarrow> None)"

definition rollup_for :: "SemanticCatalog \<Rightarrow> SemanticQuery \<Rightarrow> RollupMatch option" where
  "rollup_for cat q =
     (if q_time_zone q \<noteq> None then None
      else Option.bind (single_model cat q) (\<lambda>rt.
        Option.bind (get_model cat rt) (\<lambda>model.
        Option.bind (res_ok (referenced_models cat q)) (\<lambda>referenced.
          if list_ex (\<lambda>m. m \<noteq> rt) referenced then None
          else if (case m_safety model of Some s \<Rightarrow> required_predicates s \<noteq> [] | None \<Rightarrow> False) then None
          else if \<not> list_all (rollup_eligible model) (q_measures q) then None
          else map_option (\<lambda>pre. \<lparr>rm_model = rt, rm_preagg = pa_name pre\<rparr>) (match_rollup model q)))))"

definition candidate_rollup :: "SemanticCatalog \<Rightarrow> SemanticQuery \<Rightarrow> RollupMatch option" where
  "candidate_rollup cat q = Option.bind (leaf_query cat q) (rollup_for cat)"

definition compile_rollup_sql ::
  "SemanticCatalog \<Rightarrow> SemanticQuery \<Rightarrow> RollupMatch \<Rightarrow> SemanticError + string" where
  "compile_rollup_sql cat q r =
     rbind (expand_segments cat q) (\<lambda>q.
       if list_ex (\<lambda>m. \<not> has_dot m) (q_measures q)
       then compile_with_metrics_via cat q (\<lambda>_ inner. rollup_measure_sql cat inner r)
       else rollup_measure_sql cat q r)"

subsection \<open>The search for window metrics\<close>

definition refers :: "SemanticCatalog \<Rightarrow> string \<Rightarrow> string \<Rightarrow> bool" where
  "refers cat a b \<longleftrightarrow> (\<exists>m. get_metric cat a = Some m \<and> b \<in> set (inlined m))"

definition window_metric :: "SemanticCatalog \<Rightarrow> string \<Rightarrow> bool" where
  "window_metric cat n \<longleftrightarrow> (\<exists>m. get_metric cat n = Some m \<and> is_window (mt_kind m))"

lemma has_window_sound:
  "has_window cat todo visited \<Longrightarrow> \<exists>w\<in>set todo. \<exists>n. (refers cat)\<^sup>*\<^sup>* w n \<and> window_metric cat n"
proof (induction cat todo visited rule: has_window.induct)
  case (2 cat name todo visited)
  show ?case
  proof (cases "get_metric cat name")
    case None
    with 2 show ?thesis by (auto simp: has_window.simps)
  next
    case (Some m)
    consider "name \<in> set visited" | "name \<notin> set visited" "is_window (mt_kind m)"
      | "name \<notin> set visited" "\<not> is_window (mt_kind m)" by blast
    then show ?thesis
    proof cases
      case 1
      with 2 Some show ?thesis by (auto simp: has_window.simps)
    next
      case 2
      with Some show ?thesis by (auto simp: window_metric_def)
    next
      case 3
      with 2(3) [OF Some] "2.prems" Some obtain w n where
        w: "w \<in> set (inlined m @ todo)" "(refers cat)\<^sup>*\<^sup>* w n" "window_metric cat n"
        by (auto simp: has_window.simps)
      show ?thesis
      proof (cases "w \<in> set todo")
        case False
        with w(1) Some have "refers cat name w" by (simp add: refers_def)
        with w(2,3) show ?thesis by (meson converse_rtranclp_into_rtranclp list.set_intros(1))
      qed (use w in auto)
    qed
  qed
qed (simp add: has_window.simps)

text \<open>What has been visited is no window metric, and its references are visited, still to do or unknown.\<close>

definition searched :: "SemanticCatalog \<Rightarrow> string list \<Rightarrow> string list \<Rightarrow> bool" where
  "searched cat todo visited \<longleftrightarrow>
     (\<forall>v\<in>set visited. \<not> window_metric cat v \<and>
        (\<forall>n. refers cat v n \<longrightarrow> n \<in> set visited \<union> set todo \<or> get_metric cat n = None))"

lemma unknown_metric:
  assumes "get_metric cat w = None" "(refers cat)\<^sup>*\<^sup>* w n"
  shows "\<not> window_metric cat n"
  using assms(2,1) by (cases rule: converse_rtranclpE) (auto simp: refers_def window_metric_def)

lemma has_window_complete:
  "\<not> has_window cat todo visited \<Longrightarrow> searched cat todo visited \<Longrightarrow>
     w \<in> set visited \<union> set todo \<Longrightarrow> (refers cat)\<^sup>*\<^sup>* w n \<Longrightarrow> \<not> window_metric cat n"
proof (induction cat todo visited arbitrary: w rule: has_window.induct)
  case (1 cat visited)
  from 1(4,3) have "n \<in> set visited \<or> get_metric cat n = None"
  proof (induction rule: rtranclp_induct)
    case (step y z)
    from step(2) have "get_metric cat y \<noteq> None" by (auto simp: refers_def)
    with step(2) step.IH [OF step.prems] 1(2) show ?case by (auto simp: searched_def)
  qed simp
  with 1(2) show ?case by (auto simp: searched_def window_metric_def)
next
  case (2 cat name todo visited)
  show ?case
  proof (cases "get_metric cat name")
    case None
    show ?thesis
    proof (cases "w \<in> set visited \<union> set todo")
      case True
      have "\<not> has_window cat todo visited" using 2(4) None by (simp add: has_window.simps)
      moreover have "searched cat todo visited" using 2(5) None by (fastforce simp: searched_def)
      ultimately show ?thesis using 2(1) [OF None] True 2(7) by blast
    next
      case False
      with 2(6) have "w = name" by simp
      with unknown_metric None 2(7) show ?thesis by blast
    qed
  next
    case (Some m)
    show ?thesis
    proof (cases "name \<in> set visited")
      case True
      have "\<not> has_window cat todo visited" using 2(4) Some True by (simp add: has_window.simps)
      moreover have "searched cat todo visited" using 2(5) True by (fastforce simp: searched_def)
      ultimately show ?thesis using 2(2) [OF Some True] True 2(6,7) by auto
    next
      case False
      have nw: "\<not> is_window (mt_kind m)" and
        h: "\<not> has_window cat (inlined m @ todo) (visited @ [name])"
        using 2(4) Some False by (auto simp: has_window.simps split: if_splits)
      have new: "\<not> window_metric cat name" "\<And>n. refers cat name n \<Longrightarrow> n \<in> set (inlined m)"
        using Some nw by (auto simp: window_metric_def refers_def)
      have "searched cat (inlined m @ todo) (visited @ [name])"
        using 2(5) new by (fastforce simp: searched_def)
      with 2(3) [OF Some False nw h] 2(6,7) show ?thesis by auto
    qed
  qed
qed

text \<open>
  The time axis is added to a query exactly when one of its metrics is a cumulative or offset metric
  or inlines one, through any number of ratios and derived metrics; the search ends even where metrics
  refer to each other in a cycle.
\<close>

lemma has_window_iff:
  "has_window cat [name] [] \<longleftrightarrow> (\<exists>n. (refers cat)\<^sup>*\<^sup>* name n \<and> window_metric cat n)"
proof
  show "has_window cat [name] [] \<Longrightarrow> \<exists>n. (refers cat)\<^sup>*\<^sup>* name n \<and> window_metric cat n"
    using has_window_sound [of cat "[name]" "[]"] by simp
  assume "\<exists>n. (refers cat)\<^sup>*\<^sup>* name n \<and> window_metric cat n"
  then show "has_window cat [name] []"
    using has_window_complete [of cat "[name]" "[]" name] by (auto simp: searched_def)
qed

subsection \<open>The depth of the recursion\<close>

lemma metric_free_expr: "c_metrics (x_catalog ctx) = [] \<Longrightarrow> metric_expr ctx m fs vis st = Inl (UnknownMetric m)"
  by (simp add: metric_expr.simps get_metric_def)

lemma metric_free_expand:
  "c_metrics (x_catalog ctx) = [] \<Longrightarrow> list_ex (\<lambda>m. \<not> has_dot m) ms \<Longrightarrow> \<exists>e. expand_measures ctx ms st = Inl e"
proof (induction ms arbitrary: st)
  case (Cons m ms)
  show ?case
  proof (cases "has_dot m")
    case True
    with Cons.prems(2) have "list_ex (\<lambda>m. \<not> has_dot m) ms" by simp
    from Cons.IH [OF Cons.prems(1) this] obtain e where "expand_measures ctx ms st' = Inl (e st')" for st'
      by metis
    with True show ?thesis
      by (cases "leaf (x_catalog ctx) m [] st") (auto split: prod.splits)
  qed (simp add: metric_free_expr Cons.prems(1))
qed simp

lemma metric_free_depth:
  assumes "c_metrics cat = []"
  shows "compile_sql_n (Suc n) hash_iter cat q = compile_sql_n 1 hash_iter cat q"
proof -
  have "compile_with_metrics_via cat q f = compile_with_metrics_via cat q g"
    if "list_ex (\<lambda>m. \<not> has_dot m) (q_measures q)" for q f g
    using metric_free_expand [of "query_ctx cat q" "q_measures q" empty_expansion] assms that
    by (auto simp: compile_with_metrics_via_def query_ctx_def Let_def)
  then show ?thesis by (auto intro!: rbind_cong)
qed

lemma via_cong:
  assumes "\<And>cat' q'. c_metrics cat' = [] \<Longrightarrow> f cat' q' = g cat' q'"
  shows "compile_with_metrics_via cat q f = compile_with_metrics_via cat q g"
  unfolding compile_with_metrics_via_def Let_def
  by (intro rbind_cong refl) (auto simp: augmented_catalog_def assms)

text \<open>
  The compiler's recursion through the metric pass is at most two calls deep, on every catalog and
  query: allowing more changes nothing, so \<open>compile_sql\<close> always returns.
\<close>

lemma compile_sql_depth: "compile_sql_n (n + 2) hash_iter cat q = compile_sql hash_iter cat q"
proof -
  have "compile_with_metrics_via cat q (compile_sql_n (Suc n) hash_iter) =
      compile_with_metrics_via cat q (compile_sql_n 1 hash_iter)" for q
    by (rule via_cong) (rule metric_free_depth)
  then show ?thesis by (auto simp: compile_sql_def numeral_2_eq_2 intro!: rbind_cong)
qed

subsection \<open>No internal error\<close>

lemma clean_leaf_op [clean_intros]: "clean (leaf cat m fs st)"
  unfolding leaf_def filtered_leaf_def Let_def
  by (auto intro!: clean_intros split: option.splits)

lemma clean_window [clean_intros]:
  "clean (window_axis ctx name)"
  "clean (cumulative_expr ctx name col window agg)"
  "clean (offset_expr ctx name col periods output)"
  "clean (spine_sql spine tc grain)"
  unfolding cumulative_expr_def offset_expr_def spine_sql_def Let_def
  by (auto simp: window_axis_def intro!: clean_intros split: list.splits option.splits)

lemma clean_axis_sql [clean_intros]: "clean (axis_sql ctx)"
  unfolding axis_sql_def Let_def by (auto intro!: clean_intros split: list.splits)

lemma clean_expr:
  "clean (metric_expr ctx name inh vis st)"
  "clean (member_expr ctx member fs vis st)"
  "clean (derived_expr ctx base vis rest st)"
proof (induction ctx name inh vis st and ctx member fs vis st and ctx base vis rest st
    rule: metric_expr_member_expr_derived_expr.induct)
  case (1 ctx name inh vis st)
  show ?case
    unfolding metric_expr.simps [of ctx name inh vis st] Let_def
    by (auto intro!: clean_intros 1 split: option.split MetricKind.split sum.split)
next
  case (2 ctx member fs vis st)
  then show ?case
    unfolding member_expr.simps [of ctx member fs vis st] by (auto intro!: clean_intros)
next
  case (3 ctx base vis rest st)
  show ?case
    unfolding derived_expr.simps [of ctx base vis rest st]
    by (auto intro!: clean_intros 3 split: option.split)
qed

lemma clean_expand_measures [clean_intros]: "clean (expand_measures ctx ms st)"
  by (induction ctx ms st rule: expand_measures.induct) (auto intro!: clean_intros clean_expr)

lemma clean_via:
  assumes "\<And>cat' q'. c_metrics cat' = [] \<Longrightarrow> clean (f cat' q')"
  shows "clean (compile_with_metrics_via cat q f)"
  unfolding compile_with_metrics_via_def Let_def
  by (auto intro!: clean_intros assms simp: augmented_catalog_def)

lemma clean_depth_1:
  assumes "\<And>xs. mset (hash_iter xs) = mset xs" "c_metrics cat = []"
  shows "clean (compile_sql_n 1 hash_iter cat q)"
proof -
  have "clean (compile_with_metrics_via cat q f)" if "list_ex (\<lambda>m. \<not> has_dot m) (q_measures q)" for q f
    using metric_free_expand [of "query_ctx cat q" "q_measures q" empty_expansion] assms(2) that
      clean_expand_measures [of "query_ctx cat q" "q_measures q" empty_expansion]
    by (auto simp: compile_with_metrics_via_def query_ctx_def Let_def)
  then show ?thesis
    by (auto intro!: clean_intros clean_compile_members assms(1))
qed

text \<open>
  C3. Compiling a query never panics, never loops and never reports a broken join tree: whatever the
  catalog, the query and the iteration order of the hash set, an error is one of those that blame the
  catalog or the query.
\<close>

theorem compile_sql_no_internal_error:
  assumes "\<And>xs. mset (hash_iter xs) = mset xs" "compile_sql hash_iter cat q = Inl e"
  shows "\<not> internal e"
proof -
  have "clean (compile_sql hash_iter cat q)"
    unfolding compile_sql_def numeral_2_eq_2 compile_sql_n.simps(2) [of "Suc 0"]
    by (auto intro!: clean_intros clean_via clean_compile_members assms(1) clean_depth_1 [unfolded One_nat_def])
  with assms(2) show ?thesis by simp
qed

definition fan_query :: SemanticQuery where
  "fan_query = shop_query\<lparr>q_dimensions := [''items.sku'']\<rparr>"

theorem compile_sql_no_internal_error_witness:
  "compile_sql rev shop fan_query = Inl (FanOut ''orders.total'' ''items'') \<and>
   \<not> internal (FanOut ''orders.total'' ''items'')"
proof -
  have "compile_sql rev shop fan_query = Inl (FanOut ''orders.total'' ''items'')" by code_simp
  with compile_sql_no_internal_error [of rev, OF mset_rev this] show ?thesis by blast
qed

subsection \<open>Cycles of metrics\<close>

lemma leaf_no_cycle [simp]: "leaf cat m fs st \<noteq> Inl (MetricCycle n)"
  by (auto simp: leaf_def filtered_leaf_def Let_def res_simps split: option.splits if_splits)

lemma window_no_cycle [simp]:
  "window_axis ctx name \<noteq> Inl (MetricCycle n)"
  by (auto simp: window_axis_def split: list.splits)

lemma window_expr_no_cycle [simp]:
  "cumulative_expr ctx name col window agg \<noteq> Inl (MetricCycle n)"
  "offset_expr ctx name col periods output \<noteq> Inl (MetricCycle n)"
  by (auto simp: cumulative_expr_def offset_expr_def Let_def res_simps)

lemma inlined_derived:
  assumes "mt_kind m = Derived expr" "derived_tokens expr = Inr ts"
  shows "set (inlined m) = {dt_member t |t. t \<in> set ts \<and> \<not> has_dot (dt_member t)}"
  using assms by (auto simp: inlined_def metric_references_def)

lemma inlined_ratio:
  "mt_kind m = Ratio num den \<Longrightarrow> set (inlined m) = {x \<in> {op_member num, op_member den}. \<not> has_dot x}"
  by (auto simp: inlined_def metric_references_def)

lemma derived_tokens_loop_Inr:
  "derived_tokens expr = Inr ts \<Longrightarrow> \<exists>r. derived_tokens_loop expr expr = Inr (ts, r)"
  by (auto simp: derived_tokens_def res_simps split: if_splits)

definition on_path :: "SemanticCatalog \<Rightarrow> string list \<Rightarrow> string \<Rightarrow> bool" where
  "on_path cat vis member \<longleftrightarrow> has_dot member \<or> (\<forall>v\<in>set vis. (refers cat)\<^sup>+\<^sup>+ v member)"

lemma on_path_step:
  assumes "\<forall>v\<in>set vis. (refers cat)\<^sup>+\<^sup>+ v name" "get_metric cat name = Some m" "x \<in> set (inlined m)"
  shows "on_path cat (vis @ [name]) x"
  using assms by (auto simp: on_path_def refers_def intro: tranclp.intros)

lemma metric_cycle_real:
  "(\<And>v. v \<in> set vis \<Longrightarrow> (refers (x_catalog ctx))\<^sup>+\<^sup>+ v name) \<Longrightarrow>
     metric_expr ctx name inh vis st = Inl (MetricCycle n) \<Longrightarrow> (refers (x_catalog ctx))\<^sup>+\<^sup>+ n n"
  "on_path (x_catalog ctx) vis member \<Longrightarrow>
     member_expr ctx member fs vis st = Inl (MetricCycle n) \<Longrightarrow> (refers (x_catalog ctx))\<^sup>+\<^sup>+ n n"
  "derived_tokens_loop e0 rest = Inr (ts, r) \<Longrightarrow> \<forall>t\<in>set ts. on_path (x_catalog ctx) vis (dt_member t) \<Longrightarrow>
     derived_expr ctx base vis rest st = Inl (MetricCycle n) \<Longrightarrow> (refers (x_catalog ctx))\<^sup>+\<^sup>+ n n"
proof (induction ctx name inh vis st and ctx member fs vis st and ctx base vis rest st
    arbitrary: and and e0 ts r rule: metric_expr_member_expr_derived_expr.induct)
  case (1 ctx name inh vis st)
  let ?cat = "x_catalog ctx"
  from 1(5) obtain m where m: "get_metric ?cat name = Some m"
    by (auto simp: metric_expr.simps split: option.splits)
  show ?case
  proof (cases "name \<in> set vis")
    case True
    with 1(5) m have "n = name" by (simp add: metric_expr.simps)
    with True 1(4) show ?thesis by blast
  next
    case False
    have step: "on_path ?cat (vis @ [name]) x" if "has_dot x \<or> x \<in> set (inlined m)" for x
    proof (cases "has_dot x")
      case False
      with that on_path_step [OF _ m] 1(4) show ?thesis by blast
    qed (simp add: on_path_def)
    show ?thesis
    proof (cases "mt_kind m")
      case (Ratio num den)
      have "on_path ?cat (vis @ [name]) (op_member num)" "on_path ?cat (vis @ [name]) (op_member den)"
        using step inlined_ratio [OF Ratio] by auto
      with 1(5) m False Ratio show ?thesis
        using 1(1) [OF m False refl refl Ratio] 1(2) [OF m False refl refl Ratio]
        by (auto simp: metric_expr.simps [of ctx name] Let_def rbind_eq_Inl)
    next
      case (Derived expr)
      with 1(5) m False obtain ts where ts: "derived_tokens expr = Inr ts"
        by (auto simp: metric_expr.simps [of ctx name] Let_def split: sum.splits)
      from derived_tokens_loop_Inr [OF ts] obtain r where "derived_tokens_loop expr expr = Inr (ts, r)" ..
      moreover have "\<forall>t\<in>set ts. on_path ?cat (vis @ [name]) (dt_member t)"
        using step inlined_derived [OF Derived ts] by blast
      ultimately show ?thesis
        using 1(3) [OF m False refl refl Derived ts] 1(5) m False Derived ts
        by (auto simp: metric_expr.simps [of ctx name] Let_def)
    qed (use 1(5) m False in \<open>auto simp: metric_expr.simps [of ctx name] Let_def rbind_eq_Inl split: option.splits\<close>)
  qed
next
  case (2 ctx member fs vis st)
  then show ?case by (auto simp: member_expr.simps res_simps on_path_def split: if_splits)
next
  case (3 ctx base vis rest st)
  show ?case
  proof (cases "split_once (CHR ''{'') rest")
    case None
    with 3(5) show ?thesis by (simp add: derived_expr.simps)
  next
    case (Some ba)
    then obtain before after where ba: "split_once (CHR ''{'') rest = Some (before, after)" by (cases ba) simp
    show ?thesis
    proof (cases "split_once (CHR ''}'') after")
      case None
      with 3(5) ba show ?thesis by (simp add: derived_expr.simps)
    next
      case (Some br)
      then obtain body rest' where br: "split_once (CHR ''}'') after = Some (body, rest')" by (cases br) simp
      from 3(3) ba br obtain ts' where ts: "derived_tokens_loop e0 rest' = Inr (ts', r)"
        "ts = \<lparr>dt_member = fst (split_token body), dt_filter = snd (split_token body)\<rparr> # ts'"
        by (subst (asm) derived_tokens_loop.simps)
          (auto simp: res_simps split_beta Let_def split: if_splits)
      with 3(4) have path: "on_path (x_catalog ctx) vis (fst (split_token body))"
        "\<forall>t\<in>set ts'. on_path (x_catalog ctx) vis (dt_member t)" by auto
      from 3(5) ba br show ?thesis
        using 3(1) [OF ba refl br refl path(1)] 3(2) [OF ba refl br refl _ _ ts(1) path(2)]
        by (auto simp: derived_expr.simps [of ctx base vis rest] rbind_eq_Inl)
    qed
  qed
qed

definition acyclic_below :: "SemanticCatalog \<Rightarrow> string list \<Rightarrow> string \<Rightarrow> bool" where
  "acyclic_below cat vis x \<longleftrightarrow>
     has_dot x \<or> (\<forall>y. (refers cat)\<^sup>*\<^sup>* x y \<longrightarrow> y \<notin> set vis \<and> \<not> (refers cat)\<^sup>+\<^sup>+ y y)"

lemma acyclic_below_step:
  assumes m: "get_metric cat name = Some m" and new: "name \<notin> set vis"
    and sub: "\<forall>x\<in>set (inlined m). acyclic_below cat (vis @ [name]) x"
    and y: "(refers cat)\<^sup>*\<^sup>* name y"
  shows "y \<notin> set vis \<and> \<not> (refers cat)\<^sup>+\<^sup>+ y y"
proof -
  have below: "(refers cat)\<^sup>*\<^sup>* x z \<Longrightarrow> z \<notin> set (vis @ [name]) \<and> \<not> (refers cat)\<^sup>+\<^sup>+ z z" if "refers cat name x" for x z
    using that sub m by (auto simp: refers_def acyclic_below_def inlined_def split: MetricKind.splits)
  from y show ?thesis
  proof (cases rule: converse_rtranclpE)
    case base
    have "\<not> (refers cat)\<^sup>+\<^sup>+ name name"
      using below by (metis in_set_conv_decomp tranclpD)
    with base new show ?thesis by simp
  next
    case (step x)
    with below show ?thesis by auto
  qed
qed

lemma metric_ok_acyclic:
  "metric_expr ctx name inh vis st = Inr res \<Longrightarrow> (refers (x_catalog ctx))\<^sup>*\<^sup>* name y \<Longrightarrow>
     y \<notin> set vis \<and> \<not> (refers (x_catalog ctx))\<^sup>+\<^sup>+ y y"
  "member_expr ctx member fs vis st = Inr res \<Longrightarrow> acyclic_below (x_catalog ctx) vis member"
  "derived_expr ctx base vis rest st = Inr res \<Longrightarrow> derived_tokens_loop e0 rest = Inr (ts, r) \<Longrightarrow>
     \<forall>t\<in>set ts. acyclic_below (x_catalog ctx) vis (dt_member t)"
proof (induction ctx name inh vis st and ctx member fs vis st and ctx base vis rest st
    arbitrary: res y and res and res e0 ts r rule: metric_expr_member_expr_derived_expr.induct)
  case (1 ctx name inh vis st)
  let ?cat = "x_catalog ctx"
  from 1(4) obtain m where m: "get_metric ?cat name = Some m" and new: "name \<notin> set vis"
    by (auto simp: metric_expr.simps split: option.splits if_splits)
  have "\<forall>x\<in>set (inlined m). acyclic_below ?cat (vis @ [name]) x"
  proof (cases "mt_kind m")
    case (Ratio num den)
    then show ?thesis
      using 1(1) [OF m new refl refl Ratio] 1(2) [OF m new refl refl Ratio] 1(4) m new
      by (auto simp: metric_expr.simps [of ctx name] Let_def rbind_eq_Inr inlined_ratio)
  next
    case (Derived expr)
    with 1(4) m new obtain ts where ts: "derived_tokens expr = Inr ts"
      by (auto simp: metric_expr.simps [of ctx name] Let_def split: sum.splits)
    from derived_tokens_loop_Inr [OF ts] obtain r where "derived_tokens_loop expr expr = Inr (ts, r)" ..
    moreover have "derived_expr ctx (case mt_filter m of Some f \<Rightarrow> inh @ [f] | None \<Rightarrow> inh)
        (vis @ [name]) expr st = Inr res"
      using 1(4) m new Derived ts by (simp add: metric_expr.simps [of ctx name] Let_def)
    ultimately show ?thesis
      using 1(3) [OF m new refl refl Derived ts] unfolding inlined_derived [OF Derived ts] by blast
  qed (auto simp: inlined_def)
  from acyclic_below_step [OF m new this 1(5)] show ?case .
next
  case (2 ctx member fs vis st)
  then show ?case by (auto simp: member_expr.simps acyclic_below_def split: if_splits)
next
  case (3 ctx base vis rest st)
  show ?case
  proof (cases "ts = []")
    case False
    with 3(4) obtain before after body rest' ts' where
      ba: "split_once (CHR ''{'') rest = Some (before, after)" and
      br: "split_once (CHR ''}'') after = Some (body, rest')" and
      ts: "derived_tokens_loop e0 rest' = Inr (ts', r)"
        "ts = \<lparr>dt_member = fst (split_token body), dt_filter = snd (split_token body)\<rparr> # ts'"
      by (subst (asm) derived_tokens_loop.simps)
        (auto simp: res_simps split_beta Let_def split: if_splits option.splits)
    from 3(3) ba br show ?thesis
      using 3(1) [OF ba refl br refl] 3(2) [OF ba refl br refl _ refl _ ts(1)] ts(2)
      by (auto simp: derived_expr.simps [of ctx base vis rest] rbind_eq_Inr)
  qed simp
qed

text \<open>
  A metric cycle is reported only for a metric that really refers back to itself, and a metric that is
  rendered has no cycle anywhere among the metrics it inlines, directly or through others.
\<close>

lemma metric_cycles_exact:
  "(metric_expr ctx name [] [] st = Inl (MetricCycle n) \<longrightarrow> (refers (x_catalog ctx))\<^sup>+\<^sup>+ n n) \<and>
   (metric_expr ctx name [] [] st = Inr res \<longrightarrow> (refers (x_catalog ctx))\<^sup>*\<^sup>* name y \<longrightarrow>
      \<not> (refers (x_catalog ctx))\<^sup>+\<^sup>+ y y)"
  using metric_cycle_real(1) [of "[]" ctx name "[]" st n] metric_ok_acyclic(1) [of ctx name "[]" "[]" st res y]
  by auto

definition derived_metric :: "string \<Rightarrow> string \<Rightarrow> Metric" where
  "derived_metric name expr = \<lparr>mt_name = name, mt_description = None, mt_kind = Derived expr,
     mt_filter = None, mt_format = None\<rparr>"

definition loop_catalog :: SemanticCatalog where
  "loop_catalog = new_with_metrics [] [derived_metric ''a'' ''1 + {b}'', derived_metric ''b'' ''{a} * 2'']"

subsection \<open>Leaves\<close>

lemma of_char_digit: "n < 10 \<Longrightarrow> of_char (digit_char n) = 48 + n"
  by (simp add: digit_char_def)

lemma digits_val_show: "digits_val (show_nat n) = n"
proof (induction n rule: show_nat.induct)
  case (1 n)
  then show ?case
    by (cases "n < 10") (simp_all add: show_nat.simps [of n] digits_val_def of_char_digit)
qed

lemma show_nat_inj: "show_nat i = show_nat j \<Longrightarrow> i = j"
  by (metis digits_val_show)

lemma show_nat_chars: "c \<in> set (show_nat n) \<Longrightarrow> c \<noteq> CHR ''_''"
proof (induction n rule: show_nat.induct)
  case (1 n)
  have digit: "digit_char d \<noteq> CHR ''_''" if "d < 10" for d
    using of_char_digit [OF that] that by auto
  have "digit_char (n mod 10) \<noteq> CHR ''_''" by (rule digit) simp
  with 1 digit [of n] show ?case by (cases "n < 10") (auto simp: show_nat.simps [of n])
qed

lemma synthetic_name_inj: "synthetic_name i a = synthetic_name j b \<Longrightarrow> i = j"
proof -
  assume "synthetic_name i a = synthetic_name j b"
  then have "show_nat i @ CHR ''_'' # a = show_nat j @ CHR ''_'' # b"
    by (simp add: synthetic_name_def)
  then have "takeWhile (\<lambda>c. c \<noteq> CHR ''_'') (show_nat i @ CHR ''_'' # a) =
      takeWhile (\<lambda>c. c \<noteq> CHR ''_'') (show_nat j @ CHR ''_'' # b)" by simp
  then show ?thesis by (simp add: takeWhile_append2 show_nat_chars show_nat_inj)
qed

text \<open>
  The contract of the expansion: whatever registering a leaf keeps true, rendering metrics keeps true.
\<close>

locale expansion_rule =
  fixes cat :: SemanticCatalog and inv :: "Expansion \<Rightarrow> bool"
  assumes leaf_keeps: "inv st \<Longrightarrow> leaf cat m fs st = Inr (c, st') \<Longrightarrow> inv st'"
begin

lemma expr_keeps:
  "x_catalog ctx = cat \<Longrightarrow> metric_expr ctx name inh vis st = Inr (e, st') \<Longrightarrow> inv st \<Longrightarrow> inv st'"
  "x_catalog ctx = cat \<Longrightarrow> member_expr ctx member fs vis st = Inr (e, st') \<Longrightarrow> inv st \<Longrightarrow> inv st'"
  "x_catalog ctx = cat \<Longrightarrow> derived_expr ctx base vis rest st = Inr (e, st') \<Longrightarrow> inv st \<Longrightarrow> inv st'"
proof (induction ctx name inh vis st and ctx member fs vis st and ctx base vis rest st
    arbitrary: e st' and e st' and e st' rule: metric_expr_member_expr_derived_expr.induct)
  case (1 ctx name inh vis st)
  from 1(5) obtain m where m: "get_metric (x_catalog ctx) name = Some m" and new: "name \<notin> set vis"
    by (auto simp: metric_expr.simps split: option.splits if_splits)
  note step = 1(5) [unfolded metric_expr.simps [of ctx name] Let_def]
  show ?case
  proof (cases "mt_kind m")
    case (Ratio num den)
    with step m new 1(1) [OF m new refl refl Ratio 1(4)] 1(2) [OF m new refl refl Ratio _ _ 1(4)] 1(6)
    show ?thesis by (auto simp: rbind_eq_Inr)
  next
    case (Derived expr)
    with step m new obtain ts where ts: "derived_tokens expr = Inr ts" by (auto split: sum.splits)
    from 1(3) [OF m new refl refl Derived ts 1(4)] step m new Derived ts 1(6) show ?thesis by auto
  qed (use step m new 1(4,6) leaf_keeps in \<open>auto simp: rbind_eq_Inr split: option.splits\<close>)
next
  case (2 ctx member fs vis st)
  then show ?case using leaf_keeps by (auto simp: member_expr.simps rbind_eq_Inr split: if_splits)
next
  case (3 ctx base vis rest st)
  note step = 3(4) [unfolded derived_expr.simps [of ctx base vis rest]]
  show ?case
  proof (cases "split_once (CHR ''{'') rest")
    case None
    with step 3(5) show ?thesis by simp
  next
    case (Some ba)
    then obtain before after where ba: "split_once (CHR ''{'') rest = Some (before, after)" by (cases ba) simp
    show ?thesis
    proof (cases "split_once (CHR ''}'') after")
      case None
      with step ba 3(5) show ?thesis by simp
    next
      case (Some br)
      then obtain body rest' where br: "split_once (CHR ''}'') after = Some (body, rest')" by (cases br) simp
      from step ba br 3(1) [OF ba refl br refl 3(3)] 3(2) [OF ba refl br refl _ refl 3(3)] 3(5)
      show ?thesis by (auto simp: rbind_eq_Inr)
    qed
  qed
qed

lemma expand_keeps:
  "expand_measures ctx ms st = Inr (ps, st') \<Longrightarrow> x_catalog ctx = cat \<Longrightarrow> inv st \<Longrightarrow> inv st'"
proof (induction ms arbitrary: ps st)
  case (Cons m ms)
  from Cons.prems(1) obtain st1 ps' where rest: "expand_measures ctx ms st1 = Inr (ps', st')"
    and "\<exists>e. (has_dot m \<and> leaf (x_catalog ctx) m [] st = Inr (e, st1)) \<or>
      (\<not> has_dot m \<and> metric_expr ctx m [] [] st = Inr (e, st1))"
    by (auto simp: rbind_eq_Inr split: if_splits)
  then have "inv st1" using leaf_keeps expr_keeps(1) Cons.prems(2,3) by blast
  from Cons.IH [OF rest Cons.prems(2) this] show ?case .
qed simp

end

text \<open>The entry at position \<open>i\<close> of the leaf index: the member itself, or its \<open>i\<close>-th synthetic name.\<close>

definition leaf_entry :: "nat \<Rightarrow> (string \<times> string list) \<times> string \<Rightarrow> bool" where
  "leaf_entry i entry \<longleftrightarrow>
     (case entry of ((member, fs), col) \<Rightarrow>
        if fs = [] then col = member
        else \<exists>model mname. CHR ''.'' \<notin> set model \<and> member = model @ ''.'' @ mname \<and>
               col = model @ ''.'' @ synthetic_name i mname)"

definition leaf_inv :: "Expansion \<Rightarrow> bool" where
  "leaf_inv st \<longleftrightarrow> distinct (map fst (x_leaf_index st)) \<and> x_leaves st = map snd (x_leaf_index st) \<and>
     (\<forall>i<length (x_leaf_index st). leaf_entry i (x_leaf_index st ! i))"

lemma hm_insert_fresh: "hm_get m k = None \<Longrightarrow> hm_insert k v m = m @ [(k, v)]"
  by (induction k v m rule: hm_insert.induct) (auto split: if_splits)

lemma filtered_leaf_Inr:
  assumes "filtered_leaf cat member fs st = Inr (col, st')" "fs \<noteq> []"
  shows "x_leaf_index st' = x_leaf_index st \<and> x_leaves st' = x_leaves st \<and>
    leaf_entry (length (x_leaf_index st)) ((member, fs), col)"
proof -
  from assms(1) have "x_leaf_index st' = x_leaf_index st \<and> x_leaves st' = x_leaves st \<and>
     (\<exists>model mname. CHR ''.'' \<notin> set model \<and> member = model @ ''.'' @ mname \<and>
        col = model @ ''.'' @ synthetic_name (length (x_leaf_index st)) mname)"
    by (auto simp: filtered_leaf_def res_simps Let_def split_once_Some_iff)
  with assms(2) show ?thesis by (simp add: leaf_entry_def)
qed

lemma leaf_entry_plain: "leaf_entry i ((member, []), member)"
  by (simp add: leaf_entry_def)

lemma sort_Nil_iff [simp]: "sort fs = [] \<longleftrightarrow> fs = []"
  by (metis set_empty set_sort)

lemma leaf_inv_leaf:
  assumes "leaf_inv st" "leaf cat m fs st = Inr (c, st')"
  shows "leaf_inv st'"
proof (cases "hm_get (x_leaf_index st) (m, remdups_adj (sort fs))")
  case (Some col)
  with assms show ?thesis by (simp add: leaf_def Let_def)
next
  case None
  let ?key = "(m, remdups_adj (sort fs))"
  from assms(2) None obtain st1 where
    st1: "x_leaf_index st1 = x_leaf_index st" "x_leaves st1 = x_leaves st"
      "leaf_entry (length (x_leaf_index st)) (?key, c)"
    and st': "st' = st1\<lparr>x_leaves := x_leaves st1 @ [c],
        x_leaf_index := hm_insert ?key c (x_leaf_index st1)\<rparr>"
    by (cases "fs = []") (auto simp: leaf_def Let_def rbind_eq_Inr leaf_entry_plain
        dest!: filtered_leaf_Inr)
  have "?key \<notin> fst ` set (x_leaf_index st)" using None by (simp add: map_of_eq_None_iff)
  with assms(1) None st1 st' show ?thesis
    by (auto simp: leaf_inv_def hm_insert_fresh nth_append less_Suc_eq)
qed

interpretation leaves: expansion_rule cat leaf_inv for cat
  by unfold_locales (rule leaf_inv_leaf)

text \<open>
  Every combination of a member and a set of filters has its own column: when the measures of a query
  expand, the inner query has one leaf per combination, no two of them share a column, and an unfiltered
  leaf keeps its name.  (Provided no measure of the catalog has a name of the reserved form \<open>__mf...\<close>.)
\<close>

lemma expansion_leaves_distinct:
  assumes "expand_measures ctx ms empty_expansion = Inr (ps, st)"
    and "\<forall>((member, fs), col) \<in> set (x_leaf_index st). \<forall>model rest.
      fs = [] \<longrightarrow> CHR ''.'' \<notin> set model \<longrightarrow> member \<noteq> model @ ''.__mf'' @ rest"
  shows "x_leaves st = map snd (x_leaf_index st) \<and> distinct (x_leaves st) \<and>
    distinct (map fst (x_leaf_index st)) \<and>
    (\<forall>((member, fs), col) \<in> set (x_leaf_index st). fs = [] \<longrightarrow> col = member)"
proof -
  let ?ix = "x_leaf_index st"
  have "leaf_inv empty_expansion" by (simp add: leaf_inv_def empty_expansion_def)
  from leaves.expand_keeps [OF assms(1) refl this] have
    inv: "distinct (map fst ?ix)" "x_leaves st = map snd ?ix" "\<forall>i<length ?ix. leaf_entry i (?ix ! i)"
    by (auto simp: leaf_inv_def)
  have "map snd ?ix ! i \<noteq> map snd ?ix ! j" if ij: "i < length ?ix" "j < length ?ix" "i \<noteq> j" for i j
  proof -
    obtain a fs c b gs d where e: "?ix ! i = ((a, fs), c)" "?ix ! j = ((b, gs), d)" by (metis prod.exhaust)
    have keys: "(a, fs) \<noteq> (b, gs)" using nth_eq_iff_index_eq [OF inv(1), of i j] ij e by auto
    have mem: "((a, fs), c) \<in> set ?ix" "((b, gs), d) \<in> set ?ix" using e ij nth_mem by metis+
    have "c \<noteq> d"
    proof
      assume eq: "c = d"
      from inv(3) ij(1,2) e have ent: "leaf_entry i ((a, fs), c)" "leaf_entry j ((b, gs), d)" by metis+
      have syn: "\<exists>model mname. CHR ''.'' \<notin> set model \<and> col = model @ ''.__mf'' @ (show_nat k @ ''_'' @ mname)"
        if "leaf_entry k ((x, hs), col)" "hs \<noteq> []" for k x hs col
        using that by (auto simp: leaf_entry_def synthetic_name_def)
      show False
      proof (cases "fs = [] \<or> gs = []")
        case True
        with keys eq ent assms(2) mem syn [OF ent(1)] syn [OF ent(2)] show False
          by (fastforce simp: leaf_entry_def split: if_splits)
      next
        case False
        with ent obtain m1 n1 m2 n2 where cd: "CHR ''.'' \<notin> set m1" "CHR ''.'' \<notin> set m2"
          "c = m1 @ CHR ''.'' # synthetic_name i n1" "d = m2 @ CHR ''.'' # synthetic_name j n2"
          by (auto simp: leaf_entry_def)
        have "Some (m1, synthetic_name i n1) = split_once (CHR ''.'') c" unfolding cd(3) by (simp add: cd(1))
        also have "\<dots> = Some (m2, synthetic_name j n2)" unfolding eq cd(4) by (simp add: cd(2))
        finally show False using ij(3) synthetic_name_inj by blast
      qed
    qed
    with e ij(1,2) show ?thesis by simp
  qed
  then have "distinct (map snd ?ix)" by (simp add: distinct_conv_nth)
  moreover have "\<forall>((member, fs), col) \<in> set ?ix. fs = [] \<longrightarrow> col = member"
    using inv(3) by (fastforce simp: leaf_entry_def in_set_conv_nth)
  ultimately show ?thesis using inv(1,2) by simp
qed

definition rate_metric :: Metric where
  "rate_metric = \<lparr>mt_name = ''rate'', mt_description = None,
     mt_kind = Ratio \<lparr>op_member = ''orders.total'', op_filter = Some ''x''\<rparr>
       \<lparr>op_member = ''orders.total'', op_filter = None\<rparr>,
     mt_filter = None, mt_format = None\<rparr>"

definition shop_rate :: SemanticCatalog where
  "shop_rate = new_with_metrics [shop_orders, shop_customers, shop_items] [rate_metric]"

definition rate_query :: SemanticQuery where
  "rate_query = shop_query\<lparr>q_measures := [''rate'', ''orders.total''], q_order_by := []\<rparr>"

lemma rate_expands:
  "case expand_measures (query_ctx shop_rate rate_query) [''rate'', ''orders.total''] empty_expansion of
     Inl _ \<Rightarrow> False
   | Inr (ps, st) \<Rightarrow> x_leaf_index st =
       [((''orders.total'', [''x'']), ''orders.__mf0_total''), ((''orders.total'', []), ''orders.total'')]"
  by code_simp

subsection \<open>Guard rails under metrics\<close>

lemma fold_augment_get:
  assumes "distinct (map fst syn)"
  shows "hm_get (fold (\<lambda>(model_name, extra) models.
        case hm_get models model_name of
          None \<Rightarrow> models
        | Some model \<Rightarrow> hm_insert model_name (model\<lparr>m_measures := m_measures model @ extra\<rparr>) models)
        syn models) k =
    map_option (\<lambda>model. case hm_get syn k of None \<Rightarrow> model
      | Some extra \<Rightarrow> model\<lparr>m_measures := m_measures model @ extra\<rparr>) (hm_get models k)"
  using assms
proof (induction syn arbitrary: models)
  case (Cons s syn)
  obtain n extra where s: "s = (n, extra)" by (cases s)
  from Cons.prems s have n: "hm_get syn n = None" by (simp add: map_of_eq_None_iff)
  with Cons s show ?case by (auto split: option.splits)
qed (simp add: option.map_id0 [unfolded id_def])

definition synthetic_keys :: "Expansion \<Rightarrow> bool" where
  "synthetic_keys st \<longleftrightarrow> distinct (map fst (x_synthetic st))"

interpretation syn_keys: expansion_rule cat synthetic_keys for cat
proof
  fix st m fs c st'
  assume "synthetic_keys st" "leaf cat m fs st = Inr (c, st')"
  then show "synthetic_keys st'"
    by (auto simp: leaf_def filtered_leaf_def synthetic_keys_def Let_def res_simps hm_distinct_insert
        split: option.splits if_splits)
qed

lemma augmented_get:
  assumes "expand_measures ctx ms empty_expansion = Inr (ps, st)"
  shows "get_model (augmented_catalog cat st) m =
    map_option (\<lambda>model. case hm_get (x_synthetic st) m of None \<Rightarrow> model
      | Some extra \<Rightarrow> model\<lparr>m_measures := m_measures model @ extra\<rparr>) (get_model cat m)"
proof -
  have "synthetic_keys empty_expansion" by (simp add: synthetic_keys_def empty_expansion_def)
  from syn_keys.expand_keeps [OF assms refl this] have "distinct (map fst (x_synthetic st))"
    by (simp add: synthetic_keys_def)
  from fold_augment_get [OF this, of "c_models cat" m] show ?thesis
    by (simp add: get_model_def augmented_catalog_def)
qed

lemma hm_insert_known: "hm_get m k \<noteq> None \<Longrightarrow> map fst (hm_insert k v m) = map fst m"
  by (induction k v m rule: hm_insert.induct) auto

lemma augmented_keys: "map fst (c_models (augmented_catalog cat st)) = map fst (c_models cat)"
proof -
  have "map fst (fold (\<lambda>(model_name, extra) models.
        case hm_get models model_name of
          None \<Rightarrow> models
        | Some model \<Rightarrow> hm_insert model_name (model\<lparr>m_measures := m_measures model @ extra\<rparr>) models)
        syn models) = map fst models" for syn models
  proof (induction syn arbitrary: models)
    case (Cons s syn)
    then show ?case by (cases s) (auto simp: hm_insert_known split: option.split)
  qed simp
  then show ?thesis by (simp add: augmented_catalog_def)
qed

text \<open>Two catalogs with the same keys, names and relationships have the same join graph.\<close>

lemma adjacency_cong:
  assumes "map fst (c_models cat) = map fst (c_models cat')"
    and "\<And>k. map_option (\<lambda>m. (m_name m, m_relationships m)) (get_model cat k) =
      map_option (\<lambda>m. (m_name m, m_relationships m)) (get_model cat' k)"
  shows "adjacency cat = adjacency cat'"
proof -
  have known: "get_model cat k = None \<longleftrightarrow> get_model cat' k = None" for k
    using assms(2) [of k] by (cases "get_model cat k"; cases "get_model cat' k") simp_all
  have add: "add_relationship cat m = add_relationship cat' m'"
    if "m_name m = m_name m'" for m m' :: SemanticModel
    using that by (intro ext) (simp add: add_relationship_def known)
  have "(case get_model cat k of None \<Rightarrow> adj
        | Some m \<Rightarrow> fold (add_relationship cat m) (m_relationships m) adj) =
      (case get_model cat' k of None \<Rightarrow> adj
        | Some m \<Rightarrow> fold (add_relationship cat' m) (m_relationships m) adj)" for k adj
    using assms(2) [of k] add by (cases "get_model cat k"; cases "get_model cat' k") auto
  then show ?thesis unfolding adjacency_def by (simp add: assms(1))
qed

lemma augmented_same:
  assumes "expand_measures ctx ms empty_expansion = Inr (ps, st)"
  shows "adjacency (augmented_catalog cat st) = adjacency cat"
    and "model_safety (augmented_catalog cat st) m = model_safety cat m"
proof -
  note get = augmented_get [OF assms, of cat]
  show "adjacency (augmented_catalog cat st) = adjacency cat"
  proof (rule adjacency_cong [OF augmented_keys])
    fix k
    show "map_option (\<lambda>m. (m_name m, m_relationships m)) (get_model (augmented_catalog cat st) k) =
        map_option (\<lambda>m. (m_name m, m_relationships m)) (get_model cat k)"
      unfolding get by (cases "get_model cat k"; cases "hm_get (x_synthetic st) k") simp_all
  qed
  show "model_safety (augmented_catalog cat st) m = model_safety cat m"
    unfolding model_safety_def get by (cases "get_model cat m") (auto split: option.splits)
qed

lemma metrics_core:
  assumes "(if b then rbind ax (\<lambda>axis. Inr (p @ inner @ A axis)) else Inr (p' @ inner @ B)) = Inr core"
  shows "\<exists>pre post. core = pre @ inner @ post"
  using assms by (cases b) (auto simp: rbind_eq_Inr)

lemma via_Inr:
  assumes "compile_with_metrics_via cat q f = Inr sql"
  shows "\<exists>ps st inner.
    expand_measures (query_ctx cat q) (q_measures q) empty_expansion = Inr (ps, st) \<and>
    f (augmented_catalog cat st) (inner_query q st) = Inr inner \<and> (\<exists>pre post. sql = pre @ inner @ post)"
proof -
  from assms obtain ps st inner where
    e: "expand_measures (query_ctx cat q) (q_measures q) empty_expansion = Inr (ps, st)" and
    i: "f (augmented_catalog cat st) (inner_query q st) = Inr inner"
    by (auto simp: compile_with_metrics_via_def Let_def rbind_eq_Inr)
  let ?ctx = "query_ctx cat q"
  let ?on = "join '' AND '' (map (\<lambda>d. axis_alias @ ''.'' @ quote_ident d @
        '' IS NOT DISTINCT FROM '' @ agg_alias @ ''.'' @ quote_ident d) (q_dimensions q))"
  let ?projs = "map (\<lambda>d. x_dims_alias ?ctx @ ''.'' @ quote_ident d @ '' AS '' @ quote_ident d)
        (q_dimensions q) @ ps"
  from assms e i obtain core post where sql: "sql = core @ post" and
    core: "(if needs_axis cat q then rbind (axis_sql ?ctx) (\<lambda>axis.
        Inr ((''WITH '' @ agg_alias @ '' AS ('' @ [nl]) @ inner @ ([nl] @ ''),'' @ [nl] @ axis_alias @ '' AS ('' @
          [nl] @ axis @ [nl] @ '')'' @ [nl] @ ''SELECT '' @ join '', '' ?projs @ [nl] @ ''FROM '' @ axis_alias @
          [nl] @ ''LEFT JOIN '' @ agg_alias @ '' ON '' @ ?on)))
      else Inr ((''SELECT '' @ join '', '' ?projs @ [nl] @ ''FROM ('' @ [nl]) @ inner @
        ([nl] @ '') AS '' @ agg_alias))) = Inr core"
    unfolding compile_with_metrics_via_def Let_def append_assoc
    by (simp only: rbind_simps prod.case) (auto simp only: rbind_eq_Inr sum.inject append_assoc)
  from metrics_core [OF core] sql e i show ?thesis by (metis append_assoc)
qed


lemma rate_expansion:
  "\<exists>ps st. expand_measures (query_ctx shop_rate rate_query) [''rate'', ''orders.total''] empty_expansion =
     Inr (ps, st) \<and> x_leaves st = [''orders.__mf0_total'', ''orders.total''] \<and>
     x_synthetic st = [(''orders'', [\<lparr>ms_name = ''__mf0_total'', ms_agg = Sum, ms_expr = ''amount'',
       ms_filters = [''x''], ms_format = None, ms_description = None\<rparr>])]"
proof -
  have "case expand_measures (query_ctx shop_rate rate_query) [''rate'', ''orders.total''] empty_expansion of
      Inl _ \<Rightarrow> False | Inr (ps, st) \<Rightarrow> x_leaves st = [''orders.__mf0_total'', ''orders.total''] \<and>
     x_synthetic st = [(''orders'', [\<lparr>ms_name = ''__mf0_total'', ms_agg = Sum, ms_expr = ''amount'',
       ms_filters = [''x''], ms_format = None, ms_description = None\<rparr>])]" by code_simp
  then show ?thesis by (auto split: sum.splits)
qed

lemma rate_compiles: "\<exists>sql. compile_sql rev shop_rate rate_query = Inr sql"
proof -
  obtain ps st where st:
    "expand_measures (query_ctx shop_rate rate_query) (q_measures rate_query) empty_expansion = Inr (ps, st)"
    "x_leaves st = [''orders.__mf0_total'', ''orders.total'']"
    "x_synthetic st = [(''orders'', [\<lparr>ms_name = ''__mf0_total'', ms_agg = Sum, ms_expr = ''amount'',
       ms_filters = [''x''], ms_format = None, ms_description = None\<rparr>])]"
    using rate_expansion by (auto simp: rate_query_def)
  let ?st = "\<lparr>x_leaves = x_leaves st, x_leaf_index = [], x_synthetic = x_synthetic st\<rparr>"
  have same: "augmented_catalog shop_rate st = augmented_catalog shop_rate ?st"
    "inner_query rate_query st = inner_query rate_query ?st"
    by (simp_all add: augmented_catalog_def inner_query_def)
  have "res_ok (compile_sql_n 1 rev (augmented_catalog shop_rate ?st) (inner_query rate_query ?st)) \<noteq> None"
    unfolding st(2,3) by code_simp
  then obtain inner where
    inner: "compile_sql_n 1 rev (augmented_catalog shop_rate st) (inner_query rate_query st) = Inr inner"
    unfolding same by (auto simp: res_ok_def split: sum.splits)
  have "\<not> needs_axis shop_rate rate_query" "expand_segments shop_rate rate_query = Inr rate_query"
    "list_ex (\<lambda>m. \<not> has_dot m) (q_measures rate_query)" "resolve_orders rate_query = Inr []"
    by code_simp+
  with st(1) inner show ?thesis
    by (auto simp: compile_sql_def numeral_2_eq_2 compile_with_metrics_via_def Let_def)
qed


subsection \<open>Rollups and policies\<close>

lemma res_ok_Some: "res_ok m = Some a \<longleftrightarrow> m = Inr a"
  by (cases m) simp_all

text \<open>
  A rollup is only ever offered for a query, with its segments and metrics expanded, that touches a
  single model without required predicates and without a time zone, whose measures all have rollup-safe
  aggregates, and the offered pre-aggregation is declared on that model and covers the query.  So reading
  a rollup never bypasses row-level security.
\<close>

lemma candidate_rollup_sound:
  assumes "candidate_rollup cat q = Some r"
  shows "\<exists>lq model pre. leaf_query cat q = Some lq \<and> get_model cat (rm_model r) = Some model \<and>
    pre \<in> set (m_pre_aggregations model) \<and> pa_name pre = rm_preagg r \<and> covers pre lq \<and>
    q_time_zone lq = None \<and>
    (\<forall>safety. m_safety model = Some safety \<longrightarrow> required_predicates safety = []) \<and>
    (\<forall>member\<in>set (query_members lq). member_model member = Inr (rm_model r)) \<and>
    (\<forall>member\<in>set (q_measures lq). \<exists>name msr. measure_member_name member = Some name \<and>
       find_measure model name = Some msr \<and> is_rollup_safe (ms_agg msr))"
proof -
  from assms obtain lq rt model refd pre where
    q: "leaf_query cat q = Some lq" "q_time_zone lq = None" "get_model cat rt = Some model"
      "referenced_models cat lq = Inr refd" "\<not> list_ex (\<lambda>m. m \<noteq> rt) refd"
      "\<not> (case m_safety model of Some s \<Rightarrow> required_predicates s \<noteq> [] | None \<Rightarrow> False)"
      "list_all (rollup_eligible model) (q_measures lq)" "match_rollup model lq = Some pre"
      "r = \<lparr>rm_model = rt, rm_preagg = pa_name pre\<rparr>"
    by (auto simp: candidate_rollup_def rollup_for_def res_ok_Some bind_eq_Some_conv split: if_splits)
  have "pre \<in> set (m_pre_aggregations model)" "covers pre lq"
    using min_by_key_Some [OF q(8) [unfolded match_rollup_def]] by auto
  moreover have "member_model member = Inr rt" if "member \<in> set (query_members lq)" for member
  proof -
    note sound = models_of_sound [OF q(4) [unfolded referenced_models_def]]
    from sound that obtain m where m: "member_model member = Inr m" by blast
    with sound that have "m \<in> set refd" by auto
    with m q(5) show ?thesis by (auto simp: list_ex_iff)
  qed
  moreover have "\<forall>safety. m_safety model = Some safety \<longrightarrow> required_predicates safety = []"
    using q(6) by auto
  moreover have "\<forall>member\<in>set (q_measures lq). \<exists>name msr. measure_member_name member = Some name \<and>
      find_measure model name = Some msr \<and> is_rollup_safe (ms_agg msr)"
    using q(7) by (auto simp: list_all_iff rollup_eligible_def bind_eq_Some_conv split: option.splits)
  ultimately show ?thesis using q(1-3,9) by fastforce
qed

end
