(* ===== verification/Cache_Policy.thy ===== *)
theory Cache_Policy
  imports Prelude
begin

section \<open>Cache policies\<close>

text \<open>The policy types of \<open>pawrly-core/src/cache.rs\<close>, shared by the cache and the definitions of sources.  Durations are in
  milliseconds.\<close>

datatype CachePolicy = NoCache | Ttl nat | Refresh nat | Cron string | Append string

datatype CacheMode = ModeNone | ModeTtl | ModeRefresh | ModeCron | ModeAppend | ModePinned

fun cache_mode :: "CachePolicy \<Rightarrow> CacheMode" where
  "cache_mode NoCache = ModeNone"
| "cache_mode (Ttl _) = ModeTtl"
| "cache_mode (Refresh _) = ModeRefresh"
| "cache_mode (Cron _) = ModeCron"
| "cache_mode (Append _) = ModeAppend"

fun refresh_interval :: "CachePolicy \<Rightarrow> nat option" where
  "refresh_interval (Refresh every) = Some every"
| "refresh_interval _ = None"

definition caches :: "CachePolicy \<Rightarrow> bool" where
  "caches p \<longleftrightarrow> p \<noteq> NoCache"

end
