(* ===== verification/Cache.thy ===== *)
theory Cache
  imports Semantic_Types Cache_Policy "HOL-Library.Multiset"
begin

section \<open>The cache manager\<close>

text \<open>
  \<open>pawrly-engine/src/cache.rs\<close>, with the policy types of \<open>pawrly-core/src/cache.rs\<close> and the background
  refreshers: a JSON manifest of cache entries, Parquet files beside it, an in-memory copy of the manifest
  per process.  The disk is explicit: the manifest file (absent or unreadable is \<open>None\<close>) and the files below
  \<open>data/\<close>, \<open>tmp/\<close> and \<open>corrupt/\<close>, each with its content, length and age.  A table name is one path
  component.  What the operating system decides (whether a call succeeds, the time, fresh names) is an
  argument of the operations.  Contents are Arrow batches, here rows of cells, or unreadable bytes.
\<close>

subsection \<open>Expiry and refreshers\<close>

text \<open>Times are in milliseconds; \<open>ChronoDuration::from_std\<close> fails beyond the range of an \<open>i64\<close> of milliseconds.\<close>

definition i64_max :: int where
  "i64_max = 9223372036854775807"

definition ttl_expiry :: "CachePolicy \<Rightarrow> int \<Rightarrow> int option" where
  "ttl_expiry policy now =
     (case policy of
        Ttl ttl \<Rightarrow> if int ttl \<le> i64_max then Some (now + int ttl) else None
      | _ \<Rightarrow> None)"

text \<open>Which policies have a background refresher; whether a cron text parses is the cron library's to say.\<close>

definition spawns_refresher :: "(string \<Rightarrow> bool) \<Rightarrow> CachePolicy \<Rightarrow> bool" where
  "spawns_refresher cron_ok policy =
     (case policy of Refresh every \<Rightarrow> every \<noteq> 0 | Cron cron \<Rightarrow> cron_ok cron | _ \<Rightarrow> False)"

subsection \<open>Manifest\<close>

definition materialized_schema :: string where
  "materialized_schema = ''materialized''"

datatype MaterializeFormat = Parquet | Csv | Json

datatype MaterializeSpec =
    SpecQuery string "(string, string) hmap"
  | SpecFile string "MaterializeFormat option"
  | SpecUrl string "MaterializeFormat option"
  | SpecInline string MaterializeFormat

datatype Origin = CacheCopy | Materialized MaterializeSpec

fun is_materialized :: "Origin \<Rightarrow> bool" where
  "is_materialized CacheCopy = False"
| "is_materialized (Materialized _) = True"

type_synonym path = "string list"

record ManifestEntry =
  ce_source :: string
  ce_table :: string
  ce_written_at :: int
  ce_expires_at :: "int option"
  ce_row_count :: nat
  ce_size_bytes :: nat
  ce_file_path :: path
  ce_origin :: Origin

record Manifest =
  mf_version :: nat
  mf_entries :: "ManifestEntry list"

definition is_for :: "TableName \<Rightarrow> ManifestEntry \<Rightarrow> bool" where
  "is_for key e \<longleftrightarrow> ce_source e = tn_schema key \<and> ce_table e = tn_table key"

definition unexpired :: "int \<Rightarrow> ManifestEntry \<Rightarrow> bool" where
  "unexpired now e = (case ce_expires_at e of None \<Rightarrow> True | Some exp \<Rightarrow> now < exp)"

definition data_path :: "string \<Rightarrow> string \<Rightarrow> path" where
  "data_path schema table = [''data'', schema, table, ''part-000000.parquet'']"

subsection \<open>Files\<close>

text \<open>A record batch: rows of cells of the schema's width.\<close>

type_synonym 'c batch = "'c list list"

datatype 'c content = Batches "'c batch list" | Unreadable

record 'c stored =
  fl_content :: "'c content"
  fl_len :: nat
  fl_modified :: "int option"

record 'c disk =
  dk_manifest :: "Manifest option"
  dk_files :: "(path, 'c stored) hmap"

definition hm_delete :: "'k \<Rightarrow> ('k, 'v) hmap \<Rightarrow> ('k, 'v) hmap" where
  "hm_delete k m = filter (\<lambda>e. fst e \<noteq> k) m"

definition file_exists :: "'c disk \<Rightarrow> path \<Rightarrow> bool" where
  "file_exists disk p \<longleftrightarrow> hm_get (dk_files disk) p \<noteq> None"

definition remove_file :: "path \<Rightarrow> 'c disk \<Rightarrow> 'c disk" where
  "remove_file p disk = disk\<lparr>dk_files := hm_delete p (dk_files disk)\<rparr>"

definition under :: "string \<Rightarrow> path \<Rightarrow> bool" where
  "under dir p \<longleftrightarrow> (case p of d # _ \<Rightarrow> d = dir | [] \<Rightarrow> False)"

definition collect_files :: "string \<Rightarrow> 'c disk \<Rightarrow> path list" where
  "collect_files dir disk = filter (under dir) (map fst (dk_files disk))"

definition tmp_max_age :: int where
  "tmp_max_age = 3600000"

text \<open>The age of a file; unknown or future times count as too old (\<open>unwrap_or(true)\<close>).\<close>

definition too_old :: "int \<Rightarrow> 'c stored \<Rightarrow> bool" where
  "too_old now f =
     (case fl_modified f of
        None \<Rightarrow> True
      | Some t \<Rightarrow> if now < t then True else tmp_max_age \<le> now - t)"

record Env =
  ev_now :: int
  ev_lock_ok :: bool
  ev_manifest_write_ok :: bool
  ev_parquet_ok :: bool
  ev_remove_ok :: "path \<Rightarrow> bool"
  ev_fresh_name :: string

definition clean_old_tmp :: "Env \<Rightarrow> 'c disk \<Rightarrow> 'c disk \<times> nat \<times> nat" where
  "clean_old_tmp env disk =
     (let gone = filter (\<lambda>(p, f). under ''tmp'' p \<and> too_old (ev_now env) f \<and> ev_remove_ok env p) (dk_files disk)
      in (fold (\<lambda>(p, f). remove_file p) gone disk, length gone, sum_list (map (\<lambda>(p, f). fl_len f) gone)))"

subsection \<open>The manager\<close>

record Manager =
  cm_manifest :: Manifest
  cm_inner :: "(TableName, CachePolicy) hmap"

definition empty_manifest :: Manifest where
  "empty_manifest = \<lparr>mf_version = 1, mf_entries = []\<rparr>"

definition read_manifest_disk :: "'c disk \<Rightarrow> Manifest" where
  "read_manifest_disk disk = (case dk_manifest disk of Some m \<Rightarrow> m | None \<Rightarrow> empty_manifest)"

definition new_manager :: "Env \<Rightarrow> 'c disk \<Rightarrow> Manager \<times> 'c disk" where
  "new_manager env disk =
     (\<lparr>cm_manifest = read_manifest_disk disk, cm_inner = []\<rparr>, fst (clean_old_tmp env disk))"

definition register_inner :: "TableName \<Rightarrow> CachePolicy \<Rightarrow> Manager \<Rightarrow> Manager" where
  "register_inner key policy mgr = mgr\<lparr>cm_inner := hm_insert key policy (cm_inner mgr)\<rparr>"

definition fresh :: "int \<Rightarrow> Manager \<Rightarrow> TableName \<Rightarrow> ManifestEntry option" where
  "fresh now mgr name = find (\<lambda>e. is_for name e \<and> unexpired now e) (mf_entries (cm_manifest mgr))"

definition is_fresh :: "int \<Rightarrow> Manager \<Rightarrow> TableName \<Rightarrow> bool" where
  "is_fresh now mgr name \<longleftrightarrow> fresh now mgr name \<noteq> None"

text \<open>
  The read-modify-write of the manifest under both locks: from the disk, not from memory.  \<open>None\<close> is an
  I/O error, which leaves the disk and the memory as they were.
\<close>

definition with_locked_manifest ::
  "Env \<Rightarrow> (Manifest \<Rightarrow> 'a \<times> Manifest) \<Rightarrow> Manager \<Rightarrow> 'c disk \<Rightarrow> 'a option \<times> Manager \<times> 'c disk" where
  "with_locked_manifest env f mgr disk =
     (if \<not> ev_lock_ok env then (None, mgr, disk)
      else
        let (out, manifest) = f (read_manifest_disk disk) in
        if \<not> ev_manifest_write_ok env then (None, mgr, disk)
        else (Some out, mgr\<lparr>cm_manifest := manifest\<rparr>, disk\<lparr>dk_manifest := Some manifest\<rparr>))"

definition upsert_entry :: "ManifestEntry \<Rightarrow> Manifest \<Rightarrow> Manifest" where
  "upsert_entry entry m =
     m\<lparr>mf_entries := filter (\<lambda>e. \<not> (ce_source e = ce_source entry \<and> ce_table e = ce_table entry))
         (mf_entries m) @ [entry]\<rparr>"

definition upsert :: "Env \<Rightarrow> ManifestEntry \<Rightarrow> Manager \<Rightarrow> 'c disk \<Rightarrow> unit option \<times> Manager \<times> 'c disk" where
  "upsert env entry = with_locked_manifest env (\<lambda>m. ((), upsert_entry entry m))"

text \<open>Remove the first entry with a property, and hand it out.\<close>

fun take_first :: "('a \<Rightarrow> bool) \<Rightarrow> 'a list \<Rightarrow> 'a option \<times> 'a list" where
  "take_first P [] = (None, [])"
| "take_first P (x # xs) =
     (if P x then (Some x, xs) else (let (r, ys) = take_first P xs in (r, x # ys)))"

definition take_entry :: "(ManifestEntry \<Rightarrow> bool) \<Rightarrow> Manifest \<Rightarrow> ManifestEntry option \<times> Manifest" where
  "take_entry P m =
     (let (r, es) = take_first P (mf_entries m) in (r, m\<lparr>mf_entries := es\<rparr>))"

text \<open>\<open>let _ = remove_file(..)\<close>: a failure is ignored.\<close>

definition try_remove :: "Env \<Rightarrow> path \<Rightarrow> 'c disk \<Rightarrow> 'c disk" where
  "try_remove env p disk = (if ev_remove_ok env p then remove_file p disk else disk)"

definition drop_entry ::
  "Env \<Rightarrow> (ManifestEntry \<Rightarrow> bool) \<Rightarrow> Manager \<Rightarrow> 'c disk \<Rightarrow> bool option \<times> Manager \<times> 'c disk" where
  "drop_entry env P mgr disk =
     (case with_locked_manifest env (take_entry P) mgr disk of
        (None, mgr', disk') \<Rightarrow> (None, mgr', disk')
      | (Some None, mgr', disk') \<Rightarrow> (Some False, mgr', disk')
      | (Some (Some entry), mgr', disk') \<Rightarrow> (Some True, mgr', try_remove env (ce_file_path entry) disk'))"

definition invalidate ::
  "Env \<Rightarrow> TableName \<Rightarrow> Manager \<Rightarrow> 'c disk \<Rightarrow> bool option \<times> Manager \<times> 'c disk" where
  "invalidate env key = drop_entry env (is_for key)"

definition drop_materialized ::
  "Env \<Rightarrow> string \<Rightarrow> Manager \<Rightarrow> 'c disk \<Rightarrow> bool option \<times> Manager \<times> 'c disk" where
  "drop_materialized env name =
     drop_entry env (\<lambda>e. is_for \<lparr>tn_schema = materialized_schema, tn_table = name\<rparr> e \<and>
       is_materialized (ce_origin e))"
text \<open>
  A corrupt file is moved below \<open>corrupt/\<close> under a fresh name, or deleted when that fails; the result of
  the manifest update is ignored.
\<close>

definition quarantine ::
  "Env \<Rightarrow> bool \<Rightarrow> TableName \<Rightarrow> ManifestEntry \<Rightarrow> Manager \<Rightarrow> 'c disk \<Rightarrow> Manager \<times> 'c disk" where
  "quarantine env move_ok key entry mgr disk =
     (let (_, mgr', disk') = with_locked_manifest env
            (\<lambda>m. ((), m\<lparr>mf_entries := filter (\<lambda>e. \<not> (is_for key e \<and> ce_file_path e = ce_file_path entry))
                  (mf_entries m)\<rparr>)) mgr disk
      in case hm_get (dk_files disk') (ce_file_path entry) of
           None \<Rightarrow> (mgr', disk')
         | Some f \<Rightarrow>
             if move_ok then
               (mgr', (remove_file (ce_file_path entry) disk')
                  \<lparr>dk_files := hm_insert [''corrupt'', tn_schema key, tn_table key,
                       ev_fresh_name env @ ''-'' @ last (ce_file_path entry)] f
                     (hm_delete (ce_file_path entry) (dk_files disk'))\<rparr>)
             else (mgr', try_remove env (ce_file_path entry) disk'))"

record VacuumReport =
  vr_entries_removed :: nat
  vr_files_removed :: nat
  vr_bytes_reclaimed :: nat

text \<open>Delete one file of the sweep, counting it.\<close>

definition reclaim :: "Env \<Rightarrow> path \<Rightarrow> 'c disk \<times> VacuumReport \<Rightarrow> 'c disk \<times> VacuumReport" where
  "reclaim env p st =
     (let (disk, r) = st in
      case hm_get (dk_files disk) p of
        None \<Rightarrow> (disk, r)
      | Some f \<Rightarrow>
          (try_remove env p disk,
           r\<lparr>vr_bytes_reclaimed := vr_bytes_reclaimed r + fl_len f,
             vr_files_removed := vr_files_removed r + (if ev_remove_ok env p then 1 else 0)\<rparr>))"

definition keeps :: "int \<Rightarrow> ManifestEntry \<Rightarrow> bool" where
  "keeps now e \<longleftrightarrow> is_materialized (ce_origin e) \<or> unexpired now e"

definition split_expired :: "int \<Rightarrow> Manifest \<Rightarrow> ManifestEntry list \<times> Manifest" where
  "split_expired now m =
     (filter (\<lambda>e. \<not> keeps now e) (mf_entries m), m\<lparr>mf_entries := filter (keeps now) (mf_entries m)\<rparr>)"

definition drop_expired :: "Env \<Rightarrow> ManifestEntry list \<Rightarrow> 'c disk \<Rightarrow> 'c disk \<times> VacuumReport" where
  "drop_expired env expired disk =
     (case fold (\<lambda>e. reclaim env (ce_file_path e)) expired
        (disk, \<lparr>vr_entries_removed = 0, vr_files_removed = 0, vr_bytes_reclaimed = 0\<rparr>) of
        (disk', r) \<Rightarrow> (disk', r\<lparr>vr_entries_removed := length expired\<rparr>))"

text \<open>The sweep: data files that no entry of the in-memory manifest refers to.\<close>

definition sweep :: "Env \<Rightarrow> Manifest \<Rightarrow> 'c disk \<times> VacuumReport \<Rightarrow> 'c disk \<times> VacuumReport" where
  "sweep env manifest st =
     fold (reclaim env)
       (filter (\<lambda>p. p \<notin> ce_file_path ` set (mf_entries manifest)) (collect_files ''data'' (fst st))) st"

definition vacuum :: "Env \<Rightarrow> Manager \<Rightarrow> 'c disk \<Rightarrow> VacuumReport option \<times> Manager \<times> 'c disk" where
  "vacuum env mgr disk =
     (case with_locked_manifest env (split_expired (ev_now env)) mgr disk of
        (None, mgr', disk') \<Rightarrow> (None, mgr', disk')
      | (Some expired, mgr', disk') \<Rightarrow>
          let (disk2, r2) = sweep env (cm_manifest mgr') (drop_expired env expired disk');
              (disk3, tmp_files, tmp_bytes) = clean_old_tmp env disk2
          in (Some (r2\<lparr>vr_files_removed := vr_files_removed r2 + tmp_files,
                      vr_bytes_reclaimed := vr_bytes_reclaimed r2 + tmp_bytes\<rparr>), mgr', disk3))"

subsection \<open>Writing\<close>

text \<open>
  A Parquet file appears under its final name in one step (a rename), or not at all; a failure may leave a
  file below \<open>tmp/\<close>.  \<open>parquet_len\<close> is the length the Parquet writer produces.
\<close>

definition atomic_write_parquet ::
  "('c batch list \<Rightarrow> nat) \<Rightarrow> Env \<Rightarrow> path \<Rightarrow> 'c batch list \<Rightarrow> 'c disk \<Rightarrow> nat option \<times> 'c disk" where
  "atomic_write_parquet parquet_len env final_path batches disk =
     (let f = \<lparr>fl_content = Batches batches, fl_len = parquet_len batches, fl_modified = Some (ev_now env)\<rparr> in
      if ev_parquet_ok env
      then (Some (parquet_len batches), disk\<lparr>dk_files := hm_insert final_path f (dk_files disk)\<rparr>)
      else (None, disk\<lparr>dk_files := hm_insert [''tmp'', ev_fresh_name env @ ''.parquet'']
             (f\<lparr>fl_content := Unreadable\<rparr>) (dk_files disk)\<rparr>))"

definition num_rows :: "'c batch list \<Rightarrow> nat" where
  "num_rows batches = sum_list (map length batches)"

definition write_entry ::
  "('c batch list \<Rightarrow> nat) \<Rightarrow> Env \<Rightarrow> string \<Rightarrow> string \<Rightarrow> int option \<Rightarrow> Origin \<Rightarrow> 'c batch list \<Rightarrow>
   Manager \<Rightarrow> 'c disk \<Rightarrow> ManifestEntry option \<times> Manager \<times> 'c disk" where
  "write_entry parquet_len env source table expires origin batches mgr disk =
     (let final_path = data_path source table in
      case atomic_write_parquet parquet_len env final_path batches disk of
        (None, disk1) \<Rightarrow> (None, mgr, disk1)
      | (Some size_bytes, disk1) \<Rightarrow>
          let entry = \<lparr>ce_source = source, ce_table = table, ce_written_at = ev_now env,
                ce_expires_at = expires, ce_row_count = num_rows batches, ce_size_bytes = size_bytes,
                ce_file_path = final_path, ce_origin = origin\<rparr>
          in case upsert env entry mgr disk1 of
               (None, mgr', disk2) \<Rightarrow> (None, mgr', disk2)
             | (Some _, mgr', disk2) \<Rightarrow> (Some entry, mgr', disk2))"

definition write_through ::
  "('c batch list \<Rightarrow> nat) \<Rightarrow> Env \<Rightarrow> TableName \<Rightarrow> CachePolicy \<Rightarrow> 'c batch list \<Rightarrow> Manager \<Rightarrow> 'c disk \<Rightarrow>
   ManifestEntry option \<times> Manager \<times> 'c disk" where
  "write_through parquet_len env key policy batches =
     write_entry parquet_len env (tn_schema key) (tn_table key) (ttl_expiry policy (ev_now env)) CacheCopy batches"

definition materialize ::
  "('c batch list \<Rightarrow> nat) \<Rightarrow> Env \<Rightarrow> string \<Rightarrow> 'c batch list \<Rightarrow> MaterializeSpec \<Rightarrow> Manager \<Rightarrow> 'c disk \<Rightarrow>
   ManifestEntry option \<times> Manager \<times> 'c disk" where
  "materialize parquet_len env name batches spec =
     write_entry parquet_len env materialized_schema name None (Materialized spec) batches"

subsection \<open>Reading\<close>

definition materialized_spec :: "Manager \<Rightarrow> string \<Rightarrow> MaterializeSpec option" where
  "materialized_spec mgr name =
     (case find (\<lambda>e. is_for \<lparr>tn_schema = materialized_schema, tn_table = name\<rparr> e \<and>
          is_materialized (ce_origin e)) (mf_entries (cm_manifest mgr)) of
        None \<Rightarrow> None
      | Some e \<Rightarrow> (case ce_origin e of Materialized spec \<Rightarrow> Some spec | CacheCopy \<Rightarrow> None))"

definition present :: "'c disk \<Rightarrow> Manager \<Rightarrow> ManifestEntry list" where
  "present disk mgr = filter (\<lambda>e. file_exists disk (ce_file_path e)) (mf_entries (cm_manifest mgr))"

definition namespace_sources :: "'c disk \<Rightarrow> Manager \<Rightarrow> string list" where
  "namespace_sources disk mgr = remdups_adj (sort (map ce_source (present disk mgr)))"

definition namespace_tables :: "'c disk \<Rightarrow> Manager \<Rightarrow> string \<Rightarrow> string list" where
  "namespace_tables disk mgr source =
     remdups_adj (sort (map ce_table (filter (\<lambda>e. ce_source e = source) (present disk mgr))))"

definition namespace_path :: "'c disk \<Rightarrow> Manager \<Rightarrow> string \<Rightarrow> string \<Rightarrow> path option" where
  "namespace_path disk mgr source table =
     map_option ce_file_path
       (find (\<lambda>e. ce_source e = source \<and> ce_table e = table) (present disk mgr))"

record CacheEntryInfo =
  ci_name :: TableName
  ci_mode :: CacheMode
  ci_entry :: ManifestEntry

definition list_entries :: "Manager \<Rightarrow> CacheEntryInfo list" where
  "list_entries mgr =
     map (\<lambda>e.
       let name = \<lparr>tn_schema = ce_source e, tn_table = ce_table e\<rparr> in
       \<lparr>ci_name = name,
        ci_mode = (if is_materialized (ce_origin e) then ModePinned
                   else case hm_get (cm_inner mgr) name of Some p \<Rightarrow> cache_mode p | None \<Rightarrow> ModeTtl),
        ci_entry = e\<rparr>) (mf_entries (cm_manifest mgr))"

text \<open>A projection names columns by position; a position outside the schema panics (\<open>None\<close>).\<close>

definition project_batches :: "nat \<Rightarrow> 'c batch list \<Rightarrow> nat list option \<Rightarrow> 'c batch list option" where
  "project_batches width batches projection =
     (case projection of
        None \<Rightarrow> Some batches
      | Some p \<Rightarrow>
          if list_all (\<lambda>i. i < width) p then Some (map (map (\<lambda>row. map ((!) row) p)) batches) else None)"

definition read_parquet ::
  "nat \<Rightarrow> 'c disk \<Rightarrow> path \<Rightarrow> nat list option \<Rightarrow> 'c batch list option" where
  "read_parquet width disk p projection =
     (case hm_get (dk_files disk) p of
        None \<Rightarrow> None
      | Some f \<Rightarrow> (case fl_content f of
                    Batches batches \<Rightarrow> project_batches width batches projection
                  | Unreadable \<Rightarrow> None))"

text \<open>
  \<open>CachedTableProvider::scan\<close>.  The live provider is the argument \<open>inner_scan\<close>, its answer to the filters
  and limit the planner pushed down (\<open>None\<close> is its error).  The second component of the result says whether
  the live provider was asked.
\<close>

definition scan ::
  "('c batch list \<Rightarrow> nat) \<Rightarrow> ('f list \<Rightarrow> nat option \<Rightarrow> 'c batch list option) \<Rightarrow> Env \<Rightarrow> bool \<Rightarrow>
   nat \<Rightarrow> TableName \<Rightarrow> CachePolicy \<Rightarrow> nat list option \<Rightarrow> 'f list \<Rightarrow> nat option \<Rightarrow> Manager \<Rightarrow> 'c disk \<Rightarrow>
   'c batch list option \<times> bool \<times> Manager \<times> 'c disk" where
  "scan parquet_len inner_scan env move_ok width name policy projection filters limit mgr disk =
     (case fresh (ev_now env) mgr name of
        None \<Rightarrow>
          (case inner_scan filters limit of
             None \<Rightarrow> (None, True, mgr, disk)
           | Some batches \<Rightarrow>
               (case write_through parquet_len env name policy batches mgr disk of
                  (_, mgr', disk') \<Rightarrow> (project_batches width batches projection, True, mgr', disk')))
      | Some entry \<Rightarrow>
          (case read_parquet width disk (ce_file_path entry) projection of
             Some batches \<Rightarrow> (Some batches, False, mgr, disk)
           | None \<Rightarrow>
               (case quarantine env move_ok name entry mgr disk of
                  (mgr1, disk1) \<Rightarrow>
                    (case inner_scan filters limit of
                       None \<Rightarrow> (None, True, mgr1, disk1)
                     | Some batches \<Rightarrow>
                         (case write_through parquet_len env name policy batches mgr1 disk1 of
                            (_, mgr', disk') \<Rightarrow>
                              (project_batches width batches projection, True, mgr', disk'))))))"

text \<open>\<open>CacheManager::refresh\<close>: a full live scan, written through whatever the freshness.\<close>

datatype CacheError = UnknownTable TableName | Internal string

definition refresh ::
  "('c batch list \<Rightarrow> nat) \<Rightarrow> (TableName \<Rightarrow> 'c batch list option) \<Rightarrow> Env \<Rightarrow> TableName \<Rightarrow> Manager \<Rightarrow> 'c disk \<Rightarrow>
   (CacheError + ManifestEntry) \<times> Manager \<times> 'c disk" where
  "refresh parquet_len live env key mgr disk =
     (case hm_get (cm_inner mgr) key of
        None \<Rightarrow> (Inl (UnknownTable key), mgr, disk)
      | Some policy \<Rightarrow>
          (case live key of
             None \<Rightarrow> (Inl (Internal ''cache refresh scan''), mgr, disk)
           | Some batches \<Rightarrow>
               (case write_through parquet_len env key policy batches mgr disk of
                  (None, mgr', disk') \<Rightarrow> (Inl (Internal ''cache refresh write''), mgr', disk')
                | (Some entry, mgr', disk') \<Rightarrow> (Inr entry, mgr', disk'))))"

text \<open>\<open>CachedTableProvider::wrap\<close>: a table without caching keeps its provider and is not registered.\<close>

definition wrap :: "TableName \<Rightarrow> CachePolicy \<Rightarrow> Manager \<Rightarrow> bool \<times> Manager" where
  "wrap name policy mgr =
     (if policy = NoCache then (False, mgr) else (True, register_inner name policy mgr))"

subsection \<open>The manifest as a store of entries by table\<close>

definition entry_key :: "ManifestEntry \<Rightarrow> TableName" where
  "entry_key e = \<lparr>tn_schema = ce_source e, tn_table = ce_table e\<rparr>"

lemma is_for_key: "is_for k e \<longleftrightarrow> entry_key e = k"
  by (cases k) (auto simp: is_for_def entry_key_def)

definition lookup :: "Manifest \<Rightarrow> TableName \<Rightarrow> ManifestEntry option" where
  "lookup m k = find (is_for k) (mf_entries m)"

definition delete :: "TableName \<Rightarrow> Manifest \<Rightarrow> Manifest" where
  "delete k m = snd (take_entry (is_for k) m)"

definition keys_ok :: "Manifest \<Rightarrow> bool" where
  "keys_ok m \<longleftrightarrow> distinct (map entry_key (mf_entries m))"

text \<open>What a client of a keyed store relies on: a put is found, a delete is not, other keys are untouched.\<close>

locale keyed_store =
  fixes get :: "'s \<Rightarrow> 'k \<Rightarrow> 'e option" and put :: "'e \<Rightarrow> 's \<Rightarrow> 's" and del :: "'k \<Rightarrow> 's \<Rightarrow> 's"
    and key_of :: "'e \<Rightarrow> 'k" and ok :: "'s \<Rightarrow> bool"
  assumes get_put: "ok s \<Longrightarrow> get (put e s) = (get s)(key_of e \<mapsto> e)"
    and get_del: "ok s \<Longrightarrow> get (del k s) = (get s)(k := None)"
    and ok_put: "ok s \<Longrightarrow> ok (put e s)"
    and ok_del: "ok s \<Longrightarrow> ok (del k s)"
begin

fun store_op :: "'e + 'k \<Rightarrow> 's \<Rightarrow> 's" where
  "store_op (Inl e) s = put e s"
| "store_op (Inr k) s = del k s"

fun spec_op :: "'e + 'k \<Rightarrow> ('k \<rightharpoonup> 'e) \<Rightarrow> ('k \<rightharpoonup> 'e)" where
  "spec_op (Inl e) m = m(key_of e \<mapsto> e)"
| "spec_op (Inr k) m = m(k := None)"

lemma run_refines:
  "ok s \<Longrightarrow> ok (fold store_op ops s) \<and> get (fold store_op ops s) = fold spec_op ops (get s)"
proof (induction ops arbitrary: s)
  case (Cons op ops)
  then show ?case by (cases op) (simp_all add: ok_put ok_del get_put get_del fun_upd_def)
qed simp

text \<open>The last put of a key that is not touched afterwards is what is found.\<close>

lemma last_put_found:
  assumes "ok s" "\<forall>op\<in>set later. case op of Inl e' \<Rightarrow> key_of e' \<noteq> key_of e | Inr k \<Rightarrow> k \<noteq> key_of e"
  shows "get (fold store_op (earlier @ Inl e # later) s) (key_of e) = Some e"
proof -
  have keep: "fold spec_op later m (key_of e) = m (key_of e)" for m
    using assms(2)
  proof (induction later arbitrary: m)
    case (Cons op later)
    then show ?case by (cases op) auto
  qed simp
  from run_refines [OF assms(1), of "earlier @ Inl e # later"] keep show ?thesis by simp
qed

end

lemma take_first_None: "(\<forall>x\<in>set xs. \<not> P x) \<Longrightarrow> take_first P xs = (None, xs)"
  by (induction xs) auto

lemma take_first_distinct:
  "distinct (map f xs) \<Longrightarrow>
     take_first (\<lambda>x. f x = k) xs = (find (\<lambda>x. f x = k) xs, filter (\<lambda>x. f x \<noteq> k) xs)"
proof (induction xs)
  case (Cons x xs)
  show ?case
  proof (cases "f x = k")
    case True
    with Cons.prems have "\<forall>y\<in>set xs. f y \<noteq> k" by (metis distinct.simps(2) image_eqI list.simps(9) set_map)
    with True show ?thesis by (simp add: filter_True)
  qed (use Cons in simp)
qed simp

lemma find_filter_other: "find (\<lambda>e. f e = k) (filter (\<lambda>e. f e \<noteq> k') xs) = (if k = k' then None else find (\<lambda>e. f e = k) xs)"
  by (induction xs) auto

lemma find_append: "find P (xs @ ys) = (case find P xs of None \<Rightarrow> find P ys | Some x \<Rightarrow> Some x)"
  by (induction xs) auto

lemma upsert_entry_key:
  "upsert_entry e m = m\<lparr>mf_entries := filter (\<lambda>x. entry_key x \<noteq> entry_key e) (mf_entries m) @ [e]\<rparr>"
  by (simp add: upsert_entry_def entry_key_def)

lemma is_for_eq: "is_for k = (\<lambda>e. entry_key e = k)"
  by (simp add: fun_eq_iff is_for_key)

lemma delete_key:
  "keys_ok m \<Longrightarrow> delete k m = m\<lparr>mf_entries := filter (\<lambda>x. entry_key x \<noteq> k) (mf_entries m)\<rparr>"
  by (simp add: delete_def take_entry_def is_for_eq take_first_distinct keys_ok_def)

interpretation manifest: keyed_store lookup upsert_entry delete entry_key keys_ok
proof
  fix s :: Manifest and e k assume ok: "keys_ok s"
  show "lookup (upsert_entry e s) = (lookup s)(entry_key e \<mapsto> e)"
    by (auto simp: fun_eq_iff lookup_def is_for_eq upsert_entry_key find_append find_filter_other
        split: option.splits)
  show "lookup (delete k s) = (lookup s)(k := None)"
    by (auto simp: fun_eq_iff lookup_def is_for_eq delete_key [OF ok] find_filter_other)
  show "keys_ok (upsert_entry e s)"
    using ok by (auto simp: keys_ok_def upsert_entry_key distinct_map intro: inj_on_subset)
  show "keys_ok (delete k s)"
    using ok by (auto simp: keys_ok_def delete_key distinct_map intro: inj_on_subset)
qed

subsection \<open>The state of the disk\<close>

text \<open>
  At most one entry per table, each entry's file at the place its table's data has, and every file there.
\<close>

definition entry_ok :: "'c disk \<Rightarrow> ManifestEntry \<Rightarrow> bool" where
  "entry_ok disk e \<longleftrightarrow> ce_file_path e = data_path (ce_source e) (ce_table e) \<and>
     file_exists disk (ce_file_path e)"

definition disk_ok :: "'c disk \<Rightarrow> bool" where
  "disk_ok disk \<longleftrightarrow> keys_ok (read_manifest_disk disk) \<and>
     (\<forall>e\<in>set (mf_entries (read_manifest_disk disk)). entry_ok disk e)"

lemma hm_get_delete [simp]: "hm_get (hm_delete p m) = (hm_get m)(p := None)"
  by (induction m) (auto simp: hm_delete_def fun_eq_iff)

lemma file_exists_remove [simp]: "file_exists (remove_file p d) q \<longleftrightarrow> q \<noteq> p \<and> file_exists d q"
  by (auto simp: file_exists_def remove_file_def)

lemma read_manifest_remove [simp]: "read_manifest_disk (remove_file p d) = read_manifest_disk d"
  by (simp add: read_manifest_disk_def remove_file_def)

lemma read_manifest_files [simp]: "read_manifest_disk (d\<lparr>dk_files := fs\<rparr>) = read_manifest_disk d"
  by (simp add: read_manifest_disk_def)

lemma file_exists_manifest [simp]: "file_exists (d\<lparr>dk_manifest := m\<rparr>) p = file_exists d p"
  by (simp add: file_exists_def)

lemma data_path_inj: "data_path s t = data_path s' t' \<longleftrightarrow> s = s' \<and> t = t'"
  by (simp add: data_path_def)

lemma entry_path_key:
  "entry_ok d e \<Longrightarrow> entry_ok d e' \<Longrightarrow> ce_file_path e = ce_file_path e' \<Longrightarrow> entry_key e = entry_key e'"
  by (auto simp: entry_ok_def entry_key_def data_path_inj)

text \<open>
  The contract of a step of the cache on the disk: the state stays good, and no entry of a materialised
  table disappears with its data unless the step is meant to drop or replace that very table.
\<close>

definition pinned :: "'c disk \<Rightarrow> TableName \<Rightarrow> ManifestEntry \<Rightarrow> bool" where
  "pinned disk k e \<longleftrightarrow> lookup (read_manifest_disk disk) k = Some e \<and> is_materialized (ce_origin e)"

lemma lookup_mem: "lookup m k = Some e \<Longrightarrow> e \<in> set (mf_entries m) \<and> entry_key e = k"
  by (auto simp: lookup_def is_for_key find_Some_iff)

lemma mem_lookup: "keys_ok m \<Longrightarrow> e \<in> set (mf_entries m) \<Longrightarrow> lookup m (entry_key e) = Some e"
proof -
  assume ok: "keys_ok m" and e: "e \<in> set (mf_entries m)"
  then have "lookup m (entry_key e) \<noteq> None" by (auto simp: lookup_def is_for_eq find_None_iff)
  then obtain e' where "lookup m (entry_key e) = Some e'" by auto
  with lookup_mem [OF this] ok e show ?thesis by (auto simp: keys_ok_def distinct_map dest: inj_onD)
qed

text \<open>Deleting files that no entry needs keeps the state good.\<close>

lemma disk_ok_remove:
  assumes "disk_ok d" "\<forall>e\<in>set (mf_entries (read_manifest_disk d)). ce_file_path e \<noteq> p"
  shows "disk_ok (try_remove env p d)"
  using assms by (auto simp: disk_ok_def entry_ok_def try_remove_def)

lemma reclaim_fst: "fst (reclaim env p st) =
    (if hm_get (dk_files (fst st)) p = None then fst st else try_remove env p (fst st))"
  by (cases st) (auto simp: reclaim_def)

lemma reclaim_manifest: "read_manifest_disk (fst (reclaim env p st)) = read_manifest_disk (fst st)"
  by (simp add: reclaim_fst try_remove_def)

lemma reclaim_get:
  "hm_get (dk_files (fst (reclaim env p st))) q =
     (if q = p \<and> ev_remove_ok env q then None else hm_get (dk_files (fst st)) q)"
  by (auto simp: reclaim_fst try_remove_def remove_file_def)

lemma fold_reclaim_manifest:
  "read_manifest_disk (fst (fold (reclaim env) ps st)) = read_manifest_disk (fst st)"
  by (induction ps arbitrary: st) (simp_all add: reclaim_manifest)

lemma fold_reclaim_get:
  "hm_get (dk_files (fst (fold (reclaim env) ps st))) q =
     (if q \<in> set ps \<and> ev_remove_ok env q then None else hm_get (dk_files (fst st)) q)"
  by (induction ps arbitrary: st) (auto simp: reclaim_get)

lemma fold_remove_get:
  "hm_get (dk_files (fold (\<lambda>(p, f). remove_file p) gone d)) q =
     (if q \<in> fst ` set gone then None else hm_get (dk_files d) q)"
  "read_manifest_disk (fold (\<lambda>(p, f). remove_file p) gone d) = read_manifest_disk d"
  by (induction gone arbitrary: d) (auto simp: remove_file_def)

lemma clean_old_tmp_get:
  "read_manifest_disk (fst (clean_old_tmp env d)) = read_manifest_disk d"
  "\<not> under ''tmp'' q \<Longrightarrow> hm_get (dk_files (fst (clean_old_tmp env d))) q = hm_get (dk_files d) q"
  by (auto simp: clean_old_tmp_def Let_def fold_remove_get split_beta)

lemma locked_cases:
  obtains "with_locked_manifest env f mgr disk = (None, mgr, disk)"
  | out m where "f (read_manifest_disk disk) = (out, m)"
    "with_locked_manifest env f mgr disk = (Some out, mgr\<lparr>cm_manifest := m\<rparr>, disk\<lparr>dk_manifest := Some m\<rparr>)"
  by (cases "ev_lock_ok env \<and> ev_manifest_write_ok env"; cases "f (read_manifest_disk disk)")
    (auto simp: with_locked_manifest_def)

lemma read_manifest_Some [simp]: "read_manifest_disk (d\<lparr>dk_manifest := Some m\<rparr>) = m"
  by (simp add: read_manifest_disk_def)

lemma disk_ok_files:
  assumes "disk_ok d" "\<And>p. file_exists d p \<Longrightarrow> under ''data'' p \<Longrightarrow> file_exists (d\<lparr>dk_files := fs\<rparr>) p"
  shows "disk_ok (d\<lparr>dk_files := fs\<rparr>)"
  using assms by (auto simp: disk_ok_def entry_ok_def data_path_def under_def)

lemma write_entry_ok:
  assumes "disk_ok disk" "write_entry parquet_len env source table ex orig batches mgr disk = (r, mgr', disk')"
  shows "disk_ok disk'"
    and "r = Some e \<Longrightarrow> lookup (read_manifest_disk disk') = (lookup (read_manifest_disk disk))
           (\<lparr>tn_schema = source, tn_table = table\<rparr> \<mapsto> e) \<and>
         e = \<lparr>ce_source = source, ce_table = table, ce_written_at = ev_now env, ce_expires_at = ex,
           ce_row_count = num_rows batches, ce_size_bytes = parquet_len batches,
           ce_file_path = data_path source table, ce_origin = orig\<rparr> \<and>
         map_option fl_content (hm_get (dk_files disk') (ce_file_path e)) = Some (Batches batches) \<and>
         cm_manifest mgr' = read_manifest_disk disk' \<and> cm_inner mgr' = cm_inner mgr"
    and "r = None \<Longrightarrow> read_manifest_disk disk' = read_manifest_disk disk \<and> mgr' = mgr"
proof -
  let ?p = "data_path source table"
  let ?e = "\<lparr>ce_source = source, ce_table = table, ce_written_at = ev_now env, ce_expires_at = ex,
      ce_row_count = num_rows batches, ce_size_bytes = parquet_len batches, ce_file_path = ?p, ce_origin = orig\<rparr>"
  have key: "entry_key ?e = \<lparr>tn_schema = source, tn_table = table\<rparr>" by (simp add: entry_key_def)
  obtain w disk1 where w: "atomic_write_parquet parquet_len env ?p batches disk = (w, disk1)" by fastforce
  have grow: "file_exists disk p \<Longrightarrow> file_exists disk1 p" for p
    using w by (auto simp: atomic_write_parquet_def Let_def file_exists_def split: if_splits)
  have man: "read_manifest_disk disk1 = read_manifest_disk disk"
    using w by (auto simp: atomic_write_parquet_def Let_def split: if_splits)
  have ok1: "disk_ok disk1" using assms(1) grow by (auto simp: disk_ok_def entry_ok_def man)
  have "disk_ok disk' \<and>
    (\<forall>e. r = Some e \<longrightarrow> lookup (read_manifest_disk disk') = (lookup (read_manifest_disk disk))(entry_key ?e \<mapsto> e) \<and>
       e = ?e \<and> map_option fl_content (hm_get (dk_files disk') ?p) = Some (Batches batches) \<and>
       cm_manifest mgr' = read_manifest_disk disk' \<and> cm_inner mgr' = cm_inner mgr) \<and>
    (r = None \<longrightarrow> read_manifest_disk disk' = read_manifest_disk disk \<and> mgr' = mgr)"
  proof (cases w)
    case None
    with assms(2) w ok1 man show ?thesis by (simp add: write_entry_def Let_def)
  next
    case (Some size)
    have stored: "hm_get (dk_files disk1) ?p = Some \<lparr>fl_content = Batches batches, fl_len = parquet_len batches,
        fl_modified = Some (ev_now env)\<rparr>" and size: "size = parquet_len batches"
      using w Some by (auto simp: atomic_write_parquet_def Let_def split: if_splits)
    have keys: "keys_ok (read_manifest_disk disk)" using assms(1) by (simp add: disk_ok_def)
    show ?thesis
    proof (cases rule: locked_cases [of env "\<lambda>m. ((), upsert_entry ?e m)" mgr disk1])
      case 1
      with assms(2) w Some size ok1 man show ?thesis by (simp add: write_entry_def upsert_def Let_def)
    next
      case (2 out m)
      then have m: "m = upsert_entry ?e (read_manifest_disk disk)" by (simp add: man)
      have d': "disk' = disk1\<lparr>dk_manifest := Some m\<rparr>" "r = Some ?e" "mgr' = mgr\<lparr>cm_manifest := m\<rparr>"
        using assms(2) w Some size 2 by (auto simp: write_entry_def upsert_def Let_def)
      have "entry_ok disk' x" if "x \<in> set (mf_entries m)" for x
        using that ok1 stored unfolding m d'(1)
        by (auto simp: upsert_entry_key disk_ok_def entry_ok_def man file_exists_def)
      moreover have "keys_ok m" unfolding m by (rule manifest.ok_put [OF keys])
      ultimately have "disk_ok disk'" unfolding disk_ok_def by (simp add: d'(1))
      then show ?thesis
        using manifest.get_put [OF keys, of ?e] stored unfolding d' m by simp
    qed
  qed
  then show "disk_ok disk'"
    and "r = Some e \<Longrightarrow> lookup (read_manifest_disk disk') = (lookup (read_manifest_disk disk))
           (\<lparr>tn_schema = source, tn_table = table\<rparr> \<mapsto> e) \<and> e = ?e \<and>
         map_option fl_content (hm_get (dk_files disk') (ce_file_path e)) = Some (Batches batches) \<and>
         cm_manifest mgr' = read_manifest_disk disk' \<and> cm_inner mgr' = cm_inner mgr"
    and "r = None \<Longrightarrow> read_manifest_disk disk' = read_manifest_disk disk \<and> mgr' = mgr"
    unfolding key by auto
qed

lemma fold_reclaim_paths:
  "fold (\<lambda>e. reclaim env (ce_file_path e)) expired st = fold (reclaim env) (map ce_file_path expired) st"
  by (simp add: fold_map comp_def)

lemma drop_expired_get:
  "read_manifest_disk (fst (drop_expired env expired d)) = read_manifest_disk d"
  "hm_get (dk_files (fst (drop_expired env expired d))) q =
     (if q \<in> ce_file_path ` set expired \<and> ev_remove_ok env q then None else hm_get (dk_files d) q)"
  unfolding drop_expired_def fold_reclaim_paths
  by (simp_all add: split_beta fold_reclaim_manifest fold_reclaim_get)

lemma sweep_get:
  "read_manifest_disk (fst (sweep env m st)) = read_manifest_disk (fst st)"
  "hm_get (dk_files (fst (sweep env m st))) q =
     (if under ''data'' q \<and> q \<notin> ce_file_path ` set (mf_entries m) \<and> ev_remove_ok env q then None
      else hm_get (dk_files (fst st)) q)"
proof -
  show "read_manifest_disk (fst (sweep env m st)) = read_manifest_disk (fst st)"
    by (simp add: sweep_def fold_reclaim_manifest)
  have "q \<notin> set (map fst (dk_files (fst st))) \<Longrightarrow> hm_get (dk_files (fst st)) q = None"
    by (simp add: map_of_eq_None_iff)
  then show "hm_get (dk_files (fst (sweep env m st))) q =
     (if under ''data'' q \<and> q \<notin> ce_file_path ` set (mf_entries m) \<and> ev_remove_ok env q then None
      else hm_get (dk_files (fst st)) q)"
    by (auto simp: sweep_def fold_reclaim_get collect_files_def)
qed

lemma find_filter_keyed:
  "distinct (map f xs) \<Longrightarrow>
     find (\<lambda>x. f x = k) (filter P xs) =
       (case find (\<lambda>x. f x = k) xs of None \<Rightarrow> None | Some x \<Rightarrow> if P x then Some x else None)"
proof (induction xs)
  case (Cons x xs)
  show ?case
  proof (cases "f x = k")
    case True
    with Cons.prems have "\<forall>y\<in>set xs. f y \<noteq> k" by (metis distinct.simps(2) image_eqI list.simps(9) set_map)
    then have "find (\<lambda>x. f x = k) (filter P xs) = None" by (simp add: find_None_iff)
    with True show ?thesis by simp
  qed (use Cons in simp)
qed simp

lemma vacuum_steps:
  assumes "vacuum env mgr disk = (Some r, mgr', disk')"
  defines "m \<equiv> read_manifest_disk disk"
  shows "read_manifest_disk disk' = m\<lparr>mf_entries := filter (keeps (ev_now env)) (mf_entries m)\<rparr>"
    and "cm_manifest mgr' = read_manifest_disk disk'"
    and "under ''data'' q \<Longrightarrow> hm_get (dk_files disk') q =
      (if q \<notin> ce_file_path ` set (filter (keeps (ev_now env)) (mf_entries m)) \<and> ev_remove_ok env q \<or>
          q \<in> ce_file_path ` set (filter (\<lambda>e. \<not> keeps (ev_now env) e) (mf_entries m)) \<and> ev_remove_ok env q
       then None else hm_get (dk_files disk) q)"
proof -
  let ?m' = "m\<lparr>mf_entries := filter (keeps (ev_now env)) (mf_entries m)\<rparr>"
  let ?ex = "filter (\<lambda>e. \<not> keeps (ev_now env) e) (mf_entries m)"
  let ?d1 = "disk\<lparr>dk_manifest := Some ?m'\<rparr>"
  let ?d2 = "fst (sweep env ?m' (drop_expired env ?ex ?d1))"
  have "disk' = fst (clean_old_tmp env ?d2) \<and> cm_manifest mgr' = ?m'"
  proof (cases rule: locked_cases [of env "split_expired (ev_now env)" mgr disk])
    case 1
    with assms(1) show ?thesis by (simp add: vacuum_def)
  next
    case (2 out m0)
    then have "out = ?ex" "m0 = ?m'" by (simp_all add: split_expired_def m_def)
    with assms(1) 2(2) show ?thesis by (auto simp: vacuum_def Let_def split_beta)
  qed
  then have d': "disk' = fst (clean_old_tmp env ?d2)" and mm: "cm_manifest mgr' = ?m'" by blast+
  show r: "read_manifest_disk disk' = ?m'" unfolding d' by (simp add: clean_old_tmp_get sweep_get drop_expired_get)
  with mm show "cm_manifest mgr' = read_manifest_disk disk'" by simp
  assume "under ''data'' q"
  then have "\<not> under ''tmp'' q" by (auto simp: under_def split: list.splits)
  with \<open>under ''data'' q\<close> show "hm_get (dk_files disk') q =
      (if q \<notin> ce_file_path ` set (filter (keeps (ev_now env)) (mf_entries m)) \<and> ev_remove_ok env q \<or>
          q \<in> ce_file_path ` set ?ex \<and> ev_remove_ok env q
       then None else hm_get (dk_files disk) q)"
    unfolding d' by (simp add: clean_old_tmp_get sweep_get drop_expired_get)
qed

lemma lookup_filter:
  assumes "keys_ok m"
  shows "lookup (m\<lparr>mf_entries := filter P (mf_entries m)\<rparr>) k =
    (case lookup m k of None \<Rightarrow> None | Some e \<Rightarrow> if P e then Some e else None)"
  using assms by (simp add: lookup_def is_for_eq keys_ok_def find_filter_keyed)

lemma keys_ok_filter: "keys_ok m \<Longrightarrow> keys_ok (m\<lparr>mf_entries := filter P (mf_entries m)\<rparr>)"
  by (auto simp: keys_ok_def distinct_map intro: inj_on_subset)

lemma under_data: "entry_ok d e \<Longrightarrow> under ''data'' (ce_file_path e)"
  by (auto simp: entry_ok_def data_path_def under_def)

lemma kept_file:
  assumes "disk_ok disk" "vacuum env mgr disk = (Some r, mgr', disk')"
    and e: "e \<in> set (mf_entries (read_manifest_disk disk))" "keeps (ev_now env) e"
  shows "hm_get (dk_files disk') (ce_file_path e) = hm_get (dk_files disk) (ce_file_path e)"
proof -
  let ?m = "read_manifest_disk disk"
  have ok: "entry_ok disk x" if "x \<in> set (mf_entries ?m)" for x
    using assms(1) that by (simp add: disk_ok_def)
  have "ce_file_path e \<notin> ce_file_path ` set (filter (\<lambda>e. \<not> keeps (ev_now env) e) (mf_entries ?m))"
  proof
    assume "ce_file_path e \<in> ce_file_path ` set (filter (\<lambda>e. \<not> keeps (ev_now env) e) (mf_entries ?m))"
    then obtain x where x: "x \<in> set (mf_entries ?m)" "\<not> keeps (ev_now env) x" "ce_file_path x = ce_file_path e"
      by auto
    from entry_path_key [OF ok [OF x(1)] ok [OF e(1)] x(3)] have "x = e"
      using assms(1) x(1) e(1) by (auto simp: disk_ok_def keys_ok_def distinct_map dest: inj_onD)
    with x(2) e(2) show False by simp
  qed
  moreover have "ce_file_path e \<in> ce_file_path ` set (filter (keeps (ev_now env)) (mf_entries ?m))"
    using e by auto
  ultimately show ?thesis
    using vacuum_steps(3) [OF assms(2) under_data [OF ok [OF e(1)]]] by simp
qed

lemma vacuum_ok:
  assumes "disk_ok disk" "vacuum env mgr disk = (Some r, mgr', disk')"
  shows "disk_ok disk'"
  using assms(1) keys_ok_filter [of "read_manifest_disk disk" "keeps (ev_now env)"] kept_file [OF assms]
  unfolding disk_ok_def vacuum_steps(1) [OF assms(2)] by (auto simp: entry_ok_def file_exists_def)

definition env0 :: Env where
  "env0 = \<lparr>ev_now = 0, ev_lock_ok = True, ev_manifest_write_ok = True, ev_parquet_ok = True,
     ev_remove_ok = (\<lambda>_. True), ev_fresh_name = ''u1''\<rparr>"

definition mgr0 :: Manager where
  "mgr0 = \<lparr>cm_manifest = empty_manifest, cm_inner = []\<rparr>"

definition disk0 :: "nat disk" where
  "disk0 = \<lparr>dk_manifest = None, dk_files = []\<rparr>"

definition orders_table :: TableName where
  "orders_table = \<lparr>tn_schema = ''shop'', tn_table = ''orders''\<rparr>"

lemma disk0_ok: "disk_ok disk0"
  by (simp add: disk_ok_def disk0_def read_manifest_disk_def empty_manifest_def keys_ok_def)

text \<open>A disk with a materialised table and a cache copy that expires at time 10.\<close>

definition disk1 :: "nat disk" where
  "disk1 = snd (snd (write_through length env0 orders_table (Ttl 10) [[[1], [2]]] mgr0
     (snd (snd (materialize length env0 ''report'' [[[7]]] (SpecFile ''r.csv'' None) mgr0 disk0)))))"

lemma disk1_ok: "disk_ok disk1"
proof -
  obtain r1 m1 d1 where 1: "materialize length env0 ''report'' [[[7]]] (SpecFile ''r.csv'' None) mgr0 disk0 = (r1, m1, d1)"
    by (cases "materialize length env0 ''report'' [[[7]]] (SpecFile ''r.csv'' None) mgr0 disk0")
  obtain r2 m2 d2 where 2: "write_through length env0 orders_table (Ttl 10) [[[1], [2]]] mgr0 d1 = (r2, m2, d2)"
    by (cases "write_through length env0 orders_table (Ttl 10) [[[1], [2]]] mgr0 d1")
  have "disk_ok d1" using write_entry_ok(1) [OF disk0_ok 1 [unfolded materialize_def]] .
  from write_entry_ok(1) [OF this 2 [unfolded write_through_def]] 1 2 show ?thesis by (simp add: disk1_def)
qed

text \<open>
  C9. Vacuuming a well-formed cache leaves it well-formed, drops exactly the expired cache copies, never
  touches a materialised table (its entry and its file, with its content, stay, whatever its expiry), and
  keeps the data of every surviving entry; and where deleting files works, no data file without an entry is
  left.
\<close>

theorem vacuum_reclaims_exactly:
  assumes "disk_ok disk" "vacuum env mgr disk = (Some r, mgr', disk')"
  shows "disk_ok disk' \<and>
    (\<forall>k. lookup (read_manifest_disk disk') k =
       (case lookup (read_manifest_disk disk) k of
          None \<Rightarrow> None
        | Some e \<Rightarrow> if is_materialized (ce_origin e) \<or> unexpired (ev_now env) e then Some e else None)) \<and>
    (\<forall>k e. lookup (read_manifest_disk disk') k = Some e \<longrightarrow>
       hm_get (dk_files disk') (ce_file_path e) = hm_get (dk_files disk) (ce_file_path e)) \<and>
    ((\<forall>p. ev_remove_ok env p) \<longrightarrow> (\<forall>p. under ''data'' p \<longrightarrow> file_exists disk' p \<longrightarrow>
       (\<exists>k e. lookup (read_manifest_disk disk') k = Some e \<and> ce_file_path e = p)))"
proof (intro conjI allI impI)
  let ?m = "read_manifest_disk disk"
  have keys: "keys_ok ?m" using assms(1) by (simp add: disk_ok_def)
  note man = vacuum_steps(1) [OF assms(2)]
  show "disk_ok disk'" by (rule vacuum_ok [OF assms])
  show look: "lookup (read_manifest_disk disk') k = (case lookup ?m k of None \<Rightarrow> None
      | Some e \<Rightarrow> if is_materialized (ce_origin e) \<or> unexpired (ev_now env) e then Some e else None)" for k
    unfolding man lookup_filter [OF keys] keeps_def ..
  show "hm_get (dk_files disk') (ce_file_path e) = hm_get (dk_files disk) (ce_file_path e)"
    if "lookup (read_manifest_disk disk') k = Some e" for k e
    using that kept_file [OF assms, of e] lookup_mem [of ?m k e] unfolding look
    by (auto simp: keeps_def split: option.splits if_splits)
  fix p assume p: "\<forall>p. ev_remove_ok env p" "under ''data'' p" "file_exists disk' p"
  then have "p \<in> ce_file_path ` set (filter (keeps (ev_now env)) (mf_entries ?m))"
    using vacuum_steps(3) [OF assms(2) p(2)] by (auto simp: file_exists_def split: if_splits)
  then obtain e where "e \<in> set (mf_entries (read_manifest_disk disk'))" "ce_file_path e = p"
    unfolding man by auto
  with mem_lookup [of "read_manifest_disk disk'" e] vacuum_ok [OF assms]
  show "\<exists>k e. lookup (read_manifest_disk disk') k = Some e \<and> ce_file_path e = p"
    by (auto simp: disk_ok_def)
qed

definition env50 :: Env where
  "env50 = env0\<lparr>ev_now := 50\<rparr>"

lemma disk1_vacuum:
  "case vacuum env50 mgr0 disk1 of
     (Some r, mgr', disk') \<Rightarrow>
       map ce_table (mf_entries (read_manifest_disk disk')) = [''report''] \<and>
       map fst (dk_files disk') = [data_path ''materialized'' ''report'']
   | _ \<Rightarrow> False"
  by code_simp

theorem vacuum_reclaims_exactly_witness:
  "\<exists>r mgr' disk'. vacuum env50 mgr0 disk1 = (Some r, mgr', disk') \<and> disk_ok disk' \<and>
     map ce_table (mf_entries (read_manifest_disk disk')) = [''report'']"
proof -
  from disk1_vacuum obtain r mgr' disk' where v: "vacuum env50 mgr0 disk1 = (Some r, mgr', disk')"
    "map ce_table (mf_entries (read_manifest_disk disk')) = [''report'']"
    by (auto split: prod.splits option.splits)
  from vacuum_reclaims_exactly [OF disk1_ok v(1)] have "disk_ok disk'" by (rule conjunct1)
  with v show ?thesis by (intro exI conjI)
qed

subsection \<open>Processes sharing a cache directory\<close>

text \<open>
  Several processes work on one directory, each with its own manager; an operation is one step.  What
  quarantines a file does so with working locks, since its manifest update is not checked.
\<close>

record 'c system =
  sy_disk :: "'c disk"
  sy_proc :: "nat \<Rightarrow> Manager"

definition mgr_ok :: "Manager \<Rightarrow> bool" where
  "mgr_ok mgr \<longleftrightarrow> (\<forall>e\<in>set (mf_entries (cm_manifest mgr)).
     ce_file_path e = data_path (ce_source e) (ce_table e))"

definition put :: "nat \<Rightarrow> 'c system \<Rightarrow> Manager \<times> 'c disk \<Rightarrow> 'c system" where
  "put i s md = s\<lparr>sy_disk := snd md, sy_proc := (sy_proc s)(i := fst md)\<rparr>"

inductive cache_step :: "('c batch list \<Rightarrow> nat) \<Rightarrow> 'c system \<Rightarrow> 'c system \<Rightarrow> bool" for parquet_len where
  step_open: "cache_step parquet_len s (put i s (new_manager env (sy_disk s)))"
| step_register: "cache_step parquet_len s (put i s (snd (wrap key policy (sy_proc s i)), sy_disk s))"
| step_write: "cache_step parquet_len s
    (put i s (snd (write_through parquet_len env key policy batches (sy_proc s i) (sy_disk s))))"
| step_materialize: "cache_step parquet_len s
    (put i s (snd (materialize parquet_len env name batches spec (sy_proc s i) (sy_disk s))))"
| step_refresh: "cache_step parquet_len s
    (put i s (snd (refresh parquet_len live env key (sy_proc s i) (sy_disk s))))"
| step_invalidate: "cache_step parquet_len s (put i s (snd (invalidate env key (sy_proc s i) (sy_disk s))))"
| step_drop: "cache_step parquet_len s (put i s (snd (drop_materialized env name (sy_proc s i) (sy_disk s))))"
| step_vacuum: "cache_step parquet_len s (put i s (snd (vacuum env (sy_proc s i) (sy_disk s))))"
| step_scan: "ev_lock_ok env \<Longrightarrow> ev_manifest_write_ok env \<Longrightarrow> cache_step parquet_len s
    (put i s (snd (snd (scan parquet_len inner_scan env move_ok width key policy projection (filters :: string list)
       limit (sy_proc s i) (sy_disk s)))))"

definition system_ok :: "'c system \<Rightarrow> bool" where
  "system_ok s \<longleftrightarrow> disk_ok (sy_disk s) \<and> (\<forall>i. mgr_ok (sy_proc s i))"

text \<open>An operation is safe when it keeps the disk and its own manager good.\<close>

definition safe_md :: "Manager \<times> 'c disk \<Rightarrow> bool" where
  "safe_md md \<longleftrightarrow> disk_ok (snd md) \<and> mgr_ok (fst md)"

lemma put_ok: "system_ok s \<Longrightarrow> safe_md md \<Longrightarrow> system_ok (put i s md)"
  by (auto simp: system_ok_def safe_md_def put_def)

lemma disk_ok_mgr: "disk_ok d \<Longrightarrow> cm_manifest mgr = read_manifest_disk d \<Longrightarrow> mgr_ok mgr"
  by (auto simp: disk_ok_def mgr_ok_def entry_ok_def)

lemma write_entry_safe:
  assumes "disk_ok disk" "mgr_ok mgr"
  shows "safe_md (snd (write_entry parquet_len env source table ex orig batches mgr disk))"
proof -
  obtain r mgr' disk' where w: "write_entry parquet_len env source table ex orig batches mgr disk = (r, mgr', disk')"
    by (cases "write_entry parquet_len env source table ex orig batches mgr disk")
  note ok = write_entry_ok [OF assms(1) w]
  show ?thesis
  proof (cases r)
    case None
    with ok(1) ok(3) assms(2) w show ?thesis by (simp add: safe_md_def)
  next
    case (Some e)
    with ok(1) ok(2) [OF Some] disk_ok_mgr [of disk' mgr'] w show ?thesis by (simp add: safe_md_def)
  qed
qed

lemma take_first_Some: "take_first P xs = (Some x, ys) \<Longrightarrow> \<exists>as bs. xs = as @ x # bs \<and> ys = as @ bs \<and> P x"
proof (induction xs arbitrary: ys)
  case (Cons a xs)
  show ?case
  proof (cases "P a")
    case True
    with Cons.prems have "a # xs = [] @ x # ys \<and> ys = [] @ ys \<and> P x" by simp
    then show ?thesis by blast
  next
    case False
    with Cons.prems obtain zs where "take_first P xs = (Some x, zs)" "ys = a # zs"
      by (auto split: prod.splits)
    with Cons.IH [of zs] show ?thesis by (metis append_Cons)
  qed
qed simp

lemma take_first_NoneD: "take_first P xs = (None, ys) \<Longrightarrow> ys = xs"
  by (induction xs arbitrary: ys) (auto split: if_splits prod.splits)

lemma disk_ok_sub:
  assumes "disk_ok d" "keys_ok m" "set (mf_entries m) \<subseteq> set (mf_entries (read_manifest_disk d))"
  shows "disk_ok (d\<lparr>dk_manifest := Some m\<rparr>)"
proof -
  have "entry_ok (d\<lparr>dk_manifest := Some m\<rparr>) e" if "e \<in> set (mf_entries m)" for e
  proof -
    from assms(1) subsetD [OF assms(3) that] have "entry_ok d e" by (auto simp only: disk_ok_def)
    then show ?thesis unfolding entry_ok_def file_exists_manifest .
  qed
  then show ?thesis using assms(2) by (simp add: disk_ok_def)
qed

lemma distinct_map_middle:
  assumes "distinct (map f (as @ x # bs))"
  shows "distinct (map f (as @ bs))" "e \<in> set (as @ bs) \<Longrightarrow> f e \<noteq> f x"
proof -
  from assms show "distinct (map f (as @ bs))" by simp
  assume "e \<in> set (as @ bs)"
  then have "f e \<in> f ` set as \<union> f ` set bs" by auto
  moreover from assms have "f x \<notin> f ` set as \<union> f ` set bs" by simp
  ultimately show "f e \<noteq> f x" by (metis (full_types))
qed

lemma drop_entry_Some:
  assumes "disk_ok disk" "take_first P (mf_entries (read_manifest_disk disk)) = (Some x, mf_entries m)"
  shows "disk_ok (disk\<lparr>dk_manifest := Some m\<rparr>)" "e \<in> set (mf_entries m) \<Longrightarrow> ce_file_path e \<noteq> ce_file_path x"
proof -
  from take_first_Some [OF assms(2)] obtain as bs where
    es: "mf_entries (read_manifest_disk disk) = as @ x # bs" "mf_entries m = as @ bs" by blast
  have dist: "distinct (map entry_key (as @ x # bs))"
    using assms(1) unfolding disk_ok_def keys_ok_def es(1) by simp
  have ok: "entry_ok disk e" if "e \<in> set (as @ x # bs)" for e
    using assms(1) that unfolding disk_ok_def es(1) by blast
  have sub: "set (mf_entries m) \<subseteq> set (mf_entries (read_manifest_disk disk))" unfolding es by auto
  show "disk_ok (disk\<lparr>dk_manifest := Some m\<rparr>)"
    by (rule disk_ok_sub [OF assms(1) _ sub]) (use distinct_map_middle(1) [OF dist] es(2) in \<open>simp add: keys_ok_def\<close>)
  assume e: "e \<in> set (mf_entries m)"
  then have "entry_key e \<noteq> entry_key x" using distinct_map_middle(2) [OF dist] es(2) by simp
  moreover have "entry_ok disk e" using e es(2) by (intro ok) auto
  moreover have "entry_ok disk x" by (intro ok) simp
  ultimately show "ce_file_path e \<noteq> ce_file_path x" using entry_path_key [of disk e x] by iprover
qed

lemma drop_entry_safe:
  assumes "disk_ok disk" "mgr_ok mgr"
  shows "safe_md (snd (drop_entry env P mgr disk))"
proof (cases rule: locked_cases [of env "take_entry P" mgr disk])
  case 1
  with assms show ?thesis by (simp add: drop_entry_def safe_md_def)
next
  case (2 out m)
  let ?d = "disk\<lparr>dk_manifest := Some m\<rparr>" and ?m = "mgr\<lparr>cm_manifest := m\<rparr>"
  from 2(1) have t: "take_first P (mf_entries (read_manifest_disk disk)) = (out, mf_entries m)"
    by (auto simp: take_entry_def split_beta)
  show ?thesis
  proof (cases out)
    case None
    have m: "mf_entries m = mf_entries (read_manifest_disk disk)" by (rule take_first_NoneD [OF t [unfolded None]])
    have "keys_ok m" using assms(1) m by (simp add: disk_ok_def keys_ok_def)
    from disk_ok_sub [OF assms(1) this equalityD1 [OF arg_cong [OF m]]] have "disk_ok ?d" .
    then have "safe_md (?m, ?d)" using disk_ok_mgr [of ?d ?m] by (simp add: safe_md_def)
    with 2(2) None show ?thesis by (simp add: drop_entry_def)
  next
    case (Some x)
    note d = drop_entry_Some [OF assms(1) t [unfolded Some]]
    have "disk_ok (try_remove env (ce_file_path x) ?d)" by (rule disk_ok_remove [OF d(1)]) (simp add: d(2))
    moreover have "mgr_ok ?m" using disk_ok_mgr [OF d(1)] by simp
    ultimately show ?thesis using 2(2) Some by (simp add: drop_entry_def safe_md_def)
  qed
qed

lemma disk_ok_remove_file:
  assumes "disk_ok d" "\<And>e. e \<in> set (mf_entries (read_manifest_disk d)) \<Longrightarrow> ce_file_path e \<noteq> p"
  shows "disk_ok (remove_file p d)"
  using disk_ok_remove [of d p "\<lparr>ev_now = 0, ev_lock_ok = True, ev_manifest_write_ok = True, ev_parquet_ok = True,
    ev_remove_ok = \<lambda>_. True, ev_fresh_name = []\<rparr>"] assms by (simp add: try_remove_def)

lemma disk_ok_corrupt:
  assumes "disk_ok (remove_file p d)"
  shows "disk_ok ((remove_file p d)\<lparr>dk_files := hm_insert (''corrupt'' # q) f (hm_delete p (dk_files d))\<rparr>)"
proof (rule disk_ok_files [OF assms])
  fix p'
  assume "file_exists (remove_file p d) p'" "under ''data'' p'"
  then show "file_exists ((remove_file p d)\<lparr>dk_files := hm_insert (''corrupt'' # q) f (hm_delete p (dk_files d))\<rparr>) p'"
    by (simp add: file_exists_def remove_file_def)
qed

lemma quarantine_safe:
  assumes ok: "disk_ok disk" and io: "ev_lock_ok env" "ev_manifest_write_ok env"
    and entry: "is_for key entry" "ce_file_path entry = data_path (ce_source entry) (ce_table entry)"
  shows "safe_md (quarantine env move_ok key entry mgr disk)"
proof -
  let ?p = "ce_file_path entry"
  let ?P = "\<lambda>e. \<not> (is_for key e \<and> ce_file_path e = ?p)"
  define m where "m = (read_manifest_disk disk)\<lparr>mf_entries := filter ?P (mf_entries (read_manifest_disk disk))\<rparr>"
  define d where "d = disk\<lparr>dk_manifest := Some m\<rparr>"
  have w: "with_locked_manifest env (\<lambda>m. ((), m\<lparr>mf_entries := filter ?P (mf_entries m)\<rparr>)) mgr disk =
      (Some (), mgr\<lparr>cm_manifest := m\<rparr>, d)"
    using io by (simp add: with_locked_manifest_def m_def d_def)
  have "keys_ok m" using ok by (simp add: disk_ok_def keys_ok_def m_def distinct_map_filter)
  moreover have "set (mf_entries m) \<subseteq> set (mf_entries (read_manifest_disk disk))" by (auto simp: m_def)
  ultimately have dok: "disk_ok d" unfolding d_def using disk_ok_sub [OF ok] by iprover
  have md: "read_manifest_disk d = m" by (simp add: d_def)
  have mok: "mgr_ok (mgr\<lparr>cm_manifest := m\<rparr>)" using disk_ok_mgr [OF dok] md by simp
  have other: "ce_file_path e \<noteq> ?p" if "e \<in> set (mf_entries (read_manifest_disk d))" for e
  proof
    assume eq: "ce_file_path e = ?p"
    have "entry_ok d e" using dok that by (simp only: disk_ok_def)
    then have "ce_file_path e = data_path (ce_source e) (ce_table e)" by (simp only: entry_ok_def)
    with eq entry(2) have "ce_source e = ce_source entry" "ce_table e = ce_table entry"
      using data_path_inj by metis+
    with entry(1) have "is_for key e" by (simp add: is_for_def)
    with that eq md show False by (simp add: m_def)
  qed
  note gone = disk_ok_remove_file [OF dok other]
  have rm: "disk_ok (try_remove env ?p d)" using gone dok by (simp add: try_remove_def)
  show ?thesis
  proof (cases "hm_get (dk_files d) ?p")
    case None
    then show ?thesis unfolding quarantine_def w using dok mok by (simp add: safe_md_def)
  next
    case (Some f)
    then show ?thesis unfolding quarantine_def w using disk_ok_corrupt [OF gone] rm mok by (simp add: safe_md_def)
  qed
qed

lemma clean_old_tmp_ok:
  assumes "disk_ok d"
  shows "disk_ok (fst (clean_old_tmp env d))"
proof -
  have keep: "file_exists (fst (clean_old_tmp env d)) (data_path s t) = file_exists d (data_path s t)" for s t
    unfolding file_exists_def by (subst clean_old_tmp_get(2)) (simp_all add: data_path_def under_def)
  have "entry_ok (fst (clean_old_tmp env d)) e" if "e \<in> set (mf_entries (read_manifest_disk d))" for e
  proof -
    from assms that have "entry_ok d e" by (simp only: disk_ok_def)
    then show ?thesis unfolding entry_ok_def using keep by metis
  qed
  with assms show ?thesis by (simp add: disk_ok_def clean_old_tmp_get(1))
qed

lemma new_manager_safe: "disk_ok disk \<Longrightarrow> safe_md (new_manager env disk)"
  using clean_old_tmp_ok [of disk env] disk_ok_mgr [of disk "\<lparr>cm_manifest = read_manifest_disk disk, cm_inner = []\<rparr>"]
  by (simp add: new_manager_def safe_md_def)

lemma wrap_safe: "disk_ok disk \<Longrightarrow> mgr_ok mgr \<Longrightarrow> safe_md (snd (wrap key policy mgr), disk)"
  by (simp add: wrap_def register_inner_def mgr_ok_def safe_md_def)

lemma write_through_safe:
  "disk_ok disk \<Longrightarrow> mgr_ok mgr \<Longrightarrow> safe_md (snd (write_through parquet_len env key policy batches mgr disk))"
  unfolding write_through_def by (rule write_entry_safe)

lemma materialize_safe:
  "disk_ok disk \<Longrightarrow> mgr_ok mgr \<Longrightarrow> safe_md (snd (materialize parquet_len env name batches spec mgr disk))"
  unfolding materialize_def by (rule write_entry_safe)

lemma refresh_safe:
  assumes "disk_ok disk" "mgr_ok mgr"
  shows "safe_md (snd (refresh parquet_len live env key mgr disk))"
proof -
  have same: "safe_md (mgr, disk)" using assms by (simp add: safe_md_def)
  have w: "safe_md (snd (write_through parquet_len env key policy batches mgr disk))" for policy batches
    using assms by (rule write_through_safe)
  show ?thesis
    using same w by (auto simp: refresh_def split: option.split prod.split dest!: sym [of _ "(_, _)"])
      (metis snd_conv)+
qed

lemma vacuum_mgr:
  assumes "vacuum env mgr disk = (Some r, mgr', disk')"
  shows "cm_manifest mgr' = read_manifest_disk disk'"
proof (cases rule: locked_cases [of env "split_expired (ev_now env)" mgr disk])
  case 1
  with assms show ?thesis by (simp add: vacuum_def)
next
  case (2 out m)
  then have "mgr' = mgr\<lparr>cm_manifest := m\<rparr>" using assms by (simp add: vacuum_def split_beta Let_def)
  moreover have "read_manifest_disk disk' = m"
    using vacuum_steps(1) [OF assms] 2(1) by (auto simp: split_expired_def)
  ultimately show ?thesis by simp
qed

lemma vacuum_safe:
  assumes "disk_ok disk" "mgr_ok mgr"
  shows "safe_md (snd (vacuum env mgr disk))"
proof -
  obtain r mgr' disk' where v: "vacuum env mgr disk = (r, mgr', disk')" by (cases "vacuum env mgr disk")
  show ?thesis
  proof (cases r)
    case None
    with v have "mgr' = mgr \<and> disk' = disk"
      by (cases rule: locked_cases [of env "split_expired (ev_now env)" mgr disk])
        (auto simp: vacuum_def split_beta Let_def)
    with v assms show ?thesis by (simp add: safe_md_def)
  next
    case (Some rep)
    note v' = v [unfolded Some]
    from vacuum_ok [OF assms(1) v'] disk_ok_mgr vacuum_mgr [OF v'] v show ?thesis by (simp add: safe_md_def)
  qed
qed

lemma fresh_mem:
  assumes "fresh now mgr name = Some e"
  shows "e \<in> set (mf_entries (cm_manifest mgr))" "is_for name e" "unexpired now e"
  using assms by (auto simp: fresh_def find_Some_iff)

lemma fetch_safe:
  assumes "disk_ok disk" "mgr_ok mgr"
  shows "safe_md (snd (snd (case inner_scan filters limit of
      None \<Rightarrow> (None, True, mgr, disk)
    | Some batches \<Rightarrow> (case write_through parquet_len env name policy batches mgr disk of
        (_, mgr', disk') \<Rightarrow> (project_batches width batches projection, True, mgr', disk')))))"
proof (cases "inner_scan filters limit")
  case None
  with assms show ?thesis by (simp add: safe_md_def)
next
  case (Some batches)
  with write_through_safe [OF assms, of parquet_len env name policy batches] show ?thesis
    by (cases "write_through parquet_len env name policy batches mgr disk") simp
qed

lemma scan_safe:
  assumes "disk_ok disk" "mgr_ok mgr" "ev_lock_ok env" "ev_manifest_write_ok env"
  shows "safe_md (snd (snd (scan parquet_len inner_scan env move_ok width name policy projection filters limit
    mgr disk)))"
proof (cases "fresh (ev_now env) mgr name")
  case None
  with fetch_safe [OF assms(1,2)] show ?thesis by (simp only: scan_def option.case)
next
  case (Some entry)
  show ?thesis
  proof (cases "read_parquet width disk (ce_file_path entry) projection")
    case None
    obtain mgr1 disk1 where q: "quarantine env move_ok name entry mgr disk = (mgr1, disk1)" by fastforce
    from fresh_mem [OF Some] assms(2) have "ce_file_path entry = data_path (ce_source entry) (ce_table entry)"
      by (simp add: mgr_ok_def)
    from quarantine_safe [OF assms(1,3,4) fresh_mem(2) [OF Some] this, of move_ok mgr] q
    have "disk_ok disk1" "mgr_ok mgr1" by (simp_all add: safe_md_def)
    from fetch_safe [OF this] Some None q show ?thesis by (simp only: scan_def option.case prod.case)
  next
    case (Some batches)
    with \<open>fresh (ev_now env) mgr name = Some entry\<close> assms show ?thesis by (simp add: scan_def safe_md_def)
  qed
qed

text \<open>Each kind of step is safe, so goodness of the whole system is an invariant.\<close>

lemmas step_safe = new_manager_safe wrap_safe write_through_safe materialize_safe refresh_safe
  drop_entry_safe vacuum_safe scan_safe

lemma cache_step_ok:
  assumes "cache_step parquet_len s s'" "system_ok s"
  shows "system_ok s'"
proof -
  from assms(2) have ok: "disk_ok (sy_disk s)" "\<And>i. mgr_ok (sy_proc s i)" by (simp_all add: system_ok_def)
  from assms(1) show ?thesis
    by cases (auto intro!: put_ok [OF assms(2)] step_safe ok simp: invalidate_def drop_materialized_def)
qed

definition start :: "'c system" where
  "start = \<lparr>sy_disk = \<lparr>dk_manifest = None, dk_files = []\<rparr>, sy_proc = (\<lambda>_. \<lparr>cm_manifest = empty_manifest, cm_inner = []\<rparr>)\<rparr>"

lemma start_ok: "system_ok start"
  by (simp add: start_def system_ok_def disk_ok_def keys_ok_def read_manifest_disk_def empty_manifest_def mgr_ok_def)



subsection \<open>Freshness, hits and self-healing\<close>

lemma fresh_lookup:
  assumes "keys_ok (cm_manifest mgr)"
  shows "fresh now mgr k =
    (case lookup (cm_manifest mgr) k of None \<Rightarrow> None | Some e \<Rightarrow> if unexpired now e then Some e else None)"
proof -
  have "find (\<lambda>e. entry_key e = k \<and> Q e) es =
      (case find (\<lambda>e. entry_key e = k) es of None \<Rightarrow> None | Some e \<Rightarrow> if Q e then Some e else None)"
    if "distinct (map entry_key es)" for Q es
    using that
  proof (induction es)
    case (Cons e es)
    have "find (\<lambda>x. entry_key x = entry_key e \<and> Q x) es = None"
      using Cons.prems by (auto simp: find_None_iff) (metis image_eqI)
    with Cons show ?case by auto
  qed simp
  with assms show ?thesis by (simp add: fresh_def lookup_def is_for_eq keys_ok_def)
qed

lemma write_through_ok:
  assumes "disk_ok disk" "write_through parquet_len env key policy batches mgr disk = (Some e, mgr', disk')"
  shows "disk_ok disk'" "cm_manifest mgr' = read_manifest_disk disk'"
    "lookup (cm_manifest mgr') = (lookup (read_manifest_disk disk))(key \<mapsto> e)"
    "ce_expires_at e = ttl_expiry policy (ev_now env)" "ce_file_path e = data_path (tn_schema key) (tn_table key)"
    "map_option fl_content (hm_get (dk_files disk') (ce_file_path e)) = Some (Batches batches)"
proof -
  note w = write_entry_ok [OF assms(1) assms(2) [unfolded write_through_def]]
  show "disk_ok disk'" by (rule w(1))
  show "cm_manifest mgr' = read_manifest_disk disk'"
    "lookup (cm_manifest mgr') = (lookup (read_manifest_disk disk))(key \<mapsto> e)"
    "ce_expires_at e = ttl_expiry policy (ev_now env)" "ce_file_path e = data_path (tn_schema key) (tn_table key)"
    "map_option fl_content (hm_get (dk_files disk') (ce_file_path e)) = Some (Batches batches)"
    using w(2) [OF refl] by auto
qed

lemma write_through_is_fresh:
  assumes "disk_ok disk" "write_through parquet_len env key policy batches mgr disk = (Some e, mgr', disk')"
  shows "fresh now mgr' key =
    (case ttl_expiry policy (ev_now env) of None \<Rightarrow> Some e | Some exp \<Rightarrow> if now < exp then Some e else None)"
proof -
  note w = write_through_ok [OF assms]
  have "keys_ok (cm_manifest mgr')" using w(1,2) by (simp add: disk_ok_def)
  from fresh_lookup [OF this] w(3,4) show ?thesis by (simp add: unexpired_def split: option.split)
qed

lemma read_written:
  assumes "map_option fl_content (hm_get (dk_files disk) p) = Some (Batches batches)"
  shows "read_parquet width disk p projection = project_batches width batches projection"
  using assms by (auto simp: read_parquet_def)


definition users :: TableName where
  "users = \<lparr>tn_schema = ''api'', tn_table = ''users''\<rparr>"

definition empty_disk :: "nat disk" where
  "empty_disk = \<lparr>dk_manifest = None, dk_files = []\<rparr>"

lemma empty_disk_ok: "disk_ok empty_disk"
  by (simp add: empty_disk_def disk_ok_def keys_ok_def read_manifest_disk_def empty_manifest_def)


lemma write_through_succeeds:
  assumes "ev_lock_ok env" "ev_manifest_write_ok env" "ev_parquet_ok env"
  obtains e mgr' disk' where
    "write_through parquet_len env key policy batches mgr disk = (Some e, mgr', disk')"
  using assms by (auto simp: write_through_def write_entry_def atomic_write_parquet_def upsert_def
      with_locked_manifest_def Let_def)

text \<open>
  A corrupt cache file heals itself: when the fresh entry's file cannot be read, the scan quarantines it,
  answers from the live provider, and (I/O permitting) leaves a manifest entry and a readable file with the live
  answer, so that the next scan at a time before expiry hits.
\<close>

lemma corrupt_file_self_heals:
  assumes "disk_ok disk" "mgr_ok mgr" "fresh (ev_now env) mgr name = Some entry"
    and "read_parquet width disk (ce_file_path entry) projection = None"
    and "inner_scan filters limit = Some batches"
    and "ev_lock_ok env" "ev_manifest_write_ok env" "ev_parquet_ok env"
  shows "\<exists>mgr' disk'. scan parquet_len inner_scan env move_ok width name policy projection filters limit mgr disk =
      (project_batches width batches projection, True, mgr', disk') \<and> disk_ok disk' \<and>
    (\<exists>e. lookup (cm_manifest mgr') name = Some e \<and> ce_written_at e = ev_now env \<and>
       (\<forall>pr. read_parquet width disk' (ce_file_path e) pr = project_batches width batches pr))"
proof -
  obtain mgr1 disk1 where q: "quarantine env move_ok name entry mgr disk = (mgr1, disk1)" by fastforce
  have "ce_file_path entry = data_path (ce_source entry) (ce_table entry)"
    using fresh_mem(1) [OF assms(3)] assms(2) by (simp add: mgr_ok_def)
  from quarantine_safe [OF assms(1,6,7) fresh_mem(2) [OF assms(3)] this, of move_ok mgr] q
  have ok1: "disk_ok disk1" by (simp add: safe_md_def)
  obtain e mgr' disk' where
    w: "write_through parquet_len env name policy batches mgr1 disk1 = (Some e, mgr', disk')"
    using write_through_succeeds [OF assms(6,7,8)] by blast
  note wo = write_through_ok [OF ok1 w]
  have at: "ce_written_at e = ev_now env"
    using write_entry_ok(2) [OF ok1 w [unfolded write_through_def] refl] by auto
  have "scan parquet_len inner_scan env move_ok width name policy projection filters limit mgr disk =
      (project_batches width batches projection, True, mgr', disk')"
    using assms(3-5) q w by (simp add: scan_def)
  moreover have "lookup (cm_manifest mgr') name = Some e" using wo(3) by simp
  ultimately show ?thesis using wo(1) at read_written [OF wo(6)] by blast
qed

text \<open>The cache with a file that does not read.\<close>

definition corrupt_disk :: "nat disk" where
  "corrupt_disk = (case write_through (\<lambda>_. 3) env0 users (Ttl 10) [[[1, 2]]] mgr0 empty_disk of
     (_, _, d) \<Rightarrow> d\<lparr>dk_files := map (\<lambda>(p, f). (p, f\<lparr>fl_content := Unreadable\<rparr>)) (dk_files d)\<rparr>)"

definition corrupt_mgr :: Manager where
  "corrupt_mgr = fst (snd (write_through (\<lambda>_. 3) env0 users (Ttl 10) [[[1, 2]]] mgr0 empty_disk))"

lemma corrupt_ok: "disk_ok corrupt_disk" "mgr_ok corrupt_mgr"
  by code_simp+

text \<open>
  A cache miss stores the answer to the query at hand as the whole table: after a scan with a limit of one
  row, a scan without a limit is a hit and answers with that one row, although the source has two.
\<close>

lemma limited_scan_poisons_cache:
  "let inner = (\<lambda>(_ :: string list) limit. Some [case limit of None \<Rightarrow> [[1], [2]] | Some n \<Rightarrow> take n [[1], [2 :: nat]]]);
       (r1, live1, mgr1, disk1) = scan (\<lambda>_. 3) inner env0 True 1 users (Ttl 10) None [] (Some 1) mgr0 empty_disk;
       (r2, live2, mgr2, disk2) = scan (\<lambda>_. 3) inner env0 True 1 users (Ttl 10) None [] None mgr1 disk1
   in inner [] None = Some [[[1], [2]]] \<and> r2 = Some [[[1]]] \<and> \<not> live2"
  by code_simp

subsection \<open>Refinement: a shared map from tables to contents\<close>

text \<open>
  What the directory holds, seen from outside: the content of the file of each table's entry.  The operations of
  several processes, each with a manager that may know an arbitrarily old manifest, act on it like updates of one
  map, in the order in which they take the manifest lock.
\<close>

definition contents :: "'c disk \<Rightarrow> TableName \<rightharpoonup> 'c content" where
  "contents disk k = Option.bind (lookup (read_manifest_disk disk) k)
     (\<lambda>e. map_option fl_content (hm_get (dk_files disk) (ce_file_path e)))"

datatype 'c cache_op =
    Write TableName CachePolicy "'c batch list"
  | Materialize string MaterializeSpec "'c batch list"
  | Invalidate TableName

fun perform :: "('c batch list \<Rightarrow> nat) \<Rightarrow> nat \<times> Env \<times> 'c cache_op \<Rightarrow> 'c system \<Rightarrow> 'c system" where
  "perform parquet_len (i, env, Write key policy batches) s =
     put i s (snd (write_through parquet_len env key policy batches (sy_proc s i) (sy_disk s)))"
| "perform parquet_len (i, env, Materialize name spec batches) s =
     put i s (snd (materialize parquet_len env name batches spec (sy_proc s i) (sy_disk s)))"
| "perform parquet_len (i, env, Invalidate key) s =
     put i s (snd (invalidate env key (sy_proc s i) (sy_disk s)))"

fun update :: "'c cache_op \<Rightarrow> (TableName \<rightharpoonup> 'c content) \<Rightarrow> (TableName \<rightharpoonup> 'c content)" where
  "update (Write key policy batches) m = m(key \<mapsto> Batches batches)"
| "update (Materialize name spec batches) m =
     m(\<lparr>tn_schema = materialized_schema, tn_table = name\<rparr> \<mapsto> Batches batches)"
| "update (Invalidate key) m = m(key := None)"

definition io_works :: "Env \<Rightarrow> bool" where
  "io_works env \<longleftrightarrow> ev_lock_ok env \<and> ev_manifest_write_ok env \<and> ev_parquet_ok env"

lemma lookup_path:
  assumes "disk_ok disk" "lookup (read_manifest_disk disk) k = Some e"
  shows "ce_file_path e = data_path (tn_schema k) (tn_table k)"
  using assms lookup_mem [OF assms(2)] by (auto simp: disk_ok_def entry_ok_def entry_key_def)

lemma contents_path:
  assumes "disk_ok disk"
  shows "contents disk k = (if lookup (read_manifest_disk disk) k = None then None
    else map_option fl_content (hm_get (dk_files disk) (data_path (tn_schema k) (tn_table k))))"
  using lookup_path [OF assms] by (auto simp: contents_def)

lemma write_entry_contents:
  assumes "disk_ok disk" "io_works env"
  shows "contents (snd (snd (write_entry parquet_len env source table ex orig batches mgr disk))) =
    (contents disk)(\<lparr>tn_schema = source, tn_table = table\<rparr> \<mapsto> Batches batches)"
proof -
  obtain r mgr' disk' where w: "write_entry parquet_len env source table ex orig batches mgr disk = (r, mgr', disk')"
    by (cases "write_entry parquet_len env source table ex orig batches mgr disk")
  have r: "r \<noteq> None" and other: "hm_get (dk_files disk') p = hm_get (dk_files disk) p" if "p \<noteq> data_path source table" for p
    using w assms(2) that by (auto simp: write_entry_def atomic_write_parquet_def upsert_def
        with_locked_manifest_def Let_def io_works_def)
  from w assms(2) obtain e where e: "r = Some e"
    by (auto simp: write_entry_def atomic_write_parquet_def upsert_def with_locked_manifest_def Let_def io_works_def)
  note wo = write_entry_ok(1,2) [OF assms(1) w]
  note look = wo(2) [OF e, THEN conjunct1] and rest = wo(2) [OF e, THEN conjunct2]
  have "contents disk' k = ((contents disk)(\<lparr>tn_schema = source, tn_table = table\<rparr> \<mapsto> Batches batches)) k" for k
  proof (cases "k = \<lparr>tn_schema = source, tn_table = table\<rparr>")
    case True
    with rest show ?thesis by (auto simp: contents_path [OF wo(1)] look)
  next
    case False
    then have "data_path (tn_schema k) (tn_table k) \<noteq> data_path source table"
      by (cases k) (auto simp: data_path_inj)
    with False other show ?thesis by (simp add: contents_path [OF wo(1)] contents_path [OF assms(1)] look)
  qed
  with w show ?thesis by (simp add: fun_eq_iff)
qed

lemma invalidate_contents:
  assumes "disk_ok disk" "io_works env"
  shows "contents (snd (snd (invalidate env key mgr disk))) = (contents disk)(key := None)"
proof -
  let ?m = "read_manifest_disk disk"
  obtain out m where t: "take_entry (is_for key) ?m = (out, m)" by fastforce
  have keys: "keys_ok ?m" using assms(1) by (simp add: disk_ok_def)
  have look: "lookup m = (lookup ?m)(key := None)"
    using manifest.get_del [OF keys, of key] t by (simp add: delete_def)
  let ?d = "disk\<lparr>dk_manifest := Some m\<rparr>"
  have w: "with_locked_manifest env (take_entry (is_for key)) mgr disk = (Some out, mgr\<lparr>cm_manifest := m\<rparr>, ?d)"
    using assms(2) t by (simp add: with_locked_manifest_def io_works_def)
  have out: "out = lookup ?m key" using t keys
    by (auto simp: take_entry_def lookup_def is_for_eq take_first_distinct keys_ok_def)
  have same: "contents ?d = (contents disk)(key := None)" by (auto simp: fun_eq_iff contents_def look)
  show ?thesis
  proof (cases out)
    case None
    with w same show ?thesis by (simp add: invalidate_def drop_entry_def)
  next
    case (Some e)
    note p = lookup_path [OF assms(1)]
    have "contents (remove_file (ce_file_path e) ?d) k = contents ?d k" for k
    proof (cases "k = key")
      case False
      have "ce_file_path e' \<noteq> ce_file_path e" if "lookup ?m k = Some e'" for e'
        using p [OF that] p [OF Some [unfolded out]] False by (cases k; cases key) (auto simp: data_path_inj)
      then show ?thesis by (cases "lookup m k") (auto simp: contents_def look remove_file_def split: if_splits)
    qed (simp add: contents_def look)
    then have "contents (try_remove env (ce_file_path e) ?d) = contents ?d"
      by (simp add: try_remove_def fun_eq_iff)
    with w Some same show ?thesis by (simp add: invalidate_def drop_entry_def)
  qed
qed

lemma perform_step: "cache_step parquet_len s (perform parquet_len (i, env, op) s)"
  by (cases op) (simp_all add: cache_step.intros)

lemma perform_contents:
  assumes "system_ok s" "io_works env"
  shows "contents (sy_disk (perform parquet_len (i, env, op) s)) = update op (contents (sy_disk s))"
proof -
  have ok: "disk_ok (sy_disk s)" using assms(1) by (simp add: system_ok_def)
  have key: "\<lparr>tn_schema = tn_schema k, tn_table = tn_table k\<rparr> = k" for k :: TableName by (cases k) simp
  show ?thesis
    by (cases op) (simp_all add: put_def write_through_def materialize_def write_entry_contents [OF ok assms(2)]
        invalidate_contents [OF ok assms(2)] key)
qed



end
