(* ===== verification/Http_Guard.thy ===== *)
theory Http_Guard
  imports Prelude "HOL-Library.Word"
begin

unbundle bit_operations_syntax

section \<open>The outbound guard of HTTP sources\<close>

text \<open>
  \<open>pawrly-sources/http/src/guard.rs\<close>: which targets a SQL-driven request may pivot to.  A URL is what the
  accessors of the \<open>url\<close> library say of it; the public-suffix list is the argument \<open>public_suffix\<close>.  Addresses
  are machine words, and the classification of the code (octets and segment masks) is compared with the
  networks it stands for, written as prefixes.
\<close>

datatype IpAddr = V4 "32 word" | V6 "128 word"

datatype Host = Domain string | Ipv4 "32 word" | Ipv6 "128 word"

record Url =
  u_text :: string
  u_scheme :: string
  u_host :: "Host option"
  u_host_str :: "string option"
  u_port :: "nat option"

definition trim_end_matches :: "char \<Rightarrow> string \<Rightarrow> string" where
  "trim_end_matches c s = rev (dropWhile (\<lambda>x. x = c) (rev s))"

subsection \<open>Host patterns\<close>

datatype HostPattern = Exact string | Suffix string

definition HostPattern_parse :: "(string \<Rightarrow> string option) \<Rightarrow> string \<Rightarrow> string + HostPattern" where
  "HostPattern_parse public_suffix s0 =
     (let s = to_ascii_lowercase (trim s0) in
      case strip_prefix ''*.'' s of
        Some rest0 \<Rightarrow>
          let rest = trim_end_matches (CHR ''.'') rest0 in
          if rest = [] then Inl ''wildcard needs a suffix''
          else if (case public_suffix rest of
                     Some suf \<Rightarrow> to_ascii_lowercase suf = to_ascii_lowercase rest
                   | None \<Rightarrow> False)
          then Inl (''`*.'' @ rest @ ''` spans a whole public suffix; list exact hosts instead'')
          else Inr (Suffix (CHR ''.'' # rest))
      | None \<Rightarrow>
          let s' = trim_end_matches (CHR ''.'') s in
          if s' = [] \<or> CHR ''*'' \<in> set s' then Inl ''expected a hostname or `*.suffix`''
          else Inr (Exact s'))"

fun is_wildcard :: "HostPattern \<Rightarrow> bool" where
  "is_wildcard (Exact _) = False"
| "is_wildcard (Suffix _) = True"

definition pattern_matches :: "HostPattern \<Rightarrow> string \<Rightarrow> bool" where
  "pattern_matches p host0 =
     (let host = to_ascii_lowercase (trim_end_matches (CHR ''.'') host0) in
      case p of
        Exact h \<Rightarrow> host = h
      | Suffix suffix \<Rightarrow> length host > length suffix \<and> ends_with suffix host)"

definition same_origin :: "Url \<Rightarrow> Url \<Rightarrow> bool" where
  "same_origin a b \<longleftrightarrow> u_scheme a = u_scheme b \<and> u_host_str a = u_host_str b \<and> u_port a = u_port b"

definition host_allowed :: "Url \<Rightarrow> HostPattern list \<Rightarrow> bool" where
  "host_allowed url allowed =
     (case u_host_str url of None \<Rightarrow> False | Some h \<Rightarrow> list_ex (\<lambda>p. pattern_matches p h) allowed)"

definition is_trusted :: "Url \<Rightarrow> Url \<Rightarrow> HostPattern list \<Rightarrow> bool" where
  "is_trusted url base allowed \<longleftrightarrow> same_origin url base \<or> host_allowed url allowed"

subsection \<open>Addresses\<close>

datatype IpClass = Allow | Private | AlwaysRefuse

text \<open>The octets of an IPv4 address and the first segment of an IPv6 address (\<open>std::net\<close>).\<close>

definition octet :: "nat \<Rightarrow> 32 word \<Rightarrow> 8 word" where
  "octet i ip = ucast (drop_bit (24 - 8 * i) ip)"

definition segment0 :: "128 word \<Rightarrow> 16 word" where
  "segment0 ip = ucast (drop_bit 112 ip)"

definition v4_is_loopback :: "32 word \<Rightarrow> bool" where
  "v4_is_loopback ip \<longleftrightarrow> octet 0 ip = 127"

definition v4_is_link_local :: "32 word \<Rightarrow> bool" where
  "v4_is_link_local ip \<longleftrightarrow> octet 0 ip = 169 \<and> octet 1 ip = 254"

definition v4_is_private :: "32 word \<Rightarrow> bool" where
  "v4_is_private ip \<longleftrightarrow> octet 0 ip = 10 \<or> octet 0 ip = 172 \<and> 16 \<le> octet 1 ip \<and> octet 1 ip \<le> 31 \<or>
     octet 0 ip = 192 \<and> octet 1 ip = 168"

fun classify :: "IpAddr \<Rightarrow> IpClass" where
  "classify (V4 v4) =
     (if v4_is_loopback v4 then Allow
      else if v4_is_link_local v4 \<or> v4 = 0 \<or> v4 = 0xffffffff then AlwaysRefuse
      else if v4_is_private v4 \<or> (octet 0 v4 = 100 \<and> 64 \<le> octet 1 v4 \<and> octet 1 v4 < 128) then Private
      else Allow)"
| "classify (V6 v6) =
     (if v6 = 1 then Allow
      else if v6 = 0 \<or> (segment0 v6 AND 0xffc0) = 0xfe80 then AlwaysRefuse
      else if (segment0 v6 AND 0xfe00) = 0xfc00 then Private
      else Allow)"

text \<open>\<open>to_ipv4_mapped\<close>: addresses of the form \<open>::ffff:a.b.c.d\<close>.\<close>

fun normalize :: "IpAddr \<Rightarrow> IpAddr" where
  "normalize (V4 v4) = V4 v4"
| "normalize (V6 v6) = (if drop_bit 32 v6 = 0xffff then V4 (ucast v6) else V6 v6)"

definition refusal :: "Url \<Rightarrow> string \<Rightarrow> string" where
  "refusal url what =
     ''refusing cross-origin request to `'' @ u_text url @ ''`: '' @ what @
     '' targets are not reachable from a query (declare the host as a source's `base_url` or `allowed_hosts`)''"

definition check_ip :: "IpAddr \<Rightarrow> Url \<Rightarrow> HostPattern list \<Rightarrow> string + unit" where
  "check_ip ip url allowed =
     (case classify ip of
        Allow \<Rightarrow> Inr ()
      | AlwaysRefuse \<Rightarrow> Inl (''refusing cross-origin request to `'' @ u_text url @
          ''`: link-local/metadata targets are never reachable from a query'')
      | Private \<Rightarrow> if host_allowed url allowed then Inr () else Inl (refusal url ''private''))"

definition check_target :: "Url \<Rightarrow> Url \<Rightarrow> HostPattern list \<Rightarrow> string + unit" where
  "check_target url base allowed =
     (if same_origin url base then Inr ()
      else if u_scheme url \<notin> {''http'', ''https''}
      then Inl (''refusing `'' @ u_text url @ ''`: only http(s) targets are allowed'')
      else case u_host url of
        None \<Rightarrow> Inl (refusal url ''host-less'')
      | Some (Domain d0) \<Rightarrow>
          let d = to_ascii_lowercase (trim_end_matches (CHR ''.'') d0) in
          if host_allowed url allowed \<or> d = ''localhost'' \<or> ends_with ''.localhost'' d then Inr ()
          else if ends_with ''.internal'' d then Inl (refusal url ''`.internal`'')
          else Inr ()
      | Some (Ipv4 ip) \<Rightarrow> check_ip (V4 ip) url allowed
      | Some (Ipv6 ip) \<Rightarrow> check_ip (normalize (V6 ip)) url allowed)"

subsection \<open>Redirects and resolved names\<close>

text \<open>The decision on one redirect; \<open>previous\<close> counts the URLs already requested (the first one included).\<close>

definition redirect_policy :: "Url \<Rightarrow> HostPattern list \<Rightarrow> bool \<Rightarrow> nat \<Rightarrow> Url \<Rightarrow> string + unit" where
  "redirect_policy base allowed has_auth previous url =
     (if previous > 5 then Inl ''too many redirects''
      else rbind (check_target url base allowed) (\<lambda>_.
        if has_auth \<and> \<not> is_trusted url base allowed
        then Inl ''refusing to follow a credentialed redirect to an untrusted host''
        else Inr ()))"

record GuardedResolver =
  gr_base_host :: "string option"
  gr_allowed :: "HostPattern list"

definition GuardedResolver_new :: "Url \<Rightarrow> HostPattern list \<Rightarrow> GuardedResolver" where
  "GuardedResolver_new base allowed =
     \<lparr>gr_base_host = map_option to_ascii_lowercase (u_host_str base), gr_allowed = allowed\<rparr>"

definition name_trusted :: "string \<Rightarrow> string option \<Rightarrow> HostPattern list \<Rightarrow> bool" where
  "name_trusted name base_host allowed \<longleftrightarrow>
     (case base_host of Some b \<Rightarrow> to_ascii_lowercase b = to_ascii_lowercase name | None \<Rightarrow> False) \<or>
     list_ex (\<lambda>p. pattern_matches p name) allowed"

fun screen_resolved ::
  "(IpAddr \<Rightarrow> string) \<Rightarrow> string \<Rightarrow> IpAddr list \<Rightarrow> string option \<Rightarrow> HostPattern list \<Rightarrow> string + unit" where
  "screen_resolved show_ip name [] base_host allowed = Inr ()"
| "screen_resolved show_ip name (addr # addrs) base_host allowed =
     (case classify (normalize addr) of
        Allow \<Rightarrow> screen_resolved show_ip name addrs base_host allowed
      | AlwaysRefuse \<Rightarrow> Inl (''refusing `'' @ name @ ''`: resolves to a link-local/metadata address'')
      | Private \<Rightarrow>
          if \<not> name_trusted name base_host allowed
          then Inl (''refusing `'' @ name @ ''`: resolves to a private address '' @ show_ip addr)
          else screen_resolved show_ip name addrs base_host allowed)"

definition resolve ::
  "(string \<Rightarrow> string + IpAddr list) \<Rightarrow> (IpAddr \<Rightarrow> string) \<Rightarrow> GuardedResolver \<Rightarrow> string \<Rightarrow> string + IpAddr list" where
  "resolve lookup_host show_ip r name =
     (let host = to_ascii_lowercase name in
      rbind (lookup_host host) (\<lambda>addrs.
        rbind (screen_resolved show_ip host addrs (gr_base_host r) (gr_allowed r)) (\<lambda>_. Inr addrs)))"

subsection \<open>The networks behind the classification\<close>

definition in_net4 :: "32 word \<Rightarrow> 32 word \<Rightarrow> nat \<Rightarrow> bool" where
  "in_net4 ip net len \<longleftrightarrow> drop_bit (32 - len) ip = drop_bit (32 - len) net"

definition in_net6 :: "128 word \<Rightarrow> 128 word \<Rightarrow> nat \<Rightarrow> bool" where
  "in_net6 ip net len \<longleftrightarrow> drop_bit (128 - len) ip = drop_bit (128 - len) net"

text \<open>
  Link-local networks (169.254.0.0/16, fe80::/10), the unspecified and the broadcast address; private
  networks (10.0.0.0/8, 172.16.0.0/12, 192.168.0.0/16, 100.64.0.0/10, fc00::/7).
\<close>

fun never_reachable :: "IpAddr \<Rightarrow> bool" where
  "never_reachable (V4 ip) \<longleftrightarrow> in_net4 ip 0xa9fe0000 16 \<or> ip = 0 \<or> ip = 0xffffffff"
| "never_reachable (V6 ip) \<longleftrightarrow> in_net6 ip 0xfe800000000000000000000000000000 10 \<or> ip = 0"

fun private_net :: "IpAddr \<Rightarrow> bool" where
  "private_net (V4 ip) \<longleftrightarrow> in_net4 ip 0x0a000000 8 \<or> in_net4 ip 0xac100000 12 \<or> in_net4 ip 0xc0a80000 16 \<or>
     in_net4 ip 0x64400000 10"
| "private_net (V6 ip) \<longleftrightarrow> in_net6 ip 0xfc000000000000000000000000000000 7"

lemma octet_nat: "unat (octet 0 ip) = unat ip div 65536 div 256" "unat (octet 1 ip) = unat ip div 65536 mod 256"
proof -
  have u: "unat (octet i ip) = unat ip div 2 ^ (24 - 8 * i) mod 256" for i
    unfolding octet_def unsigned_ucast_eq unat_drop_bit_eq by (simp add: take_bit_eq_mod drop_bit_eq_div)
  have "unat ip < 2 ^ 32" using unsigned_less [of ip] by simp
  then show "unat (octet 0 ip) = unat ip div 65536 div 256" using u [of 0] by (simp add: div_mult2_eq [symmetric])
  show "unat (octet 1 ip) = unat ip div 65536 mod 256" using u [of 1] by simp
qed

lemma in_net4_nat: "in_net4 ip net len \<longleftrightarrow> unat ip div 2 ^ (32 - len) = unat net div 2 ^ (32 - len)"
  unfolding in_net4_def word_unat_eq_iff unat_drop_bit_eq by (simp add: drop_bit_eq_div)

lemma in_net4_high:
  "in_net4 ip net 8 \<longleftrightarrow> unat ip div 65536 div 256 = unat net div 65536 div 256"
  "in_net4 ip net 10 \<longleftrightarrow> unat ip div 65536 div 64 = unat net div 65536 div 64"
  "in_net4 ip net 12 \<longleftrightarrow> unat ip div 65536 div 16 = unat net div 65536 div 16"
  "in_net4 ip net 16 \<longleftrightarrow> unat ip div 65536 = unat net div 65536"
  by (simp_all add: in_net4_nat div_mult2_eq [symmetric])

lemma digits_unique:
  fixes a b k m :: nat
  assumes "b < m"
  shows "m * a + b = k \<longleftrightarrow> a = k div m \<and> b = k mod m"
  using assms by auto

lemma net_arith:
  fixes a b :: nat
  assumes "b < 256"
  shows "16 * a + b div 16 = 2753 \<longleftrightarrow> a = 172 \<and> 16 \<le> b \<and> b \<le> 31"
    and "4 * a + b div 64 = 401 \<longleftrightarrow> a = 100 \<and> 64 \<le> b \<and> b < 128"
    and "256 * a + b = 43518 \<longleftrightarrow> a = 169 \<and> b = 254"
    and "256 * a + b = 49320 \<longleftrightarrow> a = 192 \<and> b = 168"
proof -
  have "b div 16 < 16" "b div 64 < 4" using assms by simp_all
  moreover have "b div 16 = 1 \<longleftrightarrow> 16 \<le> b \<and> b \<le> 31" "b div 64 = 1 \<longleftrightarrow> 64 \<le> b \<and> b < 128" by auto
  ultimately show "16 * a + b div 16 = 2753 \<longleftrightarrow> a = 172 \<and> 16 \<le> b \<and> b \<le> 31"
    "4 * a + b div 64 = 401 \<longleftrightarrow> a = 100 \<and> 64 \<le> b \<and> b < 128" by (simp_all add: digits_unique)
  show "256 * a + b = 43518 \<longleftrightarrow> a = 169 \<and> b = 254" "256 * a + b = 49320 \<longleftrightarrow> a = 192 \<and> b = 168"
    using assms by (simp_all add: digits_unique)
qed

lemma classify_v4:
  "classify (V4 ip) = AlwaysRefuse \<longleftrightarrow> never_reachable (V4 ip)"
  "classify (V4 ip) = Private \<longleftrightarrow> private_net (V4 ip)"
proof -
  define n where "n = unat ip"
  define h where "h = n div 65536"
  have h: "unat ip div 65536 = h" by (simp add: h_def n_def)
  have eq: "ip = 0 \<longleftrightarrow> n = 0" "ip = 0xffffffff \<longleftrightarrow> n = 0xffffffff" by (simp_all add: n_def word_unat_eq_iff)
  have o: "octet 0 ip = numeral k \<longleftrightarrow> h div 256 = unat (numeral k :: 8 word)"
    "octet 1 ip = numeral k \<longleftrightarrow> h mod 256 = unat (numeral k :: 8 word)"
    "octet 1 ip \<le> numeral k \<longleftrightarrow> h mod 256 \<le> unat (numeral k :: 8 word)"
    "octet 1 ip < numeral k \<longleftrightarrow> h mod 256 < unat (numeral k :: 8 word)"
    "numeral k \<le> octet 1 ip \<longleftrightarrow> unat (numeral k :: 8 word) \<le> h mod 256" for k
    by (simp_all only: h word_unat_eq_iff word_le_nat_alt word_less_nat_alt octet_nat)
  have z: "n = 0 \<Longrightarrow> h = 0" "n = 0xffffffff \<Longrightarrow> h = 65535" by (simp_all add: h_def)
  define a b where "a = h div 256" and "b = h mod 256"
  have b: "b < 256" and hab: "h = 256 * a + b" by (simp_all add: a_def b_def)
  have d: "h div 16 = 16 * a + b div 16" "h div 64 = 4 * a + b div 64" by (simp_all add: hab)
  have nets: "h div 16 = 2753 \<longleftrightarrow> h div 256 = 172 \<and> 16 \<le> h mod 256 \<and> h mod 256 \<le> 31"
    "h div 64 = 401 \<longleftrightarrow> h div 256 = 100 \<and> 64 \<le> h mod 256 \<and> h mod 256 < 128"
    "h = 43518 \<longleftrightarrow> h div 256 = 169 \<and> h mod 256 = 254"
    "h = 49320 \<longleftrightarrow> h div 256 = 192 \<and> h mod 256 = 168"
    unfolding d a_def [symmetric] b_def [symmetric] unfolding hab by (rule net_arith [OF b])+
  note defs = v4_is_loopback_def v4_is_link_local_def v4_is_private_def in_net4_high h o [unfolded One_nat_def] eq nets
  show "classify (V4 ip) = AlwaysRefuse \<longleftrightarrow> never_reachable (V4 ip)"
    using z by (auto simp: defs)
  show "classify (V4 ip) = Private \<longleftrightarrow> private_net (V4 ip)"
    using z by (auto simp: defs)
qed

lemma segment0_nat: "segment0 ip = word_of_nat (unat ip div 2 ^ 112)"
  unfolding segment0_def word_unat_eq_iff unsigned_ucast_eq unat_drop_bit_eq
  by (simp add: unat_of_nat take_bit_eq_mod drop_bit_eq_div)

lemma mask_high:
  "(s :: 16 word) AND 0xffc0 = push_bit 6 (drop_bit 6 s)" "s AND 0xfe00 = push_bit 9 (drop_bit 9 s)"
proof -
  have m: "(0xffc0 :: 16 word) = NOT (mask 6)" "(0xfe00 :: 16 word) = NOT (mask 9)" by (simp_all add: mask_eq_exp_minus_1 not_eq_complement)
  show "(s :: 16 word) AND 0xffc0 = push_bit 6 (drop_bit 6 s)" "s AND 0xfe00 = push_bit 9 (drop_bit 9 s)"
    unfolding m by (rule bit_eqI, auto simp: bit_simps)+
qed

lemma segment0_mask:
  "segment0 ip AND 0xffc0 = 0xfe80 \<longleftrightarrow> in_net6 ip 0xfe800000000000000000000000000000 10"
  "segment0 ip AND 0xfe00 = 0xfc00 \<longleftrightarrow> in_net6 ip 0xfc000000000000000000000000000000 7"
proof -
  have d: "drop_bit k (segment0 ip) = ucast (drop_bit (112 + k) ip)" for k
    unfolding segment0_def
  proof (rule bit_eqI)
    fix n
    show "bit (drop_bit k (ucast (drop_bit 112 ip) :: 16 word)) n = bit (ucast (drop_bit (112 + k) ip) :: 16 word) n"
      using bit_imp_le_length [of ip "n + (k + 112)"] by (auto simp: bit_simps ac_simps)
  qed
  have p: "push_bit k (drop_bit k s) = v \<longleftrightarrow> drop_bit k s = drop_bit k v \<and> push_bit k (drop_bit k v) = v"
    for k and s v :: "16 word"
  proof
    assume "push_bit k (drop_bit k s) = v"
    moreover have "drop_bit k (push_bit k (drop_bit k s)) = drop_bit k s"
      by (rule bit_eqI) (auto simp: bit_simps dest: bit_imp_le_length)
    ultimately show "drop_bit k s = drop_bit k v \<and> push_bit k (drop_bit k v) = v" by metis
  qed simp
  have u: "(ucast (drop_bit n ip) :: 16 word) = c \<longleftrightarrow> unat ip div 2 ^ n = unat c" if "112 \<le> n" for n c
  proof -
    have "unat ip div 2 ^ n < 2 ^ 16"
    proof -
      have "unat ip < 2 ^ 128" using unsigned_less [of ip] by simp
      also have "(2 :: nat) ^ 128 \<le> 2 ^ 16 * 2 ^ n" using power_increasing [OF that, of "2 :: nat"] by simp
      finally show ?thesis by (simp add: less_mult_imp_div_less)
    qed
    then show ?thesis
      unfolding word_unat_eq_iff unsigned_ucast_eq unat_drop_bit_eq by (simp add: take_bit_eq_mod drop_bit_eq_div)
  qed
  have n6: "in_net6 ip net len \<longleftrightarrow> unat ip div 2 ^ (128 - len) = unat net div 2 ^ (128 - len)" for net len
    unfolding in_net6_def word_unat_eq_iff unat_drop_bit_eq by (simp add: drop_bit_eq_div)
  show "segment0 ip AND 0xffc0 = 0xfe80 \<longleftrightarrow> in_net6 ip 0xfe800000000000000000000000000000 10"
    "segment0 ip AND 0xfe00 = 0xfc00 \<longleftrightarrow> in_net6 ip 0xfc000000000000000000000000000000 7"
    using p [of 6 "segment0 ip" "0xfe80"] p [of 9 "segment0 ip" "0xfc00"]
    unfolding mask_high d n6 by (simp_all add: u)
qed

lemma classify_exact:
  "classify ip = AlwaysRefuse \<longleftrightarrow> never_reachable ip" "classify ip = Private \<longleftrightarrow> private_net ip"
proof -
  have n6: "in_net6 1 0xfe800000000000000000000000000000 10 = False" "in_net6 1 0xfc000000000000000000000000000000 7 = False"
    "in_net6 0 0xfc000000000000000000000000000000 7 = False" by (simp_all add: in_net6_def)
  have disj: "\<not> (in_net6 x 0xfe800000000000000000000000000000 10 \<and> in_net6 x 0xfc000000000000000000000000000000 7)" for x
  proof
    assume "in_net6 x 0xfe800000000000000000000000000000 10 \<and> in_net6 x 0xfc000000000000000000000000000000 7"
    then have "drop_bit 3 (drop_bit 118 x) = 127" "drop_bit 121 x = 126" by (simp_all add: in_net6_def)
    then show False by (simp add: drop_bit_drop_bit)
  qed
  show "classify ip = AlwaysRefuse \<longleftrightarrow> never_reachable ip"
    using n6 by (cases ip) (auto simp: classify_v4 segment0_mask simp del: classify.simps(1))
  show "classify ip = Private \<longleftrightarrow> private_net ip"
    using n6 disj by (cases ip) (auto simp: classify_v4 segment0_mask simp del: classify.simps(1))
qed

subsection \<open>What the guard lets through\<close>

lemma lowercase_idem: "to_ascii_lowercase (to_ascii_lowercase s) = to_ascii_lowercase s"
proof -
  have "ascii_lower (ascii_lower c) = ascii_lower c" for c
    by (auto simp: ascii_lower_def is_ascii_upper_def less_eq_char_def)
  then show ?thesis by (simp add: to_ascii_lowercase_def)
qed

lemma check_ip_ok:
  "check_ip ip url allowed = Inr () \<longleftrightarrow> \<not> never_reachable ip \<and> (private_net ip \<longrightarrow> host_allowed url allowed)"
  using classify_exact [of ip] by (cases "classify ip") (auto simp: check_ip_def)

lemma screen_resolved_ok:
  "screen_resolved show_ip name addrs base_host allowed = Inr () \<longleftrightarrow>
     (\<forall>a\<in>set addrs. \<not> never_reachable (normalize a) \<and>
        (private_net (normalize a) \<longrightarrow> name_trusted name base_host allowed))"
proof (induction addrs)
  case (Cons a addrs)
  then show ?case using classify_exact [of "normalize a"] by (cases "classify (normalize a)") auto
qed simp

text \<open>Where a request may end up: the addresses behind a URL, with the names resolved by the guarded resolver.\<close>

definition reaches :: "(string \<Rightarrow> string + IpAddr list) \<Rightarrow> (IpAddr \<Rightarrow> string) \<Rightarrow> GuardedResolver \<Rightarrow> Url \<Rightarrow> IpAddr list" where
  "reaches lookup_host show_ip r url =
     (case u_host url of
        None \<Rightarrow> []
      | Some (Ipv4 ip) \<Rightarrow> [V4 ip]
      | Some (Ipv6 ip) \<Rightarrow> [V6 ip]
      | Some (Domain d) \<Rightarrow> (case resolve lookup_host show_ip r d of Inl _ \<Rightarrow> [] | Inr addrs \<Rightarrow> addrs))"

lemma resolve_ok:
  assumes "resolve lookup_host show_ip r d = Inr addrs" "a \<in> set addrs"
  shows "\<not> never_reachable (normalize a)"
    "private_net (normalize a) \<Longrightarrow> name_trusted (to_ascii_lowercase d) (gr_base_host r) (gr_allowed r)"
  using assms by (auto simp: resolve_def Let_def res_simps screen_resolved_ok)

lemma normalize_idem [simp]: "normalize (normalize ip) = normalize ip"
  by (cases ip) auto

text \<open>A chain of requests: the first URL is as asked for, every further one a redirect the policy followed.\<close>

inductive redirects :: "Url \<Rightarrow> HostPattern list \<Rightarrow> bool \<Rightarrow> Url list \<Rightarrow> bool" for base allowed has_auth where
  first: "check_target url base allowed = Inr () \<Longrightarrow> redirects base allowed has_auth [url]"
| hop: "redirects base allowed has_auth urls \<Longrightarrow>
    redirect_policy base allowed has_auth (length urls) url = Inr () \<Longrightarrow>
    redirects base allowed has_auth (urls @ [url])"

lemma redirects_checked:
  assumes "redirects base allowed has_auth urls"
  shows "length urls \<le> 6 \<and> (\<forall>url\<in>set urls. check_target url base allowed = Inr ()) \<and>
    (\<forall>url\<in>set (tl urls). has_auth \<longrightarrow> is_trusted url base allowed)"
  using assms
proof induction
  case (hop urls url)
  then have "length urls \<le> 5" "check_target url base allowed = Inr ()"
    "has_auth \<longrightarrow> is_trusted url base allowed"
    by (auto simp: redirect_policy_def res_simps split: if_splits)
  with hop.IH show ?case by (cases urls) auto
qed simp

text \<open>
  C13. A query cannot make the server reach its own network: along every chain of at most five redirects from a
  request the guard accepted, a URL that is not of the source's own origin is an \<open>http(s)\<close> URL, and no address
  behind it, whether written in the URL or resolved from its name, is link-local, unspecified or broadcast (the
  IPv4-mapped form included); it is in a private network only when the source's configuration names the host;
  and a request with credentials is redirected to trusted hosts only.
\<close>

theorem guard_blocks_internal_targets:
  assumes "redirects base allowed has_auth urls" "url \<in> set urls" "\<not> same_origin url base"
    and "a \<in> set (reaches lookup_host show_ip (GuardedResolver_new base allowed) url)"
  shows "u_scheme url \<in> {''http'', ''https''} \<and> \<not> never_reachable (normalize a) \<and>
    (private_net (normalize a) \<longrightarrow> host_allowed url allowed \<or>
       (\<exists>d. u_host url = Some (Domain d) \<and> name_trusted (to_ascii_lowercase d) (u_host_str base) allowed)) \<and>
    length urls \<le> 6 \<and> (has_auth \<and> url \<in> set (tl urls) \<longrightarrow> host_allowed url allowed)"
proof -
  note c = redirects_checked [OF assms(1)]
  from c assms(2) have ok: "check_target url base allowed = Inr ()" by blast
  have scheme: "u_scheme url \<in> {''http'', ''https''}"
    using ok assms(3) by (auto simp: check_target_def split: if_splits)
  then have web: "(u_scheme url \<noteq> ''http'' \<and> u_scheme url \<noteq> ''https'') = False" by auto
  have trust: "has_auth \<and> url \<in> set (tl urls) \<longrightarrow> host_allowed url allowed"
    using c assms(3) by (auto simp: is_trusted_def)
  have "\<not> never_reachable (normalize a) \<and> (private_net (normalize a) \<longrightarrow> host_allowed url allowed \<or>
       (\<exists>d. u_host url = Some (Domain d) \<and> name_trusted (to_ascii_lowercase d) (u_host_str base) allowed))"
  proof (cases "u_host url")
    case (Some h)
    show ?thesis
    proof (cases h)
      case (Domain d)
      with assms(4) Some obtain addrs where
        r: "resolve lookup_host show_ip (GuardedResolver_new base allowed) d = Inr addrs" "a \<in> set addrs"
        by (cases "resolve lookup_host show_ip (GuardedResolver_new base allowed) d") (auto simp: reaches_def)
      have low: "to_ascii_lowercase (to_ascii_lowercase b) = to_ascii_lowercase b" for b
        by (rule lowercase_idem)
      have "name_trusted (to_ascii_lowercase d) (map_option to_ascii_lowercase (u_host_str base)) allowed \<longrightarrow>
          name_trusted (to_ascii_lowercase d) (u_host_str base) allowed"
        by (cases "u_host_str base") (simp_all add: name_trusted_def low)
      with resolve_ok [OF r] Some Domain show ?thesis by (simp add: GuardedResolver_new_def)
    next
      case (Ipv4 ip)
      with ok assms(3,4) Some web have "a = V4 ip" "check_ip (V4 ip) url allowed = Inr ()"
        by (simp_all add: check_target_def reaches_def)
      then show ?thesis unfolding check_ip_ok by simp
    next
      case (Ipv6 ip)
      with ok assms(3,4) Some web have "a = V6 ip" "check_ip (normalize (V6 ip)) url allowed = Inr ()"
        by (simp_all add: check_target_def reaches_def del: normalize.simps)
      then show ?thesis unfolding check_ip_ok by blast
    qed
  qed (use assms(4) in \<open>simp add: reaches_def\<close>)
  with scheme trust c show ?thesis by blast
qed

definition api_base :: Url where
  "api_base = \<lparr>u_text = ''https://api.acme.com/'', u_scheme = ''https'', u_host = Some (Domain ''api.acme.com''),
     u_host_str = Some ''api.acme.com'', u_port = Some 443\<rparr>"

definition mapped :: "128 word \<Rightarrow> Url" where
  "mapped ip = \<lparr>u_text = ''http://[..]/'', u_scheme = ''http'', u_host = Some (Ipv6 ip),
     u_host_str = Some ''[..]'', u_port = Some 80\<rparr>"

lemma mapped_examples:
  "check_target (mapped 0xffff08080808) api_base [] = Inr ()"
  "isl (check_target (mapped 0xffffa9fea9fe) api_base [])"
  by code_simp+

theorem guard_blocks_internal_targets_witness:
  "\<not> never_reachable (normalize (V6 0xffff08080808)) \<and> \<not> private_net (normalize (V6 0xffff08080808))"
proof -
  have r: "redirects api_base [] True [mapped 0xffff08080808]" by (rule first) (rule mapped_examples(1))
  have m: "mapped 0xffff08080808 \<in> set [mapped 0xffff08080808]" by simp
  have o: "\<not> same_origin (mapped 0xffff08080808) api_base" by code_simp
  have a: "V6 0xffff08080808 \<in> set (reaches (\<lambda>_. Inr []) (\<lambda>_. []) (GuardedResolver_new api_base []) (mapped 0xffff08080808))"
    by (simp add: reaches_def mapped_def)
  have h: "\<not> host_allowed (mapped 0xffff08080808) []" "u_host (mapped 0xffff08080808) \<noteq> Some (Domain d)" for d
    by (simp_all add: host_allowed_def mapped_def)
  from guard_blocks_internal_targets [OF r m o a] h show ?thesis by blast
qed

lemma split_on_app: "split_on c (a @ c # b) = split_on c a @ split_on c b"
proof (induction a)
  case (Cons x a)
  then show ?case by (cases "split_on c a") auto
qed simp

lemma split_on_single: "split_on c s = [[]] \<longleftrightarrow> s = []"
  by (metis join_split_on join.simps(2) split_on.simps(1))

text \<open>
  A wildcard covers subdomains and nothing else: a pattern \<open>*.suffix\<close> that parses is not a whole public
  suffix, and it matches a host exactly when the host's labels, without regard to case and trailing dots, are
  those of the suffix with something in front; neither the suffix itself nor a host that merely ends in the same
  characters matches.
\<close>

lemma wildcard_matches_subdomains:
  assumes "HostPattern_parse public_suffix s = Inr (Suffix suf)"
  shows "\<exists>rest. suf = CHR ''.'' # rest \<and> rest \<noteq> [] \<and>
    (\<forall>sfx. public_suffix rest = Some sfx \<longrightarrow> to_ascii_lowercase sfx \<noteq> to_ascii_lowercase rest) \<and>
    (\<forall>host. pattern_matches (Suffix suf) host \<longleftrightarrow>
       (\<exists>labels. labels \<noteq> [] \<and> labels \<noteq> [[]] \<and>
          split_on (CHR ''.'') (to_ascii_lowercase (trim_end_matches (CHR ''.'') host)) =
          labels @ split_on (CHR ''.'') rest))"
proof -
  from assms obtain rest where r: "suf = CHR ''.'' # rest" "rest \<noteq> []"
    "\<And>sfx. public_suffix rest = Some sfx \<Longrightarrow> to_ascii_lowercase sfx \<noteq> to_ascii_lowercase rest"
    by (auto simp: HostPattern_parse_def Let_def split: option.splits if_split_asm)
  have "length h > length suf \<and> ends_with suf h \<longleftrightarrow>
      (\<exists>labels. labels \<noteq> [] \<and> labels \<noteq> [[]] \<and> split_on (CHR ''.'') h = labels @ split_on (CHR ''.'') rest)" for h
  proof
    assume "length h > length suf \<and> ends_with suf h"
    then obtain pre where h: "h = pre @ suf" "length h > length suf" unfolding ends_with_iff by blast
    then have pre: "h = pre @ CHR ''.'' # rest" "pre \<noteq> []" by (simp_all add: r(1))
    then have "split_on (CHR ''.'') h = split_on (CHR ''.'') pre @ split_on (CHR ''.'') rest"
      by (simp only: split_on_app)
    with pre(2) show "\<exists>labels. labels \<noteq> [] \<and> labels \<noteq> [[]] \<and> split_on (CHR ''.'') h = labels @ split_on (CHR ''.'') rest"
      by (intro exI [of _ "split_on (CHR ''.'') pre"]) (simp add: split_on_single split_on_ne)
  next
    assume "\<exists>labels. labels \<noteq> [] \<and> labels \<noteq> [[]] \<and> split_on (CHR ''.'') h = labels @ split_on (CHR ''.'') rest"
    then obtain labels where l: "labels \<noteq> []" "labels \<noteq> [[]]"
      "split_on (CHR ''.'') h = labels @ split_on (CHR ''.'') rest" by blast
    have "join ''.'' (xs @ ys) = join ''.'' xs @ ''.'' @ join ''.'' ys" if "xs \<noteq> []" "ys \<noteq> []" for xs ys
      using that by (induction xs rule: induct_list012) (auto simp: join_Cons)
    from this [OF l(1) split_on_ne] l(3) have h: "h = join ''.'' labels @ CHR ''.'' # rest"
      by (metis append_Cons append_Nil join_split_on)
    moreover have "join ''.'' labels \<noteq> []"
      using l(1,2) by (cases labels rule: list.exhaust; cases "tl labels") (auto simp: join_Cons)
    ultimately show "length h > length suf \<and> ends_with suf h" unfolding ends_with_iff r(1) by simp
  qed
  with r show ?thesis by (intro exI [of _ rest]) (simp add: pattern_matches_def Let_def)
qed

end
