(* ===== verification/Http_Json.thy ===== *)
theory Http_Json
  imports Prelude "HOL-Library.Sublist"
begin

section \<open>JSON bodies of HTTP sources\<close>

text \<open>
  The JSON part of \<open>pawrly-sources/http\<close>: the paths of \<open>paginate.rs\<close>, rows, error detection and body pruning of
  \<open>typed.rs\<close>, the status matchers of \<open>source.rs\<close> and the computed columns of \<open>expr.rs\<close>.  A value is what
  \<open>serde_json\<close> parses; a number is its text.  Objects are the library's sorted maps.  What other libraries
  compute (printing a value, base64, formatting a time) is an argument.  Error texts keep their fixed part.
\<close>

subsection \<open>Sorted maps\<close>

text \<open>A \<open>BTreeMap\<close> from strings is an association list in the order of its keys.\<close>

type_synonym 'v bmap = "(string \<times> 'v) list"

fun bt_insert :: "string \<Rightarrow> 'v \<Rightarrow> 'v bmap \<Rightarrow> 'v bmap" where
  "bt_insert k v [] = [(k, v)]"
| "bt_insert k v ((k', v') # m) =
     (if k = k' then (k, v) # m
      else if k < k' then (k, v) # (k', v') # m
      else (k', v') # bt_insert k v m)"

definition bt_remove :: "string \<Rightarrow> 'v bmap \<Rightarrow> 'v bmap" where
  "bt_remove k m = filter (\<lambda>e. fst e \<noteq> k) m"

text \<open>\<open>map.entry(k).or_insert_with(..)\<close>.\<close>

definition bt_or_insert :: "string \<Rightarrow> 'v \<Rightarrow> 'v bmap \<Rightarrow> 'v bmap" where
  "bt_or_insert k v m = (case map_of m k of Some _ \<Rightarrow> m | None \<Rightarrow> bt_insert k v m)"

definition bt_ok :: "'v bmap \<Rightarrow> bool" where
  "bt_ok m \<longleftrightarrow> sorted_wrt (<) (map fst m)"

lemma bt_get_insert [simp]: "map_of (bt_insert k v m) = (map_of m)(k \<mapsto> v)"
  by (induction k v m rule: bt_insert.induct) (auto simp: fun_eq_iff)

lemma bt_keys_insert: "fst ` set (bt_insert k v m) = insert k (fst ` set m)"
  by (induction k v m rule: bt_insert.induct) auto

lemma bt_ok_insert: "bt_ok m \<Longrightarrow> bt_ok (bt_insert k v m)"
proof (induction k v m rule: bt_insert.induct)
  case (2 k v k' v' m)
  have "\<forall>x\<in>fst ` set (bt_insert k v m). k' < x" if "\<not> k < k'" "k \<noteq> k'" "\<forall>x\<in>fst ` set m. k' < x"
    unfolding bt_keys_insert using that by auto
  with 2 show ?case by (auto simp: bt_ok_def dest: less_trans)
qed (simp add: bt_ok_def)

lemma bt_insert_same: "bt_ok m \<Longrightarrow> map_of m k = Some v \<Longrightarrow> bt_insert k v m = m"
proof (induction k v m rule: bt_insert.induct)
  case (2 k v k' v' m)
  then have "k \<noteq> k' \<Longrightarrow> k' < k" by (auto simp: bt_ok_def dest!: map_of_SomeD)
  with 2 show ?case by (cases "k = k'") (auto simp: bt_ok_def)
qed simp

subsection \<open>Values and paths\<close>

datatype json = JNull | JBool bool | JNum string | JStr string | JArr "json list" | JObj "(string \<times> json) list"

fun get_key :: "json \<Rightarrow> string \<Rightarrow> json option" where
  "get_key (JObj m) k = map_of m k"
| "get_key _ k = None"

fun get_index :: "json \<Rightarrow> nat \<Rightarrow> json option" where
  "get_index (JArr xs) i = (if i < length xs then Some (xs ! i) else None)"
| "get_index _ i = None"

fun is_array :: "json \<Rightarrow> bool" where
  "is_array (JArr _) = True"
| "is_array _ = False"

text \<open>\<open>s.parse::<uN>()\<close>: an optional plus sign and decimal digits, in range.\<close>

definition dec_val :: "string \<Rightarrow> nat" where
  "dec_val s = foldl (\<lambda>n c. 10 * n + (of_char c - 48)) 0 s"

definition parse_uint :: "nat \<Rightarrow> string \<Rightarrow> nat option" where
  "parse_uint bits s =
     (let ds = (case s of c # r \<Rightarrow> if c = CHR ''+'' then r else s | [] \<Rightarrow> s) in
      if ds \<noteq> [] \<and> list_all is_ascii_digit ds \<and> dec_val ds < 2 ^ bits then Some (dec_val ds) else None)"

definition path_body :: "string \<Rightarrow> string" where
  "path_body path = trim_with [''$''] (trim_with [''$.''] path)"

fun set_parts :: "string list \<Rightarrow> json \<Rightarrow> json \<Rightarrow> bool \<times> json" where
  "set_parts [] leaf v = (True, leaf)"
| "set_parts [p] leaf v =
     (case v of JObj m \<Rightarrow> (True, JObj (bt_insert p leaf m)) | _ \<Rightarrow> (False, v))"
| "set_parts (p # ps) leaf v =
     (case v of
        JObj m \<Rightarrow>
          (case set_parts ps leaf (case map_of m p of Some c \<Rightarrow> c | None \<Rightarrow> JObj []) of
             (ok, c') \<Rightarrow> (ok, JObj (bt_insert p c' m)))
      | _ \<Rightarrow> (False, v))"

definition set_json_at_path :: "json \<Rightarrow> string \<Rightarrow> json \<Rightarrow> bool \<times> json" where
  "set_json_at_path r path leaf =
     set_parts (filter (\<lambda>p. p \<noteq> []) (split_on (CHR ''.'') (path_body path))) leaf r"

definition get_key_or_index :: "json \<Rightarrow> string \<Rightarrow> json option" where
  "get_key_or_index v key =
     (case get_key v key of
        Some x \<Rightarrow> Some x
      | None \<Rightarrow> if is_array v then Option.bind (parse_uint 64 key) (get_index v) else None)"

function index_loop :: "json \<Rightarrow> string \<Rightarrow> json option" where
  "index_loop cur rest =
     (case strip_prefix ''['' rest of
        None \<Rightarrow> Some cur
      | Some stripped \<Rightarrow>
          (case split_once (CHR '']'') stripped of
             None \<Rightarrow> None
           | Some (idx, rest') \<Rightarrow>
               (case Option.bind (parse_uint 64 (trim idx)) (get_index cur) of
                  None \<Rightarrow> None
                | Some cur' \<Rightarrow> index_loop cur' rest')))"
  by pat_completeness auto
termination
  by (relation "measure (\<lambda>(cur, rest). length rest)")
    (auto simp: strip_prefix_Some split_once_Some_iff)

declare index_loop.simps [simp del]

definition segment_get :: "json \<Rightarrow> string \<Rightarrow> json option" where
  "segment_get v segment =
     (let key = takeWhile (\<lambda>c. c \<noteq> CHR ''['') segment; rest = dropWhile (\<lambda>c. c \<noteq> CHR ''['') segment in
      Option.bind (if key = [] then Some v else get_key_or_index v key) (\<lambda>cur. index_loop cur rest))"

fun walk_segments :: "json \<Rightarrow> string list \<Rightarrow> json option" where
  "walk_segments cur [] = Some cur"
| "walk_segments cur (p # ps) =
     (if p = [] then walk_segments cur ps
      else case segment_get cur p of None \<Rightarrow> None | Some c \<Rightarrow> walk_segments c ps)"

definition json_at_path :: "json \<Rightarrow> string \<Rightarrow> json option" where
  "json_at_path body path =
     (if path = ''$'' then Some body else walk_segments body (split_on (CHR ''.'') (path_body path)))"

fun value_to_cursor :: "json \<Rightarrow> string option" where
  "value_to_cursor (JStr s) = (if s \<noteq> [] then Some s else None)"
| "value_to_cursor (JNum n) = Some n"
| "value_to_cursor _ = None"

definition cursor_at_path :: "json \<Rightarrow> string \<Rightarrow> string option" where
  "cursor_at_path body path = Option.bind (json_at_path body path) value_to_cursor"

subsection \<open>Errors, rows and pruned bodies\<close>

datatype StatusMatcher = ExactStatus nat | StatusExpr string

text \<open>
  \<open>match_status_expr\<close>; \<open>None\<close> is the arithmetic overflow of a \<open>u16\<close> in \<open>hundreds * 100\<close> or \<open>base + 100\<close>, a
  panic with overflow checks.  The comparison with \<open>base + 100\<close> is only reached for \<open>status >= base\<close>.
\<close>

definition status_op :: "string \<Rightarrow> nat \<Rightarrow> nat \<Rightarrow> bool" where
  "status_op op status code =
     (if op = ''>='' then code \<le> status
      else if op = ''<='' then status \<le> code
      else if op = ''>'' then code < status
      else if op = ''<'' then status < code
      else status = code)"

fun match_status_ops :: "string list \<Rightarrow> string \<Rightarrow> nat \<Rightarrow> bool" where
  "match_status_ops [] expr status = (case parse_uint 16 expr of Some c \<Rightarrow> c = status | None \<Rightarrow> False)"
| "match_status_ops (op # ops) expr status =
     (case strip_prefix op expr of
        None \<Rightarrow> match_status_ops ops expr status
      | Some rest \<Rightarrow>
          (case parse_uint 16 (trim rest) of
             None \<Rightarrow> False
           | Some code \<Rightarrow> status_op op status code))"

definition match_status_expr :: "string \<Rightarrow> nat \<Rightarrow> bool option" where
  "match_status_expr expr0 status =
     (let expr = trim expr0 in
      case strip_suffix ''xx'' expr of
        Some pre \<Rightarrow>
          (case parse_uint 16 pre of
             None \<Rightarrow> Some False
           | Some hundreds \<Rightarrow>
               if hundreds * 100 \<ge> 2 ^ 16 then None
               else if status < hundreds * 100 then Some False
               else if hundreds * 100 + 100 \<ge> 2 ^ 16 then None
               else Some (status < hundreds * 100 + 100))
      | None \<Rightarrow> Some (match_status_ops [''>='', ''<='', ''>'', ''<'', ''=='', ''=''] expr status))"

fun status_matches :: "StatusMatcher \<Rightarrow> nat \<Rightarrow> bool option" where
  "status_matches (ExactStatus code) status = Some (code = status)"
| "status_matches (StatusExpr expr) status = match_status_expr expr status"

record ResponseErrorSpec =
  re_status :: "StatusMatcher list"
  re_path :: "string option"

text \<open>\<open>iter().any\<close> with a predicate that may panic.\<close>

fun any_status :: "StatusMatcher list \<Rightarrow> nat \<Rightarrow> bool option" where
  "any_status [] status = Some False"
| "any_status (m # ms) status =
     (case status_matches m status of
        None \<Rightarrow> None
      | Some True \<Rightarrow> Some True
      | Some False \<Rightarrow> any_status ms status)"

definition error_message :: "(json \<Rightarrow> string) \<Rightarrow> json \<Rightarrow> string \<Rightarrow> string option" where
  "error_message show_json body path =
     (case json_at_path body path of
        None \<Rightarrow> None
      | Some JNull \<Rightarrow> None
      | Some (JStr s) \<Rightarrow> if s \<noteq> [] then Some s else None
      | Some other \<Rightarrow> Some (show_json other))"

definition detect_error ::
  "(json \<Rightarrow> string) \<Rightarrow> ResponseErrorSpec \<Rightarrow> nat \<Rightarrow> json \<Rightarrow> string option option" where
  "detect_error show_json spec status body =
     (case any_status (re_status spec) status of
        None \<Rightarrow> None
      | Some status_hit \<Rightarrow>
          let path_msg = Option.bind (re_path spec) (error_message show_json body) in
          Some (case path_msg of
                  Some m \<Rightarrow> Some m
                | None \<Rightarrow> if status_hit then Some (''HTTP '' @ show_nat status) else None))"

datatype Reshape = DictEntries | SeriesPoints string string string string

fun as_array :: "json \<Rightarrow> string + json list" where
  "as_array (JArr a) = Inr a"
| "as_array (JObj m) = Inr [JObj m]"
| "as_array JNull = Inr []"
| "as_array other = Inl ''expected array or object at response path''"

definition dict_entry :: "string \<times> json \<Rightarrow> json" where
  "dict_entry e =
     (case snd e of
        JObj m \<Rightarrow> JObj (bt_insert ''_key'' (JStr (fst e)) m)
      | val \<Rightarrow> JObj [(''_key'', JStr (fst e)), (''_value'', val)])"

fun reshape_dict_entries :: "json \<Rightarrow> json list" where
  "reshape_dict_entries (JObj m) = map dict_entry m"
| "reshape_dict_entries _ = []"

fun point_row :: "string \<Rightarrow> string \<Rightarrow> string \<Rightarrow> json \<Rightarrow> json \<Rightarrow> json list" where
  "point_row points timestamp val s (JArr (t # x # _)) =
     [case s of
        JObj m \<Rightarrow> JObj (bt_insert val x (bt_insert timestamp t (bt_remove points m)))
      | _ \<Rightarrow> s]"
| "point_row points timestamp val s _ = []"

definition reshape_series_points :: "json \<Rightarrow> string \<Rightarrow> string \<Rightarrow> string \<Rightarrow> string \<Rightarrow> json list" where
  "reshape_series_points v series points timestamp val =
     (case get_key v series of
        Some (JArr arr) \<Rightarrow>
          concat (map (\<lambda>s. case get_key s points of
                             Some (JArr pts) \<Rightarrow> concat (map (point_row points timestamp val s) pts)
                           | _ \<Rightarrow> []) arr)
      | _ \<Rightarrow> [])"

datatype ColumnExpr =
    Path "string list"
  | CurrentRow
  | Null
  | FromFilter string
  | Coalesce "ColumnExpr list"
  | ToTimestamp string ColumnExpr
  | Join "string list"
  | MapJoin "string list" "string list"
  | FirstOf "string list" "string list"
  | Lookup "string list" string string string
  | LookupJoin "string list" string string string
  | Pick "string list" string "string list"
  | Literal json
  | IfPresent ColumnExpr json
  | FromBase64 ColumnExpr
  | Replace ColumnExpr string string

record ResponseColumn =
  rc_name :: string
  rc_type :: string
  rc_source :: "string option"
  rc_expr :: "ColumnExpr option"

record ResponseSpec =
  rs_path :: string
  rs_schema :: "ResponseColumn list"
  rs_allow_404_empty :: bool
  rs_error :: "ResponseErrorSpec option"
  rs_reshape :: "Reshape option"

definition extract_rows :: "json \<Rightarrow> ResponseSpec \<Rightarrow> string + json list" where
  "extract_rows body spec =
     (case json_at_path body (rs_path spec) of
        None \<Rightarrow> Inr []
      | Some v \<Rightarrow>
          (case rs_reshape spec of
             None \<Rightarrow> as_array v
           | Some DictEntries \<Rightarrow> Inr (reshape_dict_entries v)
           | Some (SeriesPoints series points timestamp val) \<Rightarrow>
               Inr (reshape_series_points v series points timestamp val)))"

definition unbound_sentinel :: string where
  "unbound_sentinel = ''__pawrly_unbound_placeholder__''"

fun prune_unbound_filters :: "json \<Rightarrow> json option"
and prune_members :: "(string \<times> json) list \<Rightarrow> (string \<times> json) list"
and prune_elements :: "json list \<Rightarrow> json list" where
  "prune_unbound_filters (JStr s) = (if s = unbound_sentinel then None else Some (JStr s))"
| "prune_unbound_filters (JObj m) =
     (let out = prune_members m in if m \<noteq> [] \<and> out = [] then None else Some (JObj out))"
| "prune_unbound_filters (JArr xs) = Some (JArr (prune_elements xs))"
| "prune_unbound_filters JNull = Some JNull"
| "prune_unbound_filters (JBool b) = Some (JBool b)"
| "prune_unbound_filters (JNum n) = Some (JNum n)"
| "prune_members [] = []"
| "prune_members ((k, v) # m) =
     (case prune_unbound_filters v of None \<Rightarrow> prune_members m | Some v' \<Rightarrow> (k, v') # prune_members m)"
| "prune_elements [] = []"
| "prune_elements (v # vs) =
     (case prune_unbound_filters v of None \<Rightarrow> prune_elements vs | Some v' \<Rightarrow> v' # prune_elements vs)"

subsection \<open>Computed columns\<close>

text \<open>
  The libraries: the compact JSON text of a value, base64 decoding to UTF-8 text, and the time of an epoch
  number (its text, in milliseconds or seconds) in RFC 3339 format.
\<close>

record Lib =
  lib_show :: "json \<Rightarrow> string"
  lib_base64 :: "string \<Rightarrow> string option"
  lib_time :: "bool \<Rightarrow> string \<Rightarrow> string option"

fun walk :: "json \<Rightarrow> string list \<Rightarrow> json option" where
  "walk cur [] = Some cur"
| "walk cur (seg # segs) = Option.bind (get_key cur seg) (\<lambda>c. walk c segs)"

fun value_to_text :: "Lib \<Rightarrow> json \<Rightarrow> string" where
  "value_to_text lib (JStr s) = s"
| "value_to_text lib JNull = []"
| "value_to_text lib other = lib_show lib other"

definition join_values :: "Lib \<Rightarrow> json list \<Rightarrow> string" where
  "join_values lib vs = join '','' (map (value_to_text lib) vs)"

fun to_rfc3339 :: "Lib \<Rightarrow> json \<Rightarrow> string \<Rightarrow> string option" where
  "to_rfc3339 lib (JStr s) unit = Some s"
| "to_rfc3339 lib (JNum n) unit = lib_time lib (unit \<in> {''millis'', ''milliseconds''}) n"
| "to_rfc3339 lib _ unit = None"

fun as_list :: "json \<Rightarrow> json list option" where
  "as_list (JArr xs) = Some xs"
| "as_list _ = None"

fun as_str :: "json \<Rightarrow> string option" where
  "as_str (JStr s) = Some s"
| "as_str _ = None"

definition array_at :: "json \<Rightarrow> string list \<Rightarrow> json list option" where
  "array_at row path = Option.bind (walk row path) as_list"

definition tag_is :: "string \<Rightarrow> string \<Rightarrow> json \<Rightarrow> bool" where
  "tag_is key_field key el \<longleftrightarrow> Option.bind (get_key el key_field) as_str = Some key"

fun eval :: "Lib \<Rightarrow> json \<Rightarrow> string bmap \<Rightarrow> ColumnExpr \<Rightarrow> json option"
and eval_first :: "Lib \<Rightarrow> json \<Rightarrow> string bmap \<Rightarrow> ColumnExpr list \<Rightarrow> json option" where
  "eval lib row params (Path path) = walk row path"
| "eval lib row params CurrentRow = Some row"
| "eval lib row params Null = None"
| "eval lib row params (FromFilter name) = map_option JStr (map_of params name)"
| "eval lib row params (Coalesce exprs) = eval_first lib row params exprs"
| "eval lib row params (ToTimestamp unit expr) =
     Option.bind (eval lib row params expr) (\<lambda>v. map_option JStr (to_rfc3339 lib v unit))"
| "eval lib row params (Join path) = map_option (\<lambda>arr. JStr (join_values lib arr)) (array_at row path)"
| "eval lib row params (MapJoin path item_path) =
     map_option (\<lambda>arr. JStr (join_values lib (List.map_filter (\<lambda>el. walk el item_path) arr))) (array_at row path)"
| "eval lib row params (FirstOf path item_path) =
     Option.bind (array_at row path) (\<lambda>arr. case arr of [] \<Rightarrow> None | el # _ \<Rightarrow> walk el item_path)"
| "eval lib row params (Lookup path key key_field value_field) =
     Option.bind (array_at row path) (\<lambda>arr.
       Option.bind (find (tag_is key_field key) arr) (\<lambda>el. get_key el value_field))"
| "eval lib row params (LookupJoin path key key_field value_field) =
     map_option (\<lambda>arr. JStr (join_values lib
       (List.map_filter (\<lambda>el. get_key el value_field) (filter (tag_is key_field key) arr)))) (array_at row path)"
| "eval lib row params (Pick path by item_path) =
     Option.bind (walk row path) (\<lambda>obj. Option.bind (map_of params by) (\<lambda>key.
       Option.bind (get_key obj key) (\<lambda>v. walk v item_path)))"
| "eval lib row params (Literal val) = Some val"
| "eval lib row params (IfPresent check then_value) =
     (case eval lib row params check of
        None \<Rightarrow> None
      | Some v \<Rightarrow> if v = JNull then None else Some then_value)"
| "eval lib row params (FromBase64 expr) =
     Option.bind (eval lib row params expr) (\<lambda>v. Option.bind (as_str v) (\<lambda>s.
       map_option JStr (lib_base64 lib (trim s))))"
| "eval lib row params (Replace expr pat to) =
     Option.bind (eval lib row params expr) (\<lambda>v. map_option (\<lambda>s. JStr (replace_sub pat to s)) (as_str v))"
| "eval_first lib row params [] = None"
| "eval_first lib row params (e # es) =
     (case eval lib row params e of
        None \<Rightarrow> eval_first lib row params es
      | Some v \<Rightarrow> if v = JNull then eval_first lib row params es else Some v)"

subsection \<open>Writing and reading at a path\<close>

fun json_ok :: "json \<Rightarrow> bool" and members_ok :: "(string \<times> json) list \<Rightarrow> bool" and elements_ok :: "json list \<Rightarrow> bool" where
  "json_ok (JObj m) \<longleftrightarrow> bt_ok m \<and> members_ok m"
| "json_ok (JArr xs) \<longleftrightarrow> elements_ok xs"
| "json_ok _ \<longleftrightarrow> True"
| "members_ok [] \<longleftrightarrow> True"
| "members_ok ((k, v) # m) \<longleftrightarrow> json_ok v \<and> members_ok m"
| "elements_ok [] \<longleftrightarrow> True"
| "elements_ok (v # vs) \<longleftrightarrow> json_ok v \<and> elements_ok vs"

lemma members_ok_get: "members_ok m \<Longrightarrow> map_of m k = Some v \<Longrightarrow> json_ok v"
  by (induction m) (auto split: if_splits)

text \<open>A step of a path that names an object member.\<close>

definition simple_part :: "string \<Rightarrow> bool" where
  "simple_part p \<longleftrightarrow> p \<noteq> [] \<and> CHR ''.'' \<notin> set p \<and> CHR ''['' \<notin> set p \<and> CHR ''$'' \<notin> set p"

lemma segment_get_simple: "simple_part p \<Longrightarrow> segment_get v p = get_key_or_index v p"
proof -
  assume "simple_part p"
  then have w: "takeWhile (\<lambda>c. c \<noteq> CHR ''['') p = p" "dropWhile (\<lambda>c. c \<noteq> CHR ''['') p = []" "(p = []) = False"
    by (auto simp: simple_part_def takeWhile_eq_all_conv dropWhile_eq_Nil_conv)
  have "index_loop cur [] = Some cur" for cur by (simp add: index_loop.simps)
  then show ?thesis unfolding segment_get_def Let_def w by simp
qed

lemma walk_segments_Cons:
  "simple_part p \<Longrightarrow> walk_segments v (p # ps) = Option.bind (get_key_or_index v p) (\<lambda>c. walk_segments c ps)"
  by (auto simp: segment_get_simple simple_part_def split: option.split)

lemma set_parts_get:
  "ps \<noteq> [] \<Longrightarrow> \<forall>p\<in>set ps. simple_part p \<Longrightarrow> set_parts ps leaf v = (True, v') \<Longrightarrow> walk_segments v' ps = Some leaf"
proof (induction ps leaf v arbitrary: v' rule: set_parts.induct)
  case (2 p leaf v)
  then show ?case by (cases v) (auto simp: walk_segments_Cons get_key_or_index_def simp del: walk_segments.simps(2))
next
  case (3 p q ps leaf v)
  then show ?case
    by (cases v) (auto simp: walk_segments_Cons get_key_or_index_def simp del: walk_segments.simps(2) split: prod.splits)
qed simp

lemma set_parts_blocked:
  "json_ok v \<Longrightarrow> set_parts ps leaf v = (False, v') \<Longrightarrow> v' = v"
proof (induction ps leaf v arbitrary: v' rule: set_parts.induct)
  case (2 p leaf v)
  then show ?case by (cases v) auto
next
  case (3 p q ps leaf v)
  show ?case
  proof (cases v)
    case (JObj m)
    define c where "c = (case map_of m p of Some c \<Rightarrow> c | None \<Rightarrow> JObj [])"
    obtain ok c' where s: "set_parts (q # ps) leaf c = (ok, c')" by fastforce
    from 3(3) JObj s have v': "\<not> ok" "v' = JObj (bt_insert p c' m)" by (auto simp: c_def)
    have made: "fst (set_parts qs l (JObj [])) = True" for qs l
    proof (induction qs "l :: json" "JObj []" rule: set_parts.induct)
      case (3 p q ps leaf)
      then show ?case by (simp add: split_beta)
    qed simp_all
    have m: "map_of m p = Some c"
    proof (cases "map_of m p")
      case None
      with s v'(1) made [of "q # ps" leaf] show ?thesis by (simp add: c_def)
    qed (simp add: c_def)
    have "json_ok c" using 3(2) JObj m members_ok_get by simp blast
    with 3(1) [OF JObj, folded c_def] s v'(1) have "c' = c" by simp
    with v' 3(2) JObj bt_insert_same [OF _ m] show ?thesis by simp
  qed (use 3 in auto)
qed simp

lemma set_parts_other:
  "set_parts ps leaf v = (True, v') \<Longrightarrow> \<forall>p\<in>set ps \<union> set qs. simple_part p \<Longrightarrow> parallel ps qs \<Longrightarrow>
     walk_segments v' qs = walk_segments v qs"
proof (induction ps leaf v arbitrary: v' qs rule: set_parts.induct)
  case (1 leaf v)
  then show ?case by (simp add: parallel_def)
next
  case (2 p leaf v)
  then obtain q qs' where q: "qs = q # qs'" "q \<noteq> p" by (cases qs) (auto simp: parallel_def)
  with 2 show ?case
    by (cases v) (auto simp: walk_segments_Cons get_key_or_index_def simp del: walk_segments.simps(2))
next
  case (3 p p' ps leaf v)
  then obtain q qs' where q: "qs = q # qs'" "q \<noteq> p \<or> parallel (p' # ps) qs'" by (cases qs) (auto simp: parallel_def)
  from 3(2) obtain m c' where m: "v = JObj m" "v' = JObj (bt_insert p c' m)"
    "set_parts (p' # ps) leaf (case map_of m p of Some c \<Rightarrow> c | None \<Rightarrow> JObj []) = (True, c')"
    by (cases v) (auto split: prod.splits)
  have simple: "simple_part q" "\<forall>x\<in>set (p' # ps) \<union> set qs'. simple_part x" using 3(3) q(1) by auto
  show ?case
  proof (cases "q = p")
    case True
    with q(2) have par: "parallel (p' # ps) qs'" by blast
    then obtain r rs where r: "qs' = r # rs" by (cases qs') (auto simp: parallel_def)
    have "walk_segments (JObj []) qs' = None"
      using simple(2) r by (auto simp: walk_segments_Cons get_key_or_index_def simp del: walk_segments.simps(2))
    with 3(1) [OF m(1,3) simple(2) par] True simple m q(1) show ?thesis
      by (auto simp: walk_segments_Cons get_key_or_index_def simp del: walk_segments.simps(2) split: option.splits)
  next
    case False
    with simple m q(1) show ?thesis
      by (auto simp: walk_segments_Cons get_key_or_index_def simp del: walk_segments.simps(2))
  qed
qed

lemma trim_with_stop: "strip_first ps s = None \<Longrightarrow> trim_with ps s = s"
  by (simp add: trim_with.simps)

lemma path_body_parts:
  assumes "ps \<noteq> []" "\<forall>p\<in>set ps. simple_part p"
  shows "split_on (CHR ''.'') (path_body (''$.'' @ join ''.'' ps)) = ps" "''$.'' @ join ''.'' ps \<noteq> ''$''"
proof -
  obtain c p qs where ps: "ps = (c # p) # qs" "c \<noteq> CHR ''$''"
    using assms by (cases ps) (auto simp: simple_part_def neq_Nil_conv)
  then obtain r where r: "join ''.'' ps = c # r" by (cases qs) auto
  have "trim_with [''$.''] (''$.'' @ c # r) = c # r"
    using ps(2) by (subst trim_with.simps) (simp add: trim_with_stop)
  then have body: "path_body (''$.'' @ join ''.'' ps) = join ''.'' ps"
    unfolding path_body_def r using ps(2) by (simp add: trim_with_stop)
  have "split_on (CHR ''.'') (join ''.'' xs) = xs" if "xs \<noteq> []" "\<forall>x\<in>set xs. CHR ''.'' \<notin> set x" for xs
    using that by (induction xs rule: induct_list012) (auto simp: split_on_no_sep split_on_append)
  with assms body show "split_on (CHR ''.'') (path_body (''$.'' @ join ''.'' ps)) = ps"
    by (auto simp: simple_part_def)
  show "''$.'' @ join ''.'' ps \<noteq> ''$''" by simp
qed

text \<open>
  Writing a cursor into a request body at a path is exact: for a path of object members, either the write
  succeeds, the value is then read back at that path and every path that branches off from it reads as before,
  or some value on the way is not an object, and the body is left as it was.
\<close>

lemma set_json_at_path_exact:
  assumes "json_ok body" "ps \<noteq> []" "\<forall>p\<in>set ps. simple_part p"
    and "set_json_at_path body (''$.'' @ join ''.'' ps) leaf = (ok, body')"
  shows "(ok \<longrightarrow> json_at_path body' (''$.'' @ join ''.'' ps) = Some leaf \<and>
      (\<forall>qs. qs \<noteq> [] \<and> (\<forall>q\<in>set qs. simple_part q) \<and> parallel ps qs \<longrightarrow>
         json_at_path body' (''$.'' @ join ''.'' qs) = json_at_path body (''$.'' @ join ''.'' qs))) \<and>
    (\<not> ok \<longrightarrow> body' = body)"
proof -
  note pb = path_body_parts [OF assms(2,3)]
  have "filter (\<lambda>p. p \<noteq> []) ps = ps" using assms(3) by (auto simp: simple_part_def filter_id_conv)
  with assms(4) have s: "set_parts ps leaf body = (ok, body')" by (simp only: set_json_at_path_def pb)
  show ?thesis
  proof (intro conjI impI allI)
    assume ok
    with s have s': "set_parts ps leaf body = (True, body')" by simp
    from set_parts_get [OF assms(2,3) this] pb show "json_at_path body' (''$.'' @ join ''.'' ps) = Some leaf"
      by (simp only: json_at_path_def if_False)
    fix qs
    assume q: "qs \<noteq> [] \<and> (\<forall>q\<in>set qs. simple_part q) \<and> parallel ps qs"
    then have "walk_segments body' qs = walk_segments body qs"
      using set_parts_other [OF s'] assms(3) by blast
    moreover from q have "qs \<noteq> []" "\<forall>q\<in>set qs. simple_part q" by blast+
    note path_body_parts [OF this]
    ultimately show "json_at_path body' (''$.'' @ join ''.'' qs) = json_at_path body (''$.'' @ join ''.'' qs)"
      by (simp only: json_at_path_def if_False)
  next
    assume "\<not> ok"
    with s set_parts_blocked [OF assms(1)] show "body' = body" by simp
  qed
qed

end
