(* ===== verification/Http_Fetch.thy ===== *)
theory Http_Fetch
  imports Http_Json Http_Guard
begin

section \<open>Fetching the pages of an HTTP table\<close>

text \<open>
  \<open>paginate.rs\<close> and the request part of \<open>typed.rs\<close> in \<open>pawrly-sources/http/src\<close>: how a page leads to the next
  request, how a request is built, the loop that collects the rows of a table, and retries.  The server is the
  argument \<open>send\<close>, which may answer every request differently (it sees the number of the page); authentication
  headers, waiting for rate limits and telemetry are part of it.  The libraries for URLs and JSON text are the
  record \<open>NetLib\<close>.
\<close>

subsection \<open>Pagination\<close>

datatype PaginationConfig =
    LinkHeader
  | Cursor string string
  | RowCursor string string "string option"
  | Page string nat "string option" "nat option"
  | Offset string string nat
  | BodyCursor string string

datatype NextPage = Params "string bmap" | NextUrl string | NextCursor string

text \<open>Saturation of a \<open>uN\<close>.\<close>

definition sat :: "nat \<Rightarrow> nat \<Rightarrow> nat" where
  "sat bits n = min n (2 ^ bits - 1)"

definition trim_matches :: "char list \<Rightarrow> string \<Rightarrow> string" where
  "trim_matches cs s = rev (dropWhile (\<lambda>c. c \<in> set cs) (rev (dropWhile (\<lambda>c. c \<in> set cs) s)))"

definition quotes :: "char list" where
  "quotes = [CHR 0x22, CHR 0x27]"

definition link_attr :: "string \<Rightarrow> bool \<times> bool \<Rightarrow> bool \<times> bool" where
  "link_attr attr0 st =
     (let attr = trim attr0; (is_next, results_false) = st in
      case strip_prefix ''rel='' attr of
        Some v \<Rightarrow> (is_next \<or> trim_matches quotes v = ''next'', results_false)
      | None \<Rightarrow>
          (case strip_prefix ''results='' attr of
             Some v \<Rightarrow> (is_next, results_false \<or> trim_matches quotes v = ''false'')
           | None \<Rightarrow> (is_next, results_false)))"

definition link_entry :: "string \<Rightarrow> string option" where
  "link_entry part =
     (let segments = split_on (CHR '';'') part;
          url = rev (dropWhile (\<lambda>c. c = CHR ''>'') (rev (dropWhile (\<lambda>c. c = CHR ''<'') (trim (hd segments)))));
          (is_next, results_false) = fold link_attr (tl segments) (False, False)
      in if url \<noteq> [] \<and> is_next \<and> \<not> results_false then Some url else None)"

text \<open>The argument is the text of the \<open>Link\<close> header, if the response has a readable one.\<close>

definition parse_link_next :: "string option \<Rightarrow> string option" where
  "parse_link_next header =
     Option.bind header (\<lambda>h. case List.map_filter link_entry (split_on (CHR '','') h) of
       [] \<Rightarrow> None | url # _ \<Rightarrow> Some url)"

fun seed_initial :: "PaginationConfig \<Rightarrow> string bmap \<Rightarrow> string bmap" where
  "seed_initial (Page param start size_param psize) params =
     (let params = bt_or_insert param (show_nat start) params in
      case (size_param, psize) of
        (Some sp, Some sz) \<Rightarrow> bt_or_insert sp (show_nat sz) params
      | _ \<Rightarrow> params)"
| "seed_initial (Offset param size_param psize) params =
     bt_or_insert size_param (show_nat psize) (bt_or_insert param ''0'' params)"
| "seed_initial _ params = params"

fun next_page ::
  "PaginationConfig \<Rightarrow> string bmap \<Rightarrow> json \<Rightarrow> string option \<Rightarrow> json list \<Rightarrow> nat \<Rightarrow> NextPage option" where
  "next_page LinkHeader params body link rows page_index = map_option NextUrl (parse_link_next link)"
| "next_page (Cursor next_path param) params body link rows page_index =
     (if rows = [] then None
      else case cursor_at_path body next_path of
        None \<Rightarrow> None
      | Some cursor \<Rightarrow>
          if map_of params param = Some cursor then None
          else Some (Params (bt_insert param cursor params)))"
| "next_page (RowCursor param field more_path) params body link rows page_index =
     (if (case more_path of
            Some path \<Rightarrow> json_at_path body path \<noteq> Some (JBool True)
          | None \<Rightarrow> rows = [])
      then None
      else if rows = [] then None
      else Option.bind (get_key (last rows) field) (\<lambda>v.
        map_option (\<lambda>cursor. Params (bt_insert param cursor params)) (value_to_cursor v)))"
| "next_page (Page param start size_param psize) params body link rows page_index =
     (if length rows = 0 then None
      else
        let next_num = sat 32 (start + sat 32 (page_index mod 2 ^ 32 + 1));
            nxt = bt_insert param (show_nat next_num) params
        in Some (Params (case (size_param, psize) of
                           (Some sp, Some sz) \<Rightarrow> bt_insert sp (show_nat sz) nxt
                         | _ \<Rightarrow> nxt)))"
| "next_page (Offset param size_param psize) params body link rows page_index =
     (if length rows < psize then None
      else
        let next_offset = sat 64 (psize * sat 64 (page_index + 1))
        in Some (Params (bt_insert size_param (show_nat psize)
             (bt_insert param (show_nat next_offset) params))))"
| "next_page (BodyCursor cursor_path next_path) params body link rows page_index =
     (if rows = [] then None else map_option NextCursor (cursor_at_path body next_path))"

subsection \<open>Requests\<close>

datatype BodyKind = JsonBody | FormBody

record RequestBody =
  rb_kind :: BodyKind
  rb_template :: string

record ConditionalRequest =
  cr_when_filters :: "string list"
  cr_endpoint :: string
  cr_method :: string
  cr_body :: "RequestBody option"

datatype Derive = Ago nat | Split string string nat

record ParamSpec =
  ps_name :: string
  ps_type :: string
  ps_required :: bool
  ps_default :: "string option"
  ps_accepts :: "string list"
  ps_emit :: "string bmap"
  ps_explode :: bool
  ps_derive :: "Derive option"
  ps_filterable :: bool

record HttpTableSpec =
  ts_name :: string
  ts_endpoint :: string
  ts_method :: string
  ts_body :: "RequestBody option"
  ts_requests :: "ConditionalRequest list"
  ts_params :: "ParamSpec list"
  ts_headers :: "string bmap"
  ts_pagination :: "PaginationConfig option"
  ts_response :: ResponseSpec

record HttpSource =
  hs_base_url :: Url
  hs_allowed_hosts :: "HostPattern list"
  hs_headers :: "(string \<times> string) list"
  hs_custom_body :: "(string \<times> string) list"

text \<open>
  The columns of a table: those of its response and the filterable parameters that no column is named after,
  with the Arrow type of each.
\<close>

datatype DataType =
    TBoolean | TInt32 | TInt64 | TFloat32 | TFloat64 | TDate32 | TTimestamp "string option" | TUtf8

definition parse_arrow_type :: "string \<Rightarrow> DataType" where
  "parse_arrow_type s =
     (let t = to_ascii_lowercase s in
      if t \<in> {''bool'', ''boolean''} then TBoolean
      else if t \<in> {''int'', ''int32''} then TInt32
      else if t \<in> {''bigint'', ''int64'', ''long''} then TInt64
      else if t \<in> {''float'', ''float32''} then TFloat32
      else if t \<in> {''double'', ''float64''} then TFloat64
      else if t = ''date'' then TDate32
      else if t = ''timestamp'' then TTimestamp None
      else if t = ''timestamptz'' then TTimestamp (Some ''UTC'')
      else TUtf8)"

definition effective_columns :: "HttpTableSpec \<Rightarrow> ResponseColumn list" where
  "effective_columns table =
     (let cols = rs_schema (ts_response table); declared = set (map rc_name cols) in
      cols @ map (\<lambda>p. \<lparr>rc_name = ps_name p, rc_type = ps_type p, rc_source = Some ''param'', rc_expr = None\<rparr>)
        (filter (\<lambda>p. ps_filterable p \<and> ps_name p \<notin> declared) (ts_params table)))"

type_synonym Schema = "(string \<times> DataType) list"

definition schema_for :: "HttpTableSpec \<Rightarrow> Schema" where
  "schema_for table = map (\<lambda>c. (rc_name c, parse_arrow_type (rc_type c))) (effective_columns table)"

record HttpTableProvider =
  hp_source :: HttpSource
  hp_spec :: HttpTableSpec
  hp_schema :: Schema
  hp_out_columns :: "ResponseColumn list"
  hp_max_pages :: "nat option"
  hp_max_rows :: "nat option"

definition with_safety :: "HttpSource \<Rightarrow> HttpTableSpec \<Rightarrow> nat option \<Rightarrow> nat option \<Rightarrow> HttpTableProvider" where
  "with_safety source spec max_pages max_rows =
     \<lparr>hp_source = source, hp_spec = spec, hp_schema = schema_for spec, hp_out_columns = effective_columns spec,
      hp_max_pages = max_pages, hp_max_rows = max_rows\<rparr>"

definition default_max_pages :: nat where
  "default_max_pages = 1000"

record NetLib =
  nl_join :: "Url \<Rightarrow> string \<Rightarrow> string + Url"
  nl_parse_url :: "string \<Rightarrow> string + Url"
  nl_append_pairs :: "(string \<times> string) list \<Rightarrow> Url \<Rightarrow> Url"
  nl_parse_json :: "string \<Rightarrow> json option"
  nl_show_json :: "json \<Rightarrow> string"
  nl_parse_method :: "string \<Rightarrow> string option"

record HttpRequest =
  hq_method :: string
  hq_url :: Url
  hq_headers :: "(string \<times> string) list"
  hq_body :: "string option"

record HttpResponse =
  hr_status :: nat
  hr_link :: "string option"
  hr_text :: "string option"

datatype FetchError =
    TooManyPages string nat
  | TooManyRows string nat
  | PlanError string
  | ScanError string
  | Overflow

definition plan_err :: "string + 'a \<Rightarrow> FetchError + 'a" where
  "plan_err r = (case r of Inl e \<Rightarrow> Inl (PlanError e) | Inr a \<Rightarrow> Inr a)"

definition select_request :: "HttpTableSpec \<Rightarrow> string bmap \<Rightarrow> string \<times> string \<times> RequestBody option" where
  "select_request spec params =
     (case find (\<lambda>r. list_all (\<lambda>f. map_of params f \<noteq> None) (cr_when_filters r)) (ts_requests spec) of
        Some r \<Rightarrow> (cr_endpoint r, cr_method r, cr_body r)
      | None \<Rightarrow> (ts_endpoint spec, ts_method spec, ts_body spec))"

definition needle :: "string \<Rightarrow> string" where
  "needle k = ''{'' @ k @ ''}''"

definition has_sub :: "string \<Rightarrow> string \<Rightarrow> bool" where
  "has_sub sub s \<longleftrightarrow> split_at_sub sub s \<noteq> None"

definition render_template :: "string \<Rightarrow> string bmap \<Rightarrow> string" where
  "render_template template params = fold (\<lambda>(k, v) out. replace_sub (needle k) v out) params template"

definition quoted :: "string \<Rightarrow> string" where
  "quoted s = [CHR 0x22] @ s @ [CHR 0x22]"

definition mark_unbound :: "string \<Rightarrow> string \<Rightarrow> string" where
  "mark_unbound name marked =
     replace_sub (needle name) (quoted unbound_sentinel)
       (replace_sub (quoted (needle name)) (quoted unbound_sentinel) marked)"

definition render_json_body :: "NetLib \<Rightarrow> string \<Rightarrow> string bmap \<Rightarrow> ParamSpec list \<Rightarrow> string" where
  "render_json_body lib template bound declared =
     (let rendered = render_template template bound;
          unbound = map ps_name (filter (\<lambda>p. map_of bound (ps_name p) = None) declared)
      in if unbound = [] then rendered
         else case nl_parse_json lib (fold mark_unbound unbound rendered) of
           Some v \<Rightarrow>
             (case prune_unbound_filters v of None \<Rightarrow> ''{}'' | Some pruned \<Rightarrow> nl_show_json lib pruned)
         | None \<Rightarrow> rendered)"

definition custom_body_object :: "(string \<times> string) list \<Rightarrow> json bmap" where
  "custom_body_object creds = fold (\<lambda>(n, v). bt_insert n (JStr v)) creds []"

definition url_part ::
  "string option \<Rightarrow> string \<times> string \<Rightarrow> string \<times> (string \<times> string) list \<Rightarrow> string \<times> (string \<times> string) list" where
  "url_part body_template kv st =
     (let (k, v) = kv; (path, query_params) = st in
      if has_sub (needle k) path then (replace_sub (needle k) v path, query_params)
      else if (case body_template of Some t \<Rightarrow> has_sub (needle k) t | None \<Rightarrow> False) then (path, query_params)
      else (path, query_params @ [(k, v)]))"

definition explode_pairs :: "string list bmap \<Rightarrow> (string \<times> string) list" where
  "explode_pairs explode = concat (map (\<lambda>(k, vals). map (\<lambda>v. (k, v)) vals) explode)"

definition build_url ::
  "NetLib \<Rightarrow> Url \<Rightarrow> HostPattern list \<Rightarrow> string \<Rightarrow> string bmap \<Rightarrow> string option \<Rightarrow> string list bmap \<Rightarrow>
   FetchError + Url" where
  "build_url lib base allowed endpoint params body_template explode =
     (let (path, query_params0) = fold (url_part body_template) params (endpoint, []);
          query_params = query_params0 @ explode_pairs explode
      in rbind (plan_err (nl_join lib base (dropWhile (\<lambda>c. c = CHR ''/'') path))) (\<lambda>url.
         rbind (plan_err (check_target url base allowed)) (\<lambda>_.
           Inr (if query_params \<noteq> [] then nl_append_pairs lib query_params url else url))))"

definition eq_ignore_case :: "string \<Rightarrow> string \<Rightarrow> bool" where
  "eq_ignore_case a b \<longleftrightarrow> to_ascii_lowercase a = to_ascii_lowercase b"

definition has_content_type :: "HttpTableProvider \<Rightarrow> bool" where
  "has_content_type p \<longleftrightarrow>
     list_ex (\<lambda>(k, _). eq_ignore_case k ''content-type'') (hs_headers (hp_source p)) \<or>
     list_ex (\<lambda>(k, _). eq_ignore_case k ''content-type'') (ts_headers (hp_spec p))"

definition request_headers :: "HttpTableProvider \<Rightarrow> (string \<times> string) list" where
  "request_headers p =
     filter (\<lambda>(k, v). \<not> list_ex (\<lambda>(tk, _). eq_ignore_case tk k) (ts_headers (hp_spec p))) (hs_headers (hp_source p)) @
     ts_headers (hp_spec p)"

definition content_type :: "HttpTableProvider \<Rightarrow> BodyKind \<Rightarrow> (string \<times> string) list" where
  "content_type p kind =
     (if has_content_type p then []
      else [(''content-type'', case kind of JsonBody \<Rightarrow> ''application/json''
                                        | FormBody \<Rightarrow> ''application/x-www-form-urlencoded'')])"

definition inject_cursor :: "string option \<Rightarrow> string option \<Rightarrow> json \<Rightarrow> bool \<times> json" where
  "inject_cursor cursor path v =
     (case (cursor, path) of
        (Some c, Some p) \<Rightarrow> set_json_at_path v p (JStr c)
      | _ \<Rightarrow> (False, v))"

text \<open>The body of a request with its content-type header: the table's, the credentials', or both merged.\<close>

definition request_body ::
  "NetLib \<Rightarrow> HttpTableProvider \<Rightarrow> RequestBody option \<Rightarrow> string bmap \<Rightarrow> string option \<Rightarrow> string option \<Rightarrow>
   FetchError + (string \<times> string) list \<times> string option" where
  "request_body lib p body params cursor cursor_path =
     (let auth_body = hs_custom_body (hp_source p); declared = ts_params (hp_spec p) in
      case body of
        Some tbody \<Rightarrow>
          if auth_body = [] then
            let rendered =
                  (case rb_kind tbody of
                     JsonBody \<Rightarrow> render_json_body lib (rb_template tbody) params declared
                   | FormBody \<Rightarrow> render_template (rb_template tbody) params);
                rendered' =
                  (case nl_parse_json lib rendered of
                     None \<Rightarrow> rendered
                   | Some v \<Rightarrow> (case inject_cursor cursor cursor_path v of
                                  (True, v') \<Rightarrow> nl_show_json lib v'
                                | (False, _) \<Rightarrow> rendered))
            in Inr (content_type p (rb_kind tbody), Some rendered')
          else if rb_kind tbody \<noteq> JsonBody
          then Inl (PlanError ''custom auth `body` requires a JSON table body to merge into'')
          else
            (case nl_parse_json lib (render_json_body lib (rb_template tbody) params declared) of
               None \<Rightarrow> Inl (PlanError ''table body is not valid JSON'')
             | Some (JObj m) \<Rightarrow>
                 let merged = JObj (fold (\<lambda>(k, v). bt_insert k v) (custom_body_object auth_body) m)
                 in Inr (content_type p JsonBody, Some (nl_show_json lib (snd (inject_cursor cursor cursor_path merged))))
             | Some _ \<Rightarrow> Inl (PlanError ''table body must be a JSON object to merge custom auth body''))
      | None \<Rightarrow>
          if auth_body = [] then Inr ([], None)
          else Inr (content_type p JsonBody, Some (nl_show_json lib (JObj (custom_body_object auth_body)))))"

subsection \<open>The fetch loop\<close>

record FetchState =
  fs_rows :: "json list"
  fs_params :: "string bmap"
  fs_url :: "Url option"
  fs_cursor :: "string option"
  fs_page :: nat

datatype PageOutcome = Continue FetchState | Break "json list"

text \<open>The request for the page a state is about.\<close>

definition page_request ::
  "NetLib \<Rightarrow> HttpTableProvider \<Rightarrow> string \<times> string \<times> RequestBody option \<Rightarrow> string list bmap \<Rightarrow> FetchState \<Rightarrow>
   FetchError + HttpRequest" where
  "page_request lib p shape explode st =
     (let (endpoint, method_str, body) = shape;
          cursor_path = (case ts_pagination (hp_spec p) of Some (BodyCursor c _) \<Rightarrow> Some c | _ \<Rightarrow> None)
      in rbind (case fs_url st of
                  Some u \<Rightarrow> Inr u
                | None \<Rightarrow> build_url lib (hs_base_url (hp_source p)) (hs_allowed_hosts (hp_source p)) endpoint
                    (fs_params st) (map_option rb_template body) explode) (\<lambda>url.
         rbind (request_body lib p body (fs_params st) (fs_cursor st) cursor_path) (\<lambda>(ct, b).
           Inr \<lparr>hq_method = (case nl_parse_method lib method_str of Some m \<Rightarrow> m | None \<Rightarrow> ''GET''),
                hq_url = url, hq_headers = request_headers p @ ct, hq_body = b\<rparr>)))"

definition check_error :: "NetLib \<Rightarrow> HttpTableProvider \<Rightarrow> nat \<Rightarrow> json \<Rightarrow> FetchError + unit" where
  "check_error lib p status body =
     (case rs_error (ts_response (hp_spec p)) of
        None \<Rightarrow> Inr ()
      | Some spec \<Rightarrow>
          (case detect_error (nl_show_json lib) spec status body of
             None \<Rightarrow> Inl Overflow
           | Some (Some msg) \<Rightarrow> Inl (ScanError msg)
           | Some None \<Rightarrow> Inr ()))"

definition response_json :: "NetLib \<Rightarrow> HttpTableProvider \<Rightarrow> HttpResponse \<Rightarrow> FetchError + json" where
  "response_json lib p resp =
     (case hr_text resp of
        None \<Rightarrow> Inl (ScanError ''reading response body failed'')
      | Some text \<Rightarrow>
          (case nl_parse_json lib text of
             Some v \<Rightarrow> rbind (check_error lib p (hr_status resp) v) (\<lambda>_. Inr v)
           | None \<Rightarrow> rbind (check_error lib p (hr_status resp) JNull) (\<lambda>_. Inl (ScanError ''json parse failed''))))"

definition follow :: "NetLib \<Rightarrow> HttpTableProvider \<Rightarrow> NextPage \<Rightarrow> FetchState \<Rightarrow> FetchError + FetchState" where
  "follow lib p nxt st =
     (case nxt of
        Params ps \<Rightarrow> Inr (st\<lparr>fs_params := ps, fs_url := None, fs_page := fs_page st + 1\<rparr>)
      | NextUrl u \<Rightarrow>
          rbind (plan_err (nl_parse_url lib u)) (\<lambda>parsed.
          rbind (plan_err (check_target parsed (hs_base_url (hp_source p)) (hs_allowed_hosts (hp_source p)))) (\<lambda>_.
            Inr (st\<lparr>fs_url := Some parsed, fs_page := fs_page st + 1\<rparr>)))
      | NextCursor c \<Rightarrow> Inr (st\<lparr>fs_cursor := Some c, fs_url := None, fs_page := fs_page st + 1\<rparr>))"

definition handle_page ::
  "NetLib \<Rightarrow> HttpTableProvider \<Rightarrow> nat option \<Rightarrow> HttpResponse \<Rightarrow> FetchState \<Rightarrow> FetchError + PageOutcome" where
  "handle_page lib p limit resp st =
     (if hr_status resp = 404 \<and> rs_allow_404_empty (ts_response (hp_spec p)) then Inr (Break (fs_rows st))
      else
        rbind (response_json lib p resp) (\<lambda>body.
        rbind (plan_err (extract_rows body (ts_response (hp_spec p)))) (\<lambda>page_rows.
          let all_rows = fs_rows st @ page_rows in
          if (case limit of Some lim \<Rightarrow> lim \<le> length all_rows | None \<Rightarrow> False) then Inr (Break all_rows)
          else if (case hp_max_rows p of Some mx \<Rightarrow> mx < length all_rows | None \<Rightarrow> False)
          then Inl (TooManyRows (ts_name (hp_spec p)) (the (hp_max_rows p)))
          else
            (case ts_pagination (hp_spec p) of
               None \<Rightarrow> Inr (Break all_rows)
             | Some config \<Rightarrow>
                 (case next_page config (fs_params st) body (hr_link resp) page_rows (fs_page st) of
                    None \<Rightarrow> Inr (Break all_rows)
                  | Some nxt \<Rightarrow>
                      rbind (follow lib p nxt (st\<lparr>fs_rows := all_rows\<rparr>)) (\<lambda>st'. Inr (Continue st')))))))"

text \<open>
  The loop, on the number of pages the cap still allows; beside the result, the requests that were sent, in
  order.  The cap is checked before the request of a page is issued.
\<close>

fun fetch_loop ::
  "NetLib \<Rightarrow> (nat \<Rightarrow> HttpRequest \<Rightarrow> string + HttpResponse) \<Rightarrow> HttpTableProvider \<Rightarrow>
   string \<times> string \<times> RequestBody option \<Rightarrow> string list bmap \<Rightarrow> nat option \<Rightarrow> nat \<Rightarrow> FetchState \<Rightarrow>
   (FetchError + json list) \<times> HttpRequest list" where
  "fetch_loop lib send p shape explode limit 0 st =
     (Inl (TooManyPages (ts_name (hp_spec p)) (case hp_max_pages p of Some m \<Rightarrow> m | None \<Rightarrow> default_max_pages)), [])"
| "fetch_loop lib send p shape explode limit (Suc pages) st =
     (case page_request lib p shape explode st of
        Inl e \<Rightarrow> (Inl e, [])
      | Inr req \<Rightarrow>
          (case send (fs_page st) req of
             Inl e \<Rightarrow> (Inl (ScanError e), [req])
           | Inr resp \<Rightarrow>
               (case handle_page lib p limit resp st of
                  Inl e \<Rightarrow> (Inl e, [req])
                | Inr (Break rows) \<Rightarrow> (Inr rows, [req])
                | Inr (Continue st') \<Rightarrow>
                    (case fetch_loop lib send p shape explode limit pages st' of
                       (r, reqs) \<Rightarrow> (r, req # reqs)))))"

definition fetch_rows ::
  "NetLib \<Rightarrow> (nat \<Rightarrow> HttpRequest \<Rightarrow> string + HttpResponse) \<Rightarrow> HttpTableProvider \<Rightarrow> string bmap \<Rightarrow> string list bmap \<Rightarrow>
   nat option \<Rightarrow> (FetchError + json list) \<times> HttpRequest list" where
  "fetch_rows lib send p params explode limit =
     (let seeded = (case ts_pagination (hp_spec p) of Some config \<Rightarrow> seed_initial config params | None \<Rightarrow> params);
          max_pages = (case hp_max_pages p of Some m \<Rightarrow> m | None \<Rightarrow> default_max_pages);
          st = \<lparr>fs_rows = [], fs_params = seeded, fs_url = None, fs_cursor = None, fs_page = 0\<rparr>
      in case fetch_loop lib send p (select_request (hp_spec p) params) explode limit max_pages st of
           (Inl e, reqs) \<Rightarrow> (Inl e, reqs)
         | (Inr rows, reqs) \<Rightarrow> (Inr (case limit of Some lim \<Rightarrow> take lim rows | None \<Rightarrow> rows), reqs))"

subsection \<open>Retries\<close>

record RetryConfig =
  rc_max_retries :: nat
  rc_base_backoff_ms :: nat
  rc_max_backoff_ms :: nat

text \<open>\<open>checked_shl\<close> fails for a shift by 64 or more.\<close>

definition backoff_ms :: "RetryConfig \<Rightarrow> nat \<Rightarrow> nat" where
  "backoff_ms retry attempt =
     (let factor = (if attempt < 64 then 2 ^ attempt else 2 ^ 64 - 1) in
      min (sat 64 (rc_base_backoff_ms retry * factor)) (rc_max_backoff_ms retry))"

text \<open>An attempt ends with a response (its status, and the wait its headers ask for), a refused redirect or a
  transport error.\<close>

datatype 'r attempt = Response nat "nat option" "nat option" 'r | RefusedRedirect string | TransportError string

definition retry_after_ms :: "string option \<Rightarrow> nat option" where
  "retry_after_ms header =
     Option.bind header (\<lambda>h. map_option (\<lambda>secs. sat 64 (secs * 1000)) (parse_uint 64 (trim h)))"

definition is_rate_limit :: "nat list \<Rightarrow> nat \<Rightarrow> bool" where
  "is_rate_limit extra_statuses status \<longleftrightarrow> status = 429 \<or> status = 503 \<or> status \<in> set extra_statuses"

definition retryable :: "nat list \<Rightarrow> nat \<Rightarrow> bool" where
  "retryable extra_statuses status \<longleftrightarrow> (500 \<le> status \<and> status < 600) \<or> is_rate_limit extra_statuses status"

text \<open>The loop over the attempts that are left (the first argument); beside the result, the waits in between.\<close>

fun retry_loop ::
  "nat \<Rightarrow> RetryConfig \<Rightarrow> nat list \<Rightarrow> (nat \<Rightarrow> 'r attempt) \<Rightarrow> nat \<Rightarrow> (string + 'r) \<times> nat list" where
  "retry_loop left retry extra try_send n =
     (case try_send n of
        Response status reset_wait retry_after resp \<Rightarrow>
          if \<not> retryable extra status then (Inr resp, [])
          else (case left of
            0 \<Rightarrow> (Inr resp, [])
          | Suc left' \<Rightarrow>
              let wait = (if is_rate_limit extra status
                          then (case reset_wait of Some w \<Rightarrow> w | None \<Rightarrow>
                                 (case retry_after of Some w \<Rightarrow> w | None \<Rightarrow> backoff_ms retry n))
                          else backoff_ms retry n)
              in case retry_loop left' retry extra try_send (n + 1) of (r, ws) \<Rightarrow> (r, wait # ws))
      | RefusedRedirect e \<Rightarrow> (Inl e, [])
      | TransportError e \<Rightarrow>
          (case left of
             0 \<Rightarrow> (Inl e, [])
           | Suc left' \<Rightarrow>
               (case retry_loop left' retry extra try_send (n + 1) of (r, ws) \<Rightarrow> (r, backoff_ms retry n # ws))))"

declare retry_loop.simps [simp del]

definition send_with_retry :: "RetryConfig \<Rightarrow> nat list \<Rightarrow> (nat \<Rightarrow> 'r attempt) \<Rightarrow> (string + 'r) \<times> nat list" where
  "send_with_retry retry extra try_send = retry_loop (rc_max_retries retry) retry extra try_send 0"

subsection \<open>Bounds of the loop\<close>

text \<open>What the code relies on: appending query pairs leaves the target of a URL as it is.\<close>

definition keeps_target :: "NetLib \<Rightarrow> bool" where
  "keeps_target lib \<longleftrightarrow> (\<forall>q u. u_scheme (nl_append_pairs lib q u) = u_scheme u \<and> u_host (nl_append_pairs lib q u) = u_host u \<and>
     u_host_str (nl_append_pairs lib q u) = u_host_str u \<and> u_port (nl_append_pairs lib q u) = u_port u)"

definition target_ok :: "HttpTableProvider \<Rightarrow> Url \<Rightarrow> bool" where
  "target_ok p url \<longleftrightarrow> check_target url (hs_base_url (hp_source p)) (hs_allowed_hosts (hp_source p)) = Inr ()"

lemma check_target_cong:
  assumes "u_scheme u = u_scheme v" "u_host u = u_host v" "u_host_str u = u_host_str v" "u_port u = u_port v"
  shows "check_target u base allowed = Inr () \<longleftrightarrow> check_target v base allowed = Inr ()"
proof -
  have "check_ip ip u allowed = Inr () \<longleftrightarrow> check_ip ip v allowed = Inr ()" for ip
    by (simp add: check_ip_ok host_allowed_def assms)
  then show ?thesis
    by (simp add: check_target_def same_origin_def host_allowed_def assms Let_def split: option.split Host.split)
qed

lemma plan_err_simps [simp]: "plan_err (Inr a) = Inr a" "plan_err (Inl e) = Inl (PlanError e)"
  by (simp_all add: plan_err_def)

lemma plan_err_Inr [res_simps]: "plan_err r = Inr a \<longleftrightarrow> r = Inr a"
  by (cases r) (auto simp: plan_err_def)

lemma build_url_ok:
  assumes "keeps_target lib"
    "build_url lib (hs_base_url (hp_source p)) (hs_allowed_hosts (hp_source p)) ep params bt ex = Inr url"
  shows "target_ok p url"
proof -
  obtain path q where f: "fold (url_part bt) params (ep, []) = (path, q)" by fastforce
  from assms(2) obtain u where u: "target_ok p u" "url = u \<or> url = nl_append_pairs lib (q @ explode_pairs ex) u"
    by (auto simp: build_url_def f res_simps target_ok_def split: if_splits)
  moreover have "target_ok p (nl_append_pairs lib q' u)" for q'
    using u(1) assms(1) check_target_cong [of "nl_append_pairs lib q' u" u] by (simp add: target_ok_def keeps_target_def)
  ultimately show ?thesis by blast
qed

definition state_ok :: "HttpTableProvider \<Rightarrow> FetchState \<Rightarrow> bool" where
  "state_ok p st \<longleftrightarrow> (\<forall>u. fs_url st = Some u \<longrightarrow> target_ok p u) \<and>
     (\<forall>mx. hp_max_rows p = Some mx \<longrightarrow> length (fs_rows st) \<le> mx)"

lemma page_request_ok:
  assumes "keeps_target lib" "state_ok p st" "page_request lib p shape ex st = Inr req"
  shows "target_ok p (hq_url req)"
proof -
  obtain ep m b where s: "shape = (ep, m, b)" by (cases shape)
  from assms(3) have "(case fs_url st of Some u \<Rightarrow> Inr u
      | None \<Rightarrow> build_url lib (hs_base_url (hp_source p)) (hs_allowed_hosts (hp_source p)) ep (fs_params st)
          (map_option rb_template b) ex) = Inr (hq_url req)"
    by (auto simp: page_request_def s res_simps Let_def)
  then show ?thesis using assms(1,2) build_url_ok by (auto simp: state_ok_def split: option.splits)
qed

lemma follow_ok:
  assumes "follow lib p nxt st = Inr st'" "state_ok p st"
  shows "state_ok p st'" "fs_rows st' = fs_rows st"
  using assms by (auto simp: follow_def state_ok_def res_simps target_ok_def split: NextPage.splits)

lemma handle_page_cases:
  assumes "handle_page lib p limit resp st = Inr out" "state_ok p st"
  obtains (stop) rows where "out = Break rows"
      "\<And>mx. hp_max_rows p = Some mx \<Longrightarrow> length rows \<le> mx \<or> (\<exists>lim. limit = Some lim \<and> lim \<le> length rows)"
  | (more) st' where "out = Continue st'" "state_ok p st'"
proof (cases "hr_status resp = 404 \<and> rs_allow_404_empty (ts_response (hp_spec p))")
  case True
  with assms have "out = Break (fs_rows st)" by (simp add: handle_page_def)
  then show ?thesis using assms(2) by (intro stop) (auto simp: state_ok_def)
next
  case False
  with assms(1) obtain body page where b: "response_json lib p resp = Inr body"
    "extract_rows body (ts_response (hp_spec p)) = Inr page" by (auto simp: handle_page_def res_simps)
  let ?all = "fs_rows st @ page"
  consider (limit) "case limit of Some lim \<Rightarrow> lim \<le> length ?all | None \<Rightarrow> False"
    | (under) "\<not> (case limit of Some lim \<Rightarrow> lim \<le> length ?all | None \<Rightarrow> False)"
      "\<forall>mx. hp_max_rows p = Some mx \<longrightarrow> length ?all \<le> mx"
    using assms(1) False b by (auto simp: handle_page_def res_simps Let_def split: option.splits if_splits)
  then show ?thesis
  proof cases
    case limit
    with assms(1) False b have "out = Break ?all" by (simp add: handle_page_def)
    then show ?thesis by (rule stop) (use limit in \<open>auto split: option.splits\<close>)
  next
    case under
    have ok: "state_ok p (st\<lparr>fs_rows := ?all\<rparr>)" using assms(2) under(2) by (simp add: state_ok_def)
    have nomax: "\<not> (case hp_max_rows p of Some mx \<Rightarrow> mx < length ?all | None \<Rightarrow> False)"
      using under(2) by (auto split: option.split)
    from assms(1) False b under(1) nomax consider "out = Break ?all"
      | nxt st' where "follow lib p nxt (st\<lparr>fs_rows := ?all\<rparr>) = Inr st'" "out = Continue st'"
      by (auto simp: handle_page_def res_simps Let_def split: option.splits)
    then show ?thesis
    proof cases
      case 1
      then show ?thesis using under(2) by (intro stop) auto
    next
      case 2
      then show ?thesis using follow_ok(1) [OF 2(1) ok] by (intro more)
    qed
  qed
qed

lemma fetch_loop_ok:
  assumes "keeps_target lib" "state_ok p st" "fetch_loop lib send p shape ex limit n st = (r, reqs)"
  shows "length reqs \<le> n \<and> (\<forall>req\<in>set reqs. target_ok p (hq_url req)) \<and>
    (\<forall>rows mx. r = Inr rows \<and> hp_max_rows p = Some mx \<longrightarrow>
       length rows \<le> mx \<or> (\<exists>lim. limit = Some lim \<and> lim \<le> length rows))"
  using assms(2,3)
proof (induction n arbitrary: st r reqs)
  case (Suc n)
  show ?case
  proof (cases "page_request lib p shape ex st")
    case (Inl e)
    with Suc.prems show ?thesis by auto
  next
    case (Inr req)
    note ok = page_request_ok [OF assms(1) Suc.prems(1) Inr]
    show ?thesis
    proof (cases "send (fs_page st) req")
      case (Inl e)
      with Suc.prems Inr ok show ?thesis by auto
    next
      case S: (Inr resp)
      show ?thesis
      proof (cases "handle_page lib p limit resp st")
        case (Inl e)
        with Suc.prems Inr S ok show ?thesis by auto
      next
        case H: (Inr out)
        show ?thesis
        proof (rule handle_page_cases [OF H Suc.prems(1)])
          fix rows
          assume stop: "out = Break rows"
            "\<And>mx. hp_max_rows p = Some mx \<Longrightarrow> length rows \<le> mx \<or> (\<exists>lim. limit = Some lim \<and> lim \<le> length rows)"
          then show ?thesis using Suc.prems Inr S H ok by auto
        next
          fix st'
          assume more: "out = Continue st'" "state_ok p st'"
          obtain r' reqs' where l: "fetch_loop lib send p shape ex limit n st' = (r', reqs')" by fastforce
          from Suc.prems(2) Inr S H more(1) l have "r = r'" "reqs = req # reqs'" by auto
          with Suc.IH [OF more(2) l] ok show ?thesis by auto
        qed
      qed
    qed
  qed
qed auto

text \<open>
  Fetching a table is bounded and stays on target: whatever the server answers, at most \<open>max_pages\<close> requests
  (1000 by default) are sent, each to a URL the outbound guard accepts, links from responses included; a result
  has at most \<open>limit\<close> rows, and at most \<open>max_rows\<close> rows unless the caller's limit is larger.
\<close>

lemma fetch_rows_bounded:
  assumes "keeps_target lib" "fetch_rows lib send p params ex limit = (r, reqs)"
  shows "length reqs \<le> (case hp_max_pages p of Some m \<Rightarrow> m | None \<Rightarrow> 1000) \<and>
    (\<forall>req\<in>set reqs. check_target (hq_url req) (hs_base_url (hp_source p)) (hs_allowed_hosts (hp_source p)) = Inr ()) \<and>
    (\<forall>rows. r = Inr rows \<longrightarrow> (\<forall>lim. limit = Some lim \<longrightarrow> length rows \<le> lim) \<and>
       (\<forall>mx. hp_max_rows p = Some mx \<and> (\<forall>lim. limit = Some lim \<longrightarrow> lim \<le> mx) \<longrightarrow> length rows \<le> mx))"
proof -
  let ?n = "case hp_max_pages p of Some m \<Rightarrow> m | None \<Rightarrow> default_max_pages"
  let ?st = "\<lparr>fs_rows = [], fs_params = (case ts_pagination (hp_spec p) of Some config \<Rightarrow> seed_initial config params
      | None \<Rightarrow> params), fs_url = None, fs_cursor = None, fs_page = 0\<rparr>"
  obtain r' reqs' where l: "fetch_loop lib send p (select_request (hp_spec p) params) ex limit ?n ?st = (r', reqs')"
    by fastforce
  from assms(2) l have reqs: "reqs = reqs'" and
    r: "\<And>rows. r = Inr rows \<Longrightarrow> \<exists>all. r' = Inr all \<and> rows = (case limit of Some lim \<Rightarrow> take lim all | None \<Rightarrow> all)"
    by (auto simp: fetch_rows_def split: sum.splits)
  have "state_ok p ?st" by (simp add: state_ok_def)
  note ok = fetch_loop_ok [OF assms(1) this l]
  have "(\<forall>lim. limit = Some lim \<longrightarrow> length rows \<le> lim) \<and>
       (\<forall>mx. hp_max_rows p = Some mx \<and> (\<forall>lim. limit = Some lim \<longrightarrow> lim \<le> mx) \<longrightarrow> length rows \<le> mx)"
    if rows: "r = Inr rows" for rows
  proof -
    obtain all where all: "r' = Inr all" "rows = (case limit of Some lim \<Rightarrow> take lim all | None \<Rightarrow> all)"
      using r [OF rows] by blast
    show ?thesis
    proof (cases limit)
      case None
      with ok all show ?thesis by auto
    next
      case (Some lim)
      with all show ?thesis by (auto simp: min_def)
    qed
  qed
  with ok reqs show ?thesis by (auto simp: target_ok_def default_max_pages_def split: option.splits)
qed

definition idle_spec :: HttpTableSpec where
  "idle_spec =
     \<lparr>ts_name = ''users'', ts_endpoint = ''/users'', ts_method = ''GET'', ts_body = None, ts_requests = [],
      ts_params = [], ts_headers = [], ts_pagination = Some (Offset ''offset'' ''limit'' 2),
      ts_response = \<lparr>rs_path = ''$'', rs_schema = [], rs_allow_404_empty = False, rs_error = None, rs_reshape = None\<rparr>\<rparr>"

definition idle_provider :: HttpTableProvider where
  "idle_provider =
     with_safety \<lparr>hs_base_url = api_base, hs_allowed_hosts = [], hs_headers = [], hs_custom_body = []\<rparr> idle_spec
       (Some 5) (Some 10)"

definition page_text :: "nat \<Rightarrow> string" where
  "page_text i = (if i = 0 then ''a'' else if i = 1 then ''b'' else [])"

definition page_lib :: NetLib where
  "page_lib = \<lparr>nl_join = (\<lambda>base _. Inr base), nl_parse_url = (\<lambda>_. Inl ''bad url''), nl_append_pairs = (\<lambda>_ u. u),
     nl_parse_json = (\<lambda>t. Some (JArr (if t = ''a'' then [JNum ''1'', JNum ''2''] else if t = ''b'' then [JNum ''3''] else []))),
     nl_show_json = (\<lambda>_. []), nl_parse_method = Some\<rparr>"

definition page_server :: "nat \<Rightarrow> HttpRequest \<Rightarrow> string + HttpResponse" where
  "page_server i req = Inr \<lparr>hr_status = 200, hr_link = None, hr_text = Some (page_text i)\<rparr>"

lemma page_lib_keeps: "keeps_target page_lib"
  by (simp add: keeps_target_def page_lib_def)

subsection \<open>Offset pagination reads everything\<close>

text \<open>
  A server with the offset contract: it answers the request for offset \<open>i * psize\<close> with that slice of its data.
  The requests of the table can be built.
\<close>

definition offset_server ::
  "NetLib \<Rightarrow> (nat \<Rightarrow> HttpRequest \<Rightarrow> string + HttpResponse) \<Rightarrow> HttpTableProvider \<Rightarrow>
   string \<times> string \<times> RequestBody option \<Rightarrow> string list bmap \<Rightarrow> string \<Rightarrow> string \<Rightarrow> nat \<Rightarrow> json list \<Rightarrow> bool" where
  "offset_server lib send p shape ex param sp psize data \<longleftrightarrow>
     (\<forall>st. fs_url st = None \<and> map_of (fs_params st) param = Some (show_nat (fs_page st * psize)) \<and>
        map_of (fs_params st) sp = Some (show_nat psize) \<longrightarrow>
        (\<exists>req resp text. page_request lib p shape ex st = Inr req \<and> send (fs_page st) req = Inr resp \<and>
           hr_status resp = 200 \<and> hr_text resp = Some text \<and>
           nl_parse_json lib text = Some (JArr (take psize (drop (fs_page st * psize) data)))))"

lemma offset_page:
  assumes "ts_pagination (hp_spec p) = Some (Offset param sp psize)"
    and plain: "rs_path (ts_response (hp_spec p)) = ''$''" "rs_reshape (ts_response (hp_spec p)) = None"
      "rs_error (ts_response (hp_spec p)) = None"
    and resp: "hr_status resp = 200" "hr_text resp = Some text" "nl_parse_json lib text = Some (JArr page)"
    and cap: "case hp_max_rows p of Some mx \<Rightarrow> length (fs_rows st @ page) \<le> mx | None \<Rightarrow> True"
    and word: "(fs_page st + 1) * psize < 2 ^ 64" "0 < psize"
  shows "handle_page lib p None resp st = Inr
    (if length page < psize then Break (fs_rows st @ page)
     else Continue (st\<lparr>fs_rows := fs_rows st @ page,
       fs_params := bt_insert sp (show_nat psize) (bt_insert param (show_nat ((fs_page st + 1) * psize)) (fs_params st)),
       fs_url := None, fs_page := fs_page st + 1\<rparr>))"
proof -
  have "fs_page st + 1 \<le> (fs_page st + 1) * psize" using word(2) by (cases psize) auto
  then have s: "sat 64 (psize * sat 64 (fs_page st + 1)) = (fs_page st + 1) * psize"
    using word(1) by (simp add: sat_def min_def mult.commute)
  have r: "response_json lib p resp = Inr (JArr page)"
    using resp plain(3) by (simp add: response_json_def check_error_def)
  have e: "extract_rows (JArr page) (ts_response (hp_spec p)) = Inr page"
    using plain by (simp add: extract_rows_def json_at_path_def)
  have c: "\<not> (case hp_max_rows p of Some mx \<Rightarrow> mx < length (fs_rows st @ page) | None \<Rightarrow> False)"
    using cap by (auto split: option.splits)
  show ?thesis
    using assms(1) resp(1) r e c s by (simp add: handle_page_def follow_def Let_def del: length_append)
qed

lemma offset_loop:
  assumes pag: "ts_pagination (hp_spec p) = Some (Offset param sp psize)" "param \<noteq> sp" "0 < psize"
    and plain: "rs_path (ts_response (hp_spec p)) = ''$''" "rs_reshape (ts_response (hp_spec p)) = None"
      "rs_error (ts_response (hp_spec p)) = None"
    and server: "offset_server lib send p shape ex param sp psize data"
    and cap: "case hp_max_rows p of Some mx \<Rightarrow> length data \<le> mx | None \<Rightarrow> True" "length data + psize < 2 ^ 64"
  shows "fs_url st = None \<Longrightarrow> map_of (fs_params st) param = Some (show_nat (fs_page st * psize)) \<Longrightarrow>
    map_of (fs_params st) sp = Some (show_nat psize) \<Longrightarrow> fs_rows st = take (fs_page st * psize) data \<Longrightarrow>
    fs_page st * psize \<le> length data \<Longrightarrow> length data div psize < fs_page st + n \<Longrightarrow>
    fst (fetch_loop lib send p shape ex None n st) = Inr data"
proof (induction n arbitrary: st)
  case 0
  then have "fs_page st \<le> length data div psize" using pag(3) by (simp add: less_eq_div_iff_mult_less_eq)
  with 0 show ?case by simp
next
  case (Suc n)
  let ?page = "take psize (drop (fs_page st * psize) data)"
  from server Suc.prems(1-3) obtain req resp tx where r: "page_request lib p shape ex st = Inr req"
    "send (fs_page st) req = Inr resp" "hr_status resp = 200" "hr_text resp = Some tx"
    "nl_parse_json lib tx = Some (JArr ?page)" unfolding offset_server_def by blast
  have rows: "fs_rows st @ ?page = take ((fs_page st + 1) * psize) data"
    using Suc.prems(4) take_add [of "fs_page st * psize" psize data] by (simp add: add.commute)
  have cap': "case hp_max_rows p of Some mx \<Rightarrow> length (fs_rows st @ ?page) \<le> mx | None \<Rightarrow> True"
    unfolding rows using cap(1) by (auto split: option.splits)
  have word: "(fs_page st + 1) * psize < 2 ^ 64" using Suc.prems(5) cap(2) by simp
  note h = offset_page [OF pag(1) plain r(3-5) cap' word pag(3), unfolded rows]
  show ?case
  proof (cases "length ?page < psize")
    case True
    then have "take ((fs_page st + 1) * psize) data = data" using pag(3) by auto
    with h True have "handle_page lib p None resp st = Inr (Break data)" by (simp only: if_True)
    with r(1,2) show ?thesis by simp
  next
    case False
    let ?st = "st\<lparr>fs_rows := take ((fs_page st + 1) * psize) data,
      fs_params := bt_insert sp (show_nat psize) (bt_insert param (show_nat ((fs_page st + 1) * psize)) (fs_params st)),
      fs_url := None, fs_page := fs_page st + 1\<rparr>"
    have "(fs_page st + 1) * psize \<le> length data" using False Suc.prems(5) by (simp add: min_def split: if_splits)
    then have "fst (fetch_loop lib send p shape ex None n ?st) = Inr data"
      using pag(2) Suc.prems(6) by (intro Suc.IH) simp_all
    moreover from h False have "handle_page lib p None resp st = Inr (Continue ?st)" by (simp only: if_False)
    ultimately show ?thesis using r(1,2) by (simp add: split_beta)
  qed
qed

text \<open>
  C23. Offset pagination is complete: from a server that answers each offset with that slice of its data, the loop
  collects exactly the server's rows, in order and without gaps or duplicates, whenever the page cap allows one
  more page than the full ones and the row cap admits the data.
\<close>

theorem offset_pagination_complete:
  assumes "ts_pagination (hp_spec p) = Some (Offset param sp psize)" "param \<noteq> sp" "0 < psize"
    and "rs_path (ts_response (hp_spec p)) = ''$''" "rs_reshape (ts_response (hp_spec p)) = None"
      "rs_error (ts_response (hp_spec p)) = None"
    and "offset_server lib send p (select_request (hp_spec p) params) ex param sp psize data"
    and "map_of params param = None" "map_of params sp = None"
    and "case hp_max_rows p of Some mx \<Rightarrow> length data \<le> mx | None \<Rightarrow> True" "length data + psize < 2 ^ 64"
    and "length data div psize < (case hp_max_pages p of Some m \<Rightarrow> m | None \<Rightarrow> 1000)"
  shows "fst (fetch_rows lib send p params ex None) = Inr data"
proof -
  have zero: "show_nat 0 = ''0''" by code_simp
  let ?st = "\<lparr>fs_rows = [], fs_params = seed_initial (Offset param sp psize) params, fs_url = None,
    fs_cursor = None, fs_page = 0\<rparr>"
  let ?n = "case hp_max_pages p of Some m \<Rightarrow> m | None \<Rightarrow> default_max_pages"
  have "fst (fetch_loop lib send p (select_request (hp_spec p) params) ex None ?n ?st) = Inr data"
    by (rule offset_loop [OF assms(1-7,10,11)])
      (use assms in \<open>auto simp: bt_or_insert_def zero default_max_pages_def split: option.splits\<close>)
  then show ?thesis using assms(1) by (auto simp: fetch_rows_def split: prod.splits)
qed

theorem offset_pagination_complete_witness:
  "fst (fetch_rows page_lib page_server idle_provider [] [] None) = Inr [JNum ''1'', JNum ''2'', JNum ''3'']"
proof -
  have shape: "select_request (hp_spec idle_provider) [] = (''/users'', ''GET'', None)"
    by (simp add: select_request_def idle_provider_def with_safety_def idle_spec_def)
  have "\<exists>req. page_request page_lib idle_provider (''/users'', ''GET'', None) [] st = Inr req" for st
  proof -
    obtain path q where f: "fold (url_part None) (fs_params st) (''/users'', []) = (path, q)" by fastforce
    have "check_target api_base api_base [] = Inr ()" by (simp add: check_target_def same_origin_def)
    then show ?thesis
      by (auto simp: page_request_def idle_provider_def with_safety_def idle_spec_def page_lib_def request_body_def build_url_def f Let_def
          split: option.split)
  qed
  moreover have "take 2 (drop (i * 2) [JNum ''1'', JNum ''2'', JNum ''3'']) =
      (if i = 0 then [JNum ''1'', JNum ''2''] else if i = 1 then [JNum ''3''] else [])" for i :: nat
    by (cases i rule: nat.exhaust; cases "i - 1") auto
  ultimately have s: "offset_server page_lib page_server idle_provider (''/users'', ''GET'', None) [] ''offset'' ''limit'' 2
      [JNum ''1'', JNum ''2'', JNum ''3'']"
    by (auto simp: offset_server_def page_server_def page_lib_def page_text_def)
  have "fst (fetch_rows page_lib page_server idle_provider [] [] None) = Inr [JNum ''1'', JNum ''2'', JNum ''3'']"
    by (rule offset_pagination_complete [where param = "''offset''" and sp = "''limit''" and psize = 2])
      (use s in \<open>simp_all only: shape\<close>, simp_all add: idle_provider_def with_safety_def idle_spec_def)
  then show ?thesis .
qed

subsection \<open>Retries are bounded\<close>

lemma backoff_exact:
  assumes "rc_max_backoff_ms retry < 2 ^ 64"
  shows "backoff_ms retry attempt = min (rc_base_backoff_ms retry * 2 ^ attempt) (rc_max_backoff_ms retry)"
proof (cases "attempt < 64")
  case True
  with assms show ?thesis by (auto simp: backoff_ms_def sat_def min_def Let_def)
next
  case False
  show ?thesis
  proof (cases "rc_base_backoff_ms retry = 0")
    case zero: False
    have "(2 :: nat) ^ 64 \<le> 2 ^ attempt" using False by (intro power_increasing) auto
    also have "\<dots> \<le> rc_base_backoff_ms retry * 2 ^ attempt" using zero by (cases "rc_base_backoff_ms retry") auto
    finally have "rc_max_backoff_ms retry \<le> rc_base_backoff_ms retry * 2 ^ attempt" using assms by linarith
    moreover have "rc_max_backoff_ms retry \<le> sat 64 (rc_base_backoff_ms retry * (2 ^ 64 - 1))"
      using zero assms by (cases "rc_base_backoff_ms retry") (auto simp: sat_def min_def)
    ultimately show ?thesis using False by (simp add: backoff_ms_def Let_def min_def)
  qed (simp add: backoff_ms_def sat_def)
qed

text \<open>What the loop has done after the waits \<open>ws\<close>: every attempt before the last one asked for a retry.\<close>

fun wants_retry :: "nat list \<Rightarrow> 'r attempt \<Rightarrow> bool" where
  "wants_retry extra (Response status _ _ _) = retryable extra status"
| "wants_retry extra (RefusedRedirect _) = False"
| "wants_retry extra (TransportError _) = True"

fun outcome :: "'r attempt \<Rightarrow> string + 'r" where
  "outcome (Response _ _ _ resp) = Inr resp"
| "outcome (RefusedRedirect e) = Inl e"
| "outcome (TransportError e) = Inl e"

fun asked_wait :: "nat list \<Rightarrow> 'r attempt \<Rightarrow> bool" where
  "asked_wait extra (Response status a b _) = (is_rate_limit extra status \<and> (a \<noteq> None \<or> b \<noteq> None))"
| "asked_wait extra _ = False"

lemma retry_loop_spec:
  assumes "retry_loop left retry extra try_send n = (r, ws)"
  shows "length ws \<le> left \<and> r = outcome (try_send (n + length ws)) \<and>
    (wants_retry extra (try_send (n + length ws)) \<longrightarrow> length ws = left) \<and>
    (\<forall>k<length ws. wants_retry extra (try_send (n + k)) \<and>
       (\<not> asked_wait extra (try_send (n + k)) \<longrightarrow> ws ! k = backoff_ms retry (n + k)))"
  using assms
proof (induction left arbitrary: n r ws)
  case 0
  then show ?case
    by (cases "try_send n") (auto simp: retry_loop.simps [of 0] split: if_splits)
next
  case (Suc left)
  let ?again = "\<lambda>w. case retry_loop left retry extra try_send (n + 1) of (r, ws) \<Rightarrow> (r, w # ws)"
  show ?case
  proof (cases "wants_retry extra (try_send n)")
    case False
    with Suc.prems have "ws = [] \<and> r = outcome (try_send n)"
      by (cases "try_send n") (auto simp: retry_loop.simps [of "Suc left"] split: if_splits)
    with False show ?thesis by simp
  next
    case True
    with Suc.prems obtain w where w: "?again w = (r, ws)"
      "\<not> asked_wait extra (try_send n) \<longrightarrow> w = backoff_ms retry n"
      by (cases "try_send n") (auto simp: retry_loop.simps [of "Suc left"] Let_def split: if_splits option.splits)
    then obtain ws' where ws': "retry_loop left retry extra try_send (n + 1) = (r, ws')" "ws = w # ws'"
      by (auto split: prod.splits)
    note ih = Suc.IH [OF ws'(1)]
    have "wants_retry extra (try_send (n + k)) \<and>
        (\<not> asked_wait extra (try_send (n + k)) \<longrightarrow> ws ! k = backoff_ms retry (n + k))" if "k < length ws" for k
      using that ih True w(2) ws'(2) by (cases k) auto
    with ih ws'(2) show ?thesis by auto
  qed
qed

text \<open>
  A request is retried a bounded number of times, for a reason, and without overflow: at most
  \<open>max_retries\<close> further attempts follow the first; every attempt but the last failed in transport or with a
  status that calls for a retry, and the last one did not unless the retries are used up; its outcome is the
  result.  Where the server does not ask for another delay, the wait after attempt \<open>k\<close> is exactly
  \<open>min (base * 2 ^ k) max\<close>, although the code computes in 64 bits.
\<close>

lemma retry_bounded:
  assumes "send_with_retry retry extra try_send = (r, ws)" "rc_max_backoff_ms retry < 2 ^ 64"
  shows "length ws \<le> rc_max_retries retry \<and> r = outcome (try_send (length ws)) \<and>
    (wants_retry extra (try_send (length ws)) \<longrightarrow> length ws = rc_max_retries retry) \<and>
    (\<forall>k<length ws. wants_retry extra (try_send k) \<and> (\<not> asked_wait extra (try_send k) \<longrightarrow>
       ws ! k = min (rc_base_backoff_ms retry * 2 ^ k) (rc_max_backoff_ms retry)))"
  using retry_loop_spec [of "rc_max_retries retry" retry extra try_send 0 r ws] assms backoff_exact [OF assms(2)]
  by (simp add: send_with_retry_def)

end
