(* ===== verification/Http_Scan.thy ===== *)
theory Http_Scan
  imports Http_Fetch
begin

section \<open>Scanning an HTTP table\<close>

text \<open>
  The scan of a typed HTTP table (\<open>typed.rs\<close> in \<open>pawrly-sources/http/src\<close>): which filters are pushed into the
  request, how they bind the parameters of the table, the fan-out of an \<open>IN\<close> list into one request per value,
  and the Arrow batches that are built from the rows.  A filter is the part of DataFusion's expression type the
  code inspects; what chrono parses and the rounding of a decimal text to a float are arguments.
\<close>

subsection \<open>Filters\<close>

datatype ScalarValue =
    SUtf8 "string option"
  | SLargeUtf8 "string option"
  | SInt32 "int option"
  | SInt64 "int option"
  | SUInt64 "nat option"
  | SBoolean "bool option"
  | SFloat64 "64 word option"
  | STimestamp "string option" "int option"
  | SDate32 "int option"

datatype Operator = OpEq | OpGt | OpLt | OpGtEq | OpLtEq | OpOr | OpOther string

datatype Expr =
    EColumn string
  | ELiteral ScalarValue
  | EBinary Expr Operator Expr
  | EInList Expr "Expr list" bool
  | EOther string

definition show_int :: "int \<Rightarrow> string" where
  "show_int n = (if n < 0 then CHR ''-'' # show_nat (nat (- n)) else show_nat (nat n))"

fun scalar_to_string :: "ScalarValue \<Rightarrow> string option" where
  "scalar_to_string (SUtf8 (Some s)) = Some s"
| "scalar_to_string (SLargeUtf8 (Some s)) = Some s"
| "scalar_to_string (SInt32 (Some n)) = Some (show_int n)"
| "scalar_to_string (SInt64 (Some n)) = Some (show_int n)"
| "scalar_to_string (SUInt64 (Some n)) = Some (show_nat n)"
| "scalar_to_string (SBoolean (Some b)) = Some (if b then ''true'' else ''false'')"
| "scalar_to_string _ = None"

fun cmp_token :: "Operator \<Rightarrow> bool \<Rightarrow> string option" where
  "cmp_token OpEq _ = Some ''=''"
| "cmp_token OpGt flipped = Some (if flipped then ''<'' else ''>'')"
| "cmp_token OpLt flipped = Some (if flipped then ''>'' else ''<'')"
| "cmp_token OpGtEq flipped = Some (if flipped then ''<='' else ''>='')"
| "cmp_token OpLtEq flipped = Some (if flipped then ''>='' else ''<='')"
| "cmp_token _ _ = None"

fun extract_cmp :: "Expr \<Rightarrow> (string \<times> string \<times> string) option" where
  "extract_cmp (EBinary (EColumn c) op (ELiteral s)) =
     Option.bind (cmp_token op False) (\<lambda>token. map_option (\<lambda>v. (c, token, v)) (scalar_to_string s))"
| "extract_cmp (EBinary (ELiteral s) op (EColumn c)) =
     Option.bind (cmp_token op True) (\<lambda>token. map_option (\<lambda>v. (c, token, v)) (scalar_to_string s))"
| "extract_cmp _ = None"

text \<open>The column and the values collected so far are the state; \<open>None\<close> is the answer \<open>false\<close>.\<close>

definition collect_eq :: "string \<Rightarrow> ScalarValue \<Rightarrow> string option \<times> string list \<Rightarrow> (string option \<times> string list) option" where
  "collect_eq c s st =
     (case st of (col, vals) \<Rightarrow>
        if col \<noteq> None \<and> col \<noteq> Some c then None
        else map_option (\<lambda>v. (Some c, vals @ [v])) (scalar_to_string s))"

fun collect_or_equalities :: "Expr \<Rightarrow> string option \<times> string list \<Rightarrow> (string option \<times> string list) option" where
  "collect_or_equalities (EBinary left OpOr right) st =
     Option.bind (collect_or_equalities left st) (collect_or_equalities right)"
| "collect_or_equalities (EBinary (EColumn c) OpEq (ELiteral s)) st = collect_eq c s st"
| "collect_or_equalities (EBinary (ELiteral s) OpEq (EColumn c)) st = collect_eq c s st"
| "collect_or_equalities _ st = None"

fun literal_string :: "Expr \<Rightarrow> string option" where
  "literal_string (ELiteral s) = scalar_to_string s"
| "literal_string _ = None"

fun extract_in_list :: "Expr \<Rightarrow> (string \<times> string list) option" where
  "extract_in_list (EInList (EColumn c) items negated) =
     (if negated \<or> list_ex (\<lambda>i. literal_string i = None) items then None
      else Some (c, map (\<lambda>i. the (literal_string i)) items))"
| "extract_in_list (EBinary l op r) =
     Option.bind (collect_or_equalities (EBinary l op r) (None, [])) (\<lambda>(col, vals).
       if length vals < 2 then None else map_option (\<lambda>c. (c, vals)) col)"
| "extract_in_list _ = None"

definition is_path_param :: "HttpTableSpec \<Rightarrow> string \<Rightarrow> bool" where
  "is_path_param spec name \<longleftrightarrow>
     has_sub (needle name) (ts_endpoint spec) \<or>
     list_ex (\<lambda>r. has_sub (needle name) (cr_endpoint r)) (ts_requests spec)"

definition find_param :: "HttpTableSpec \<Rightarrow> string \<Rightarrow> ParamSpec option" where
  "find_param spec col = find (\<lambda>p. ps_name p = col) (ts_params spec)"

definition can_push_down :: "HttpTableSpec \<Rightarrow> Expr \<Rightarrow> bool" where
  "can_push_down spec expr =
     (case extract_in_list expr of
        Some (col, _) \<Rightarrow>
          list_ex (\<lambda>p. ps_name p = col \<and> (ps_explode p \<or> ps_required p \<or> is_path_param spec col)) (ts_params spec)
      | None \<Rightarrow>
          (case extract_cmp expr of
             None \<Rightarrow> False
           | Some (col, op, _) \<Rightarrow>
               (case find_param spec col of
                  None \<Rightarrow> False
                | Some param \<Rightarrow> op = ''='' \<or> op \<in> set (ps_accepts param) \<and> map_of (ps_emit param) op \<noteq> None)))"

datatype FilterPushDown = PushExact | PushUnsupported

definition supports_filters_pushdown :: "HttpTableSpec \<Rightarrow> Expr list \<Rightarrow> FilterPushDown list" where
  "supports_filters_pushdown spec filters =
     map (\<lambda>f. if can_push_down spec f then PushExact else PushUnsupported) filters"

subsection \<open>Binding the parameters\<close>

text \<open>\<open>s.split(sep)\<close> for a string separator; an empty one splits between the characters and at both ends.\<close>

definition utf8_cont :: "char \<Rightarrow> bool" where
  "utf8_cont c \<longleftrightarrow> (128 :: nat) \<le> of_char c \<and> of_char c < (192 :: nat)"

function utf8_chars :: "string \<Rightarrow> string list" where
  "utf8_chars [] = []"
| "utf8_chars (c # s) = (c # takeWhile utf8_cont s) # utf8_chars (dropWhile utf8_cont s)"
  by pat_completeness auto
termination
  by (relation "measure length") (auto simp: length_dropWhile_le le_imp_less_Suc)

function split_sub :: "string \<Rightarrow> string \<Rightarrow> string list" where
  "split_sub sep s =
     (if sep = [] then [] # utf8_chars s @ [[]]
      else case split_at_sub sep s of
             None \<Rightarrow> [s]
           | Some (a, b) \<Rightarrow> a # split_sub sep b)"
  by pat_completeness auto
termination
  by (relation "measure (\<lambda>(sep, s). length s)") (auto dest: split_at_sub_length)

declare split_sub.simps [simp del]

definition i64_max :: int where
  "i64_max = 2 ^ 63 - 1"

fun Derive_resolve :: "Derive \<Rightarrow> string bmap \<Rightarrow> int \<Rightarrow> string option" where
  "Derive_resolve (Ago seconds) params now_epoch = Some (show_int (now_epoch - min (int seconds) i64_max))"
| "Derive_resolve (Split src separator part) params now_epoch =
     Option.bind (map_of params src) (\<lambda>v.
       let ps = split_sub separator v in if part < length ps then Some (ps ! part) else None)"

definition bind_cmp :: "HttpTableSpec \<Rightarrow> Expr \<Rightarrow> string bmap \<Rightarrow> string bmap" where
  "bind_cmp spec f params =
     (case extract_cmp f of
        None \<Rightarrow> params
      | Some (col, op, val) \<Rightarrow>
          (case find_param spec col of
             None \<Rightarrow> params
           | Some param \<Rightarrow>
               if op = ''='' then bt_insert col val params
               else (case map_of (ps_emit param) op of
                       Some query_param \<Rightarrow> bt_insert query_param val params
                     | None \<Rightarrow> params)))"

type_synonym fanout = "(string \<times> string list) list"

definition bind_in :: "HttpTableSpec \<Rightarrow> Expr \<Rightarrow> string list bmap \<times> fanout \<Rightarrow> string list bmap \<times> fanout" where
  "bind_in spec f st =
     (case st of (explode_params, fanout) \<Rightarrow>
        (case extract_in_list f of
           None \<Rightarrow> st
         | Some (col, vals) \<Rightarrow>
             (case find_param spec col of
                None \<Rightarrow> st
              | Some param \<Rightarrow>
                  if ps_explode param \<and> \<not> is_path_param spec col then (bt_insert col vals explode_params, fanout)
                  else if ps_required param \<or> is_path_param spec col then (explode_params, fanout @ [(col, vals)])
                  else st)))"

definition bound_elsewhere :: "string \<Rightarrow> string list bmap \<Rightarrow> fanout \<Rightarrow> bool" where
  "bound_elsewhere name explode fanout \<longleftrightarrow> map_of explode name \<noteq> None \<or> list_ex (\<lambda>(n, _). n = name) fanout"

definition bind_default :: "string list bmap \<Rightarrow> fanout \<Rightarrow> ParamSpec \<Rightarrow> string bmap \<Rightarrow> string bmap" where
  "bind_default explode fanout p params =
     (case ps_default p of
        Some d \<Rightarrow> if map_of params (ps_name p) = None \<and> \<not> bound_elsewhere (ps_name p) explode fanout
                  then bt_insert (ps_name p) d params else params
      | None \<Rightarrow> params)"

definition derived_params :: "HttpTableSpec \<Rightarrow> string list bmap \<Rightarrow> fanout \<Rightarrow> int \<Rightarrow> string bmap \<Rightarrow> (string \<times> string) list" where
  "derived_params spec explode fanout now_epoch params =
     List.map_filter (\<lambda>p.
       if map_of params (ps_name p) \<noteq> None \<or> bound_elsewhere (ps_name p) explode fanout then None
       else Option.bind (ps_derive p) (\<lambda>d.
              map_option (\<lambda>v. (ps_name p, v)) (Derive_resolve d params now_epoch))) (ts_params spec)"

record Binding =
  bi_params :: "string bmap"
  bi_explode :: "string list bmap"
  bi_fanout :: fanout

definition bind_filters :: "HttpTableSpec \<Rightarrow> int \<Rightarrow> Expr list \<Rightarrow> Binding" where
  "bind_filters spec now_epoch filters =
     (let params0 = fold (bind_cmp spec) filters [];
          (explode, fanout) = fold (bind_in spec) filters ([], []);
          params1 = fold (bind_default explode fanout) (ts_params spec) params0;
          params2 = fold (\<lambda>(k, v). bt_insert k v) (derived_params spec explode fanout now_epoch params1) params1
      in \<lparr>bi_params = params2, bi_explode = explode, bi_fanout = fanout\<rparr>)"

definition unbound_required :: "HttpTableSpec \<Rightarrow> Binding \<Rightarrow> string list" where
  "unbound_required spec b =
     map ps_name (filter (\<lambda>p. ps_required p \<and> map_of (bi_params b) (ps_name p) = None \<and>
       \<not> bound_elsewhere (ps_name p) (bi_explode b) (bi_fanout b)) (ts_params spec))"

definition expand_fanout :: "string bmap \<Rightarrow> fanout \<Rightarrow> string bmap list" where
  "expand_fanout base fanout =
     foldl (\<lambda>sets (name, vals). concat (map (\<lambda>s. map (\<lambda>v. bt_insert name v s) vals) sets)) [base] fanout"

subsection \<open>Batches\<close>

datatype ArrowArray =
    AUtf8 "string option list"
  | AInt32 "int option list"
  | AInt64 "int option list"
  | AFloat64 "64 word option list"
  | ABoolean "bool option list"
  | ATimestamp "string option" "int option list"
  | ADate32 "int option list"

fun array_type :: "ArrowArray \<Rightarrow> DataType" where
  "array_type (AUtf8 _) = TUtf8"
| "array_type (AInt32 _) = TInt32"
| "array_type (AInt64 _) = TInt64"
| "array_type (AFloat64 _) = TFloat64"
| "array_type (ABoolean _) = TBoolean"
| "array_type (ATimestamp tz _) = TTimestamp tz"
| "array_type (ADate32 _) = TDate32"

text \<open>The cells of an array, as \<open>ScalarValue::try_from_array\<close> reads them.\<close>

fun cells :: "ArrowArray \<Rightarrow> ScalarValue list" where
  "cells (AUtf8 xs) = map SUtf8 xs"
| "cells (AInt32 xs) = map SInt32 xs"
| "cells (AInt64 xs) = map SInt64 xs"
| "cells (AFloat64 xs) = map SFloat64 xs"
| "cells (ABoolean xs) = map SBoolean xs"
| "cells (ATimestamp tz xs) = map (STimestamp tz) xs"
| "cells (ADate32 xs) = map SDate32 xs"

abbreviation array_len :: "ArrowArray \<Rightarrow> nat" where
  "array_len a \<equiv> length (cells a)"

fun array_take :: "nat \<Rightarrow> ArrowArray \<Rightarrow> ArrowArray" where
  "array_take n (AUtf8 xs) = AUtf8 (take n xs)"
| "array_take n (AInt32 xs) = AInt32 (take n xs)"
| "array_take n (AInt64 xs) = AInt64 (take n xs)"
| "array_take n (AFloat64 xs) = AFloat64 (take n xs)"
| "array_take n (ABoolean xs) = ABoolean (take n xs)"
| "array_take n (ATimestamp tz xs) = ATimestamp tz (take n xs)"
| "array_take n (ADate32 xs) = ADate32 (take n xs)"

record RecordBatch =
  ba_schema :: Schema
  ba_columns :: "ArrowArray list"
  ba_rows :: nat

definition batch_slice :: "nat \<Rightarrow> RecordBatch \<Rightarrow> RecordBatch" where
  "batch_slice n b = b\<lparr>ba_columns := map (array_take n) (ba_columns b), ba_rows := n\<rparr>"

text \<open>\<open>RecordBatch::try_new\<close>, and the variant with the number of rows given.\<close>

definition try_new_with_rows :: "Schema \<Rightarrow> ArrowArray list \<Rightarrow> nat option \<Rightarrow> string + RecordBatch" where
  "try_new_with_rows schema arrays rows =
     (if length arrays \<noteq> length schema then Inl ''number of columns must match number of fields in schema''
      else case (case rows of Some n \<Rightarrow> Some n | None \<Rightarrow> map_option array_len (case arrays of [] \<Rightarrow> None | a # _ \<Rightarrow> Some a)) of
             None \<Rightarrow> Inl ''must either specify a row count or at least one column''
           | Some n \<Rightarrow>
               if list_ex (\<lambda>a. array_len a \<noteq> n) arrays then Inl ''all columns in a record batch must have the same length''
               else if map array_type arrays \<noteq> map snd schema then Inl ''column types must match schema types''
               else Inr \<lparr>ba_schema = schema, ba_columns = arrays, ba_rows = n\<rparr>)"

text \<open>The libraries: expressions, the nearest float of a decimal text, and chrono's parsers.\<close>

record CellLib =
  cl_expr :: Lib
  cl_f64 :: "string \<Rightarrow> 64 word option"
  cl_rfc3339_micros :: "string \<Rightarrow> int option"
  cl_naive_micros :: "string \<Rightarrow> string \<Rightarrow> int option"
  cl_days :: "string \<Rightarrow> int option"

text \<open>\<open>s.parse::<iN>()\<close>.\<close>

definition parse_sint :: "nat \<Rightarrow> string \<Rightarrow> int option" where
  "parse_sint bits s =
     (let neg = (case s of c # _ \<Rightarrow> c = CHR ''-'' | [] \<Rightarrow> False);
          ds = (case s of c # r \<Rightarrow> if c = CHR ''+'' \<or> c = CHR ''-'' then r else s | [] \<Rightarrow> s);
          n = (if neg then - int (dec_val ds) else int (dec_val ds))
      in if ds \<noteq> [] \<and> list_all is_ascii_digit ds \<and> - (2 ^ (bits - 1)) \<le> n \<and> n < 2 ^ (bits - 1) then Some n else None)"

text \<open>\<open>f as i64\<close>: towards zero, saturating, and zero for NaN; on the bits of the double.\<close>

definition f64_as_i64 :: "64 word \<Rightarrow> int" where
  "f64_as_i64 w =
     (let e = unat (take_bit 11 (drop_bit 52 w)); m = unat (take_bit 52 w); neg = bit w 63;
          v = (if e = 2047 then 2 ^ 63
               else if e < 1023 then 0
               else if 1086 \<le> e then 2 ^ 63
               else if 1075 \<le> e then (2 ^ 52 + int m) * 2 ^ (e - 1075)
               else (2 ^ 52 + int m) div 2 ^ (1075 - e))
      in if e = 2047 \<and> m \<noteq> 0 then 0 else if neg then max (- v) (- (2 ^ 63)) else min v i64_max)"

definition number_i64 :: "CellLib \<Rightarrow> string \<Rightarrow> int option" where
  "number_i64 lib n = (case parse_sint 64 n of Some i \<Rightarrow> Some i | None \<Rightarrow> map_option f64_as_i64 (cl_f64 lib n))"

definition in_i32 :: "int \<Rightarrow> bool" where
  "in_i32 i \<longleftrightarrow> - (2 ^ 31) \<le> i \<and> i < 2 ^ 31"

fun pull_value :: "Lib \<Rightarrow> json \<Rightarrow> string bmap \<Rightarrow> ResponseColumn \<Rightarrow> json option" where
  "pull_value lib row params col =
     (case rc_expr col of
        Some e \<Rightarrow> eval lib row params e
      | None \<Rightarrow>
          (case rc_source col of
             None \<Rightarrow> get_key row (rc_name col)
           | Some path \<Rightarrow>
               if path = ''param'' then map_option JStr (map_of params (rc_name col))
               else if path = ''$'' then Some row
               else if starts_with ''$'' path
               then walk row (filter (\<lambda>s. s \<noteq> []) (split_on (CHR ''.'') (trim_with [''$.''] path)))
               else get_key row path))"

fun text_cell :: "Lib \<Rightarrow> json \<Rightarrow> string option" where
  "text_cell lib (JStr s) = Some s"
| "text_cell lib (JNum n) = Some n"
| "text_cell lib (JBool b) = Some (if b then ''true'' else ''false'')"
| "text_cell lib JNull = None"
| "text_cell lib other = Some (lib_show lib other)"

fun json_cell :: "Lib \<Rightarrow> json \<Rightarrow> string option" where
  "json_cell lib JNull = None"
| "json_cell lib v = Some (lib_show lib v)"

fun int64_cell :: "CellLib \<Rightarrow> json \<Rightarrow> int option" where
  "int64_cell lib (JNum n) = number_i64 lib n"
| "int64_cell lib (JStr s) = parse_sint 64 s"
| "int64_cell lib _ = None"

fun int32_cell :: "CellLib \<Rightarrow> json \<Rightarrow> int option" where
  "int32_cell lib (JNum n) = Option.bind (number_i64 lib n) (\<lambda>x. if in_i32 x then Some x else None)"
| "int32_cell lib (JStr s) = parse_sint 32 s"
| "int32_cell lib _ = None"

fun float64_cell :: "CellLib \<Rightarrow> json \<Rightarrow> 64 word option" where
  "float64_cell lib (JNum n) = cl_f64 lib n"
| "float64_cell lib (JStr s) = cl_f64 lib (trim s)"
| "float64_cell lib _ = None"

fun bool_cell :: "json \<Rightarrow> bool option" where
  "bool_cell (JBool b) = Some b"
| "bool_cell (JStr s) =
     (let t = to_ascii_lowercase (trim s) in
      if t = ''true'' then Some True else if t = ''false'' then Some False else None)"
| "bool_cell _ = None"

fun first_some :: "('a \<Rightarrow> 'b option) \<Rightarrow> 'a list \<Rightarrow> 'b option" where
  "first_some f [] = None"
| "first_some f (x # xs) = (case f x of Some y \<Rightarrow> Some y | None \<Rightarrow> first_some f xs)"

definition timestamp_formats :: "string list" where
  "timestamp_formats = [''%Y-%m-%dT%H:%M:%S%.f'', ''%Y-%m-%d %H:%M:%S%.f'', ''%Y-%m-%dT%H:%M:%S'', ''%Y-%m-%d %H:%M:%S'']"

definition parse_timestamp_micros :: "CellLib \<Rightarrow> json \<Rightarrow> int option" where
  "parse_timestamp_micros lib v =
     Option.bind (as_str v) (\<lambda>s.
       case cl_rfc3339_micros lib s of
         Some t \<Rightarrow> Some t
       | None \<Rightarrow>
           (case first_some (\<lambda>fmt. cl_naive_micros lib fmt s) timestamp_formats of
              Some t \<Rightarrow> Some t
            | None \<Rightarrow> map_option (\<lambda>d. d * 86400000000) (cl_days lib s)))"

definition parse_date32 :: "CellLib \<Rightarrow> json \<Rightarrow> int option" where
  "parse_date32 lib v =
     Option.bind (as_str v) (\<lambda>s. Option.bind (cl_days lib s) (\<lambda>d. if in_i32 d then Some d else None))"

definition build_column :: "CellLib \<Rightarrow> Schema \<Rightarrow> json list \<Rightarrow> string bmap \<Rightarrow> ResponseColumn \<Rightarrow> ArrowArray" where
  "build_column lib schema rows params col =
     (let vals = map (\<lambda>row. pull_value (cl_expr lib) row params col) rows
      in if eq_ignore_case (rc_type col) ''json'' then AUtf8 (map (\<lambda>v. Option.bind v (json_cell (cl_expr lib))) vals)
         else case map_of schema (rc_name col) of
                Some TUtf8 \<Rightarrow> AUtf8 (map (\<lambda>v. Option.bind v (text_cell (cl_expr lib))) vals)
              | Some TInt64 \<Rightarrow> AInt64 (map (\<lambda>v. Option.bind v (int64_cell lib)) vals)
              | Some TInt32 \<Rightarrow> AInt32 (map (\<lambda>v. Option.bind v (int32_cell lib)) vals)
              | Some TFloat64 \<Rightarrow> AFloat64 (map (\<lambda>v. Option.bind v (float64_cell lib)) vals)
              | Some TBoolean \<Rightarrow> ABoolean (map (\<lambda>v. Option.bind v bool_cell) vals)
              | Some (TTimestamp tz) \<Rightarrow> ATimestamp tz (map (\<lambda>v. Option.bind v (parse_timestamp_micros lib)) vals)
              | Some TDate32 \<Rightarrow> ADate32 (map (\<lambda>v. Option.bind v (parse_date32 lib)) vals)
              | Some TFloat32 \<Rightarrow> AUtf8 (map (\<lambda>_. None) rows)
              | None \<Rightarrow> AUtf8 (map (\<lambda>_. None) rows))"

definition build_batch ::
  "CellLib \<Rightarrow> Schema \<Rightarrow> ResponseColumn list \<Rightarrow> json list \<Rightarrow> string bmap \<Rightarrow> string + RecordBatch" where
  "build_batch lib schema columns rows params =
     try_new_with_rows schema (map (build_column lib schema rows params) columns) None"

definition project_columns :: "nat list \<Rightarrow> 'a list \<Rightarrow> 'a list option" where
  "project_columns idx xs = (if list_all (\<lambda>i. i < length xs) idx then Some (map (\<lambda>i. xs ! i) idx) else None)"

subsection \<open>The scan\<close>

record DeferredHttpScanExec =
  df_source :: HttpSource
  df_spec :: HttpTableSpec
  df_max_pages :: "nat option"
  df_max_rows :: "nat option"
  df_projection :: "nat list option"
  df_filters :: "Expr list"
  df_key_columns :: "string list"

definition deferred_new :: "HttpTableProvider \<Rightarrow> nat list option \<Rightarrow> Expr list \<Rightarrow> string list \<Rightarrow> DeferredHttpScanExec" where
  "deferred_new p projection filters key_columns =
     \<lparr>df_source = hp_source p, df_spec = hp_spec p, df_max_pages = hp_max_pages p, df_max_rows = hp_max_rows p,
      df_projection = projection, df_filters = filters, df_key_columns = key_columns\<rparr>"

datatype ScanError =
    Fetch FetchError
  | RequiredFilter string string
  | ArrowError string
  | IndexPanic

datatype ScanPlan = Batches Schema "RecordBatch list" | Deferred DeferredHttpScanExec

definition arrow_err :: "string + 'a \<Rightarrow> ScanError + 'a" where
  "arrow_err r = (case r of Inl e \<Rightarrow> Inl (ArrowError e) | Inr a \<Rightarrow> Inr a)"

text \<open>
  The loop over the binding sets: \<open>i\<close> counts the sets, \<open>total_rows\<close> the rows so far.  The network may answer the
  requests of every set differently.
\<close>

definition reached :: "nat option \<Rightarrow> nat \<Rightarrow> bool" where
  "reached limit total_rows = (case limit of Some l \<Rightarrow> l \<le> total_rows | None \<Rightarrow> False)"

definition trim_batch :: "nat option \<Rightarrow> nat \<Rightarrow> RecordBatch \<Rightarrow> RecordBatch" where
  "trim_batch limit total_rows b =
     (case limit of Some l \<Rightarrow> if l < total_rows + ba_rows b then batch_slice (l - total_rows) b else b | None \<Rightarrow> b)"

fun scan_sets ::
  "NetLib \<Rightarrow> CellLib \<Rightarrow> (nat \<Rightarrow> nat \<Rightarrow> HttpRequest \<Rightarrow> string + HttpResponse) \<Rightarrow> HttpTableProvider \<Rightarrow> string list bmap \<Rightarrow>
   nat option \<Rightarrow> nat \<Rightarrow> nat \<Rightarrow> string bmap list \<Rightarrow> (ScanError + RecordBatch list) \<times> HttpRequest list" where
  "scan_sets lib cl send p explode limit i total_rows [] = (Inr [], [])"
| "scan_sets lib cl send p explode limit i total_rows (b # binds) =
     (if reached limit total_rows then (Inr [], [])
      else case fetch_rows lib (send i) p b explode (map_option (\<lambda>l. l - total_rows) limit) of
        (Inl e, reqs) \<Rightarrow> (Inl (Fetch e), reqs)
      | (Inr rows, reqs) \<Rightarrow>
          if (case hp_max_rows p of Some mx \<Rightarrow> mx < sat 64 (total_rows + length rows) | None \<Rightarrow> False)
          then (Inl (Fetch (TooManyRows (ts_name (hp_spec p)) (the (hp_max_rows p)))), reqs)
          else if rows = []
          then (case scan_sets lib cl send p explode limit (Suc i) total_rows binds of (r, reqs') \<Rightarrow> (r, reqs @ reqs'))
          else
            (case arrow_err (build_batch cl (hp_schema p) (hp_out_columns p) rows b) of
               Inl e \<Rightarrow> (Inl e, reqs)
             | Inr built \<Rightarrow>
                 let batch = trim_batch limit total_rows built in
                 (case scan_sets lib cl send p explode limit (Suc i) (total_rows + ba_rows batch) binds of
                    (r, reqs') \<Rightarrow>
                      (rbind r (\<lambda>bs. Inr (if 0 < ba_rows batch then batch # bs else bs)), reqs @ reqs'))))"

definition project_batch :: "nat list option \<Rightarrow> Schema \<Rightarrow> RecordBatch \<Rightarrow> ScanError + RecordBatch" where
  "project_batch projection schema b =
     (case projection of
        None \<Rightarrow> Inr b
      | Some idx \<Rightarrow>
          (case project_columns idx (ba_columns b) of
             None \<Rightarrow> Inl IndexPanic
           | Some cols \<Rightarrow> arrow_err (try_new_with_rows schema cols (Some (ba_rows b)))))"

definition projected_schema :: "nat list option \<Rightarrow> Schema \<Rightarrow> ScanError + Schema" where
  "projected_schema projection schema =
     (case projection of
        None \<Rightarrow> Inr schema
      | Some idx \<Rightarrow> ok_or IndexPanic (project_columns idx schema))"

definition scan_bound ::
  "NetLib \<Rightarrow> CellLib \<Rightarrow> (nat \<Rightarrow> nat \<Rightarrow> HttpRequest \<Rightarrow> string + HttpResponse) \<Rightarrow> int \<Rightarrow> HttpTableProvider \<Rightarrow>
   nat list option \<Rightarrow> Expr list \<Rightarrow> nat option \<Rightarrow> bool \<Rightarrow> (ScanError + ScanPlan) \<times> HttpRequest list" where
  "scan_bound lib cl send now_epoch p projection filters limit allow_defer =
     (let b = bind_filters (hp_spec p) now_epoch filters in
      case unbound_required (hp_spec p) b of
        first # rest \<Rightarrow>
          (if allow_defer
           then (case projected_schema projection (hp_schema p) of
                   Inl e \<Rightarrow> Inl e
                 | Inr _ \<Rightarrow> Inr (Deferred (deferred_new p projection filters (first # rest))))
           else Inl (RequiredFilter (ts_name (hp_spec p)) first), [])
      | [] \<Rightarrow>
          (case scan_sets lib cl send p (bi_explode b) limit 0 0 (expand_fanout (bi_params b) (bi_fanout b)) of
             (r, reqs) \<Rightarrow>
               (rbind r (\<lambda>bs.
                rbind (if bs = [] then rbind (arrow_err (build_batch cl (hp_schema p) (hp_out_columns p) [] (bi_params b)))
                                         (\<lambda>e. Inr [e]) else Inr bs) (\<lambda>out.
                rbind (projected_schema projection (hp_schema p)) (\<lambda>schema.
                rbind (rmap (project_batch projection schema) out) (\<lambda>projected.
                Inr (Batches schema projected))))), reqs)))"

definition scan_http where
  "scan_http lib cl send now_epoch p projection filters limit = scan_bound lib cl send now_epoch p projection filters limit True"

definition scan_params ::
  "NetLib \<Rightarrow> CellLib \<Rightarrow> (nat \<Rightarrow> HttpRequest \<Rightarrow> string + HttpResponse) \<Rightarrow> HttpTableProvider \<Rightarrow> string bmap \<Rightarrow> nat option \<Rightarrow>
   (ScanError + RecordBatch) \<times> HttpRequest list" where
  "scan_params lib cl send p params limit =
     (case fetch_rows lib send p params [] limit of
        (Inl e, reqs) \<Rightarrow> (Inl (Fetch e), reqs)
      | (Inr rows, reqs) \<Rightarrow> (arrow_err (build_batch cl (hp_schema p) (hp_out_columns p) rows params), reqs))"

definition scan_with_filters where
  "scan_with_filters lib cl send now_epoch d extra_filters =
     scan_bound lib cl send now_epoch (with_safety (df_source d) (df_spec d) (df_max_pages d) (df_max_rows d))
       (df_projection d) (df_filters d @ extra_filters) None False"

subsection \<open>What pushed-down filters select\<close>

text \<open>
  A row is read through the texts of its parameter columns.  \<open>holds\<close> is the meaning of the filters that select
  a parameter by its value.
\<close>

fun holds :: "(string \<Rightarrow> string) \<Rightarrow> Expr \<Rightarrow> bool" where
  "holds env (EBinary l OpOr r) \<longleftrightarrow> holds env l \<or> holds env r"
| "holds env (EBinary (EColumn c) OpEq (ELiteral s)) \<longleftrightarrow> scalar_to_string s = Some (env c)"
| "holds env (EBinary (ELiteral s) OpEq (EColumn c)) \<longleftrightarrow> scalar_to_string s = Some (env c)"
| "holds env (EInList (EColumn c) items negated) \<longleftrightarrow> list_ex (\<lambda>i. literal_string i = Some (env c)) items \<noteq> negated"
| "holds env _ \<longleftrightarrow> False"

definition filter_column :: "Expr \<Rightarrow> string option" where
  "filter_column f =
     (case extract_in_list f of
        Some (c, _) \<Rightarrow> Some c
      | None \<Rightarrow> (case extract_cmp f of Some (c, op, _) \<Rightarrow> if op = ''='' then Some c else None | None \<Rightarrow> None))"

text \<open>The rows a request asks for, as far as the parameter \<open>c\<close> is concerned.\<close>

definition selects :: "string list bmap \<Rightarrow> string bmap \<Rightarrow> (string \<Rightarrow> string) \<Rightarrow> string \<Rightarrow> bool" where
  "selects explode s env c \<longleftrightarrow>
     (\<forall>v. map_of s c = Some v \<longrightarrow> env c = v) \<and> (\<forall>vals. map_of explode c = Some vals \<longrightarrow> env c \<in> set vals)"

lemma collect_or_equalities_holds:
  "collect_or_equalities e (col, vals) = Some (col', vals') \<Longrightarrow>
   \<exists>c new. col' = Some c \<and> vals' = vals @ new \<and> (col = None \<or> col = Some c) \<and> (\<forall>env. holds env e \<longleftrightarrow> env c \<in> set new)"
proof (induction e "(col, vals)" arbitrary: col vals col' vals' rule: collect_or_equalities.induct)
  case (1 left right)
  from "1.prems" obtain col1 vals1 where l: "collect_or_equalities left (col, vals) = Some (col1, vals1)"
    and r: "collect_or_equalities right (col1, vals1) = Some (col', vals')" by (auto simp: bind_eq_Some_conv)
  from "1.hyps"(1) [OF l] "1.hyps"(2) [OF l r] show ?case by fastforce
qed (auto simp: collect_eq_def split: if_splits)

lemma extract_in_list_holds:
  assumes "extract_in_list f = Some (c, vals)"
  shows "holds env f \<longleftrightarrow> env c \<in> set vals"
proof (cases "\<exists>l op r. f = EBinary l op r")
  case True
  with assms collect_or_equalities_holds show ?thesis
    by (fastforce simp: bind_eq_Some_conv split: if_splits)
next
  case False
  with assms show ?thesis
    by (cases f rule: extract_in_list.cases)
      (auto simp: list_ex_iff image_iff split: if_splits, force+)
qed

lemma extract_cmp_holds: "extract_cmp f = Some (c, ''='', v) \<Longrightarrow> holds env f \<longleftrightarrow> env c = v"
  by (cases f rule: extract_cmp.cases)
    (auto simp: bind_eq_Some_conv elim!: cmp_token.elims split: if_splits)

lemma in_list_no_cmp: "extract_in_list f = Some x \<Longrightarrow> extract_cmp f = None"
  by (cases f rule: extract_cmp.cases)
    (auto simp: bind_eq_Some_conv collect_eq_def map_option_case elim!: collect_or_equalities.elims
      split: if_splits option.splits)

text \<open>How each loop binds the parameters, for filters on different columns.\<close>

lemma bind_cmp_eq:
  assumes "extract_cmp f = Some (c, ''='', v)" "find_param spec c \<noteq> None"
  shows "bind_cmp spec f m = bt_insert c v m"
  using assms by (auto simp: bind_cmp_def)

lemma bind_cmp_in: "extract_in_list f = Some x \<Longrightarrow> bind_cmp spec f m = m"
  by (simp add: bind_cmp_def in_list_no_cmp)

definition pushed :: "HttpTableSpec \<Rightarrow> Expr \<Rightarrow> bool" where
  "pushed spec f \<longleftrightarrow> can_push_down spec f \<and> filter_column f \<noteq> None"

lemma pushed_cases:
  assumes "pushed spec f"
  obtains (eq) c v where "extract_cmp f = Some (c, ''='', v)" "extract_in_list f = None" "filter_column f = Some c"
      "find_param spec c \<noteq> None"
    | (in_list) c vals p where "extract_in_list f = Some (c, vals)" "extract_cmp f = None" "filter_column f = Some c"
      "p \<in> set (ts_params spec)" "ps_name p = c" "ps_explode p \<or> ps_required p \<or> is_path_param spec c"
proof (cases "extract_in_list f")
  case None
  with assms eq show ?thesis
    by (auto simp: pushed_def can_push_down_def filter_column_def split: option.splits if_splits)
next
  case (Some x)
  with assms in_list in_list_no_cmp [OF Some] show ?thesis
    by (cases x) (auto simp: pushed_def can_push_down_def filter_column_def list_ex_iff)
qed

lemma find_by_distinct: "distinct (map g xs) \<Longrightarrow> x \<in> set xs \<Longrightarrow> find (\<lambda>y. g y = g x) xs = Some x"
  by (induction xs) (auto simp: image_iff)

lemma find_param_unique:
  "distinct (map ps_name (ts_params spec)) \<Longrightarrow> p \<in> set (ts_params spec) \<Longrightarrow> find_param spec (ps_name p) = Some p"
  unfolding find_param_def by (rule find_by_distinct)

lemma fold_bind_cmp_other:
  assumes "\<forall>f\<in>set fs. pushed spec f" "\<forall>f\<in>set fs. filter_column f \<noteq> Some k"
  shows "map_of (fold (bind_cmp spec) fs m) k = map_of m k"
  using assms
proof (induction fs arbitrary: m)
  case (Cons f fs)
  then have "pushed spec f" "filter_column f \<noteq> Some k" by simp_all
  then have "map_of (bind_cmp spec f m) k = map_of m k"
    by (cases rule: pushed_cases) (auto simp: bind_cmp_eq bind_cmp_in)
  with Cons show ?case by simp
qed simp

lemma fold_bind_cmp:
  assumes "\<forall>f\<in>set fs. pushed spec f" "distinct (map filter_column fs)" "f \<in> set fs"
    "filter_column f = Some c"
  shows "map_of (fold (bind_cmp spec) fs m) c =
    (case extract_cmp f of Some (_, _, v) \<Rightarrow> Some v | None \<Rightarrow> map_of m c)"
  using assms
proof (induction fs arbitrary: m)
  case (Cons g fs)
  show ?case
  proof (cases "f = g")
    case True
    with Cons.prems have "\<forall>h\<in>set fs. filter_column h \<noteq> Some c" by (auto simp: image_iff)
    then have "map_of (fold (bind_cmp spec) fs (bind_cmp spec f m)) c = map_of (bind_cmp spec f m) c"
      using Cons.prems(1) by (intro fold_bind_cmp_other) auto
    moreover from Cons.prems(1) True have "pushed spec f" by simp
    then have "map_of (bind_cmp spec f m) c = (case extract_cmp f of Some (_, _, v) \<Rightarrow> Some v | None \<Rightarrow> map_of m c)"
      using Cons.prems(4) by (cases rule: pushed_cases) (auto simp: bind_cmp_eq bind_cmp_in)
    ultimately show ?thesis using True by simp
  next
    case False
    with Cons.prems have g: "filter_column g \<noteq> Some c" "pushed spec g" by (auto simp: image_iff)
    from g(2) have "map_of (bind_cmp spec g m) c = map_of m c"
      using g(1) by (cases rule: pushed_cases) (auto simp: bind_cmp_eq bind_cmp_in)
    with Cons False show ?thesis by (auto split: option.splits)
  qed
qed simp

definition explodes :: "HttpTableSpec \<Rightarrow> string \<Rightarrow> bool" where
  "explodes spec c = (case find_param spec c of Some p \<Rightarrow> ps_explode p \<and> \<not> is_path_param spec c | None \<Rightarrow> False)"

definition fanned :: "HttpTableSpec \<Rightarrow> Expr \<Rightarrow> (string \<times> string list) option" where
  "fanned spec f = (case extract_in_list f of Some (c, vals) \<Rightarrow> if explodes spec c then None else Some (c, vals) | None \<Rightarrow> None)"

lemma fanned_in_list: "fanned spec f = Some (c, vals) \<Longrightarrow> extract_in_list f = Some (c, vals)"
  by (auto simp: fanned_def split: option.splits if_splits)

lemma bind_in_pushed:
  assumes "pushed spec f" "distinct (map ps_name (ts_params spec))"
  shows "bind_in spec f (ex, fo) =
    (case extract_in_list f of
       Some (c, vals) \<Rightarrow> if explodes spec c then (bt_insert c vals ex, fo) else (ex, fo @ [(c, vals)])
     | None \<Rightarrow> (ex, fo))"
  using assms(1)
proof (cases rule: pushed_cases)
  case (in_list c vals p)
  with find_param_unique [OF assms(2) in_list(4)] show ?thesis by (auto simp: bind_in_def explodes_def)
qed (simp add: bind_in_def)

lemma fold_bind_in_fanout:
  assumes "\<forall>f\<in>set fs. pushed spec f" "distinct (map ps_name (ts_params spec))"
  shows "snd (fold (bind_in spec) fs (ex, fo)) = fo @ List.map_filter (fanned spec) fs"
  using assms
proof (induction fs arbitrary: ex fo)
  case (Cons f fs)
  then have IH: "\<And>ex fo. snd (fold (bind_in spec) fs (ex, fo)) = fo @ List.map_filter (fanned spec) fs" by simp
  show ?case using Cons.prems
    by (auto simp: bind_in_pushed IH fanned_def [of spec f] map_filter_simps split: option.splits)
qed (simp add: map_filter_simps)

lemma fold_bind_in_other:
  assumes "\<forall>f\<in>set fs. pushed spec f" "distinct (map ps_name (ts_params spec))"
    "\<forall>f\<in>set fs. filter_column f \<noteq> Some k"
  shows "map_of (fst (fold (bind_in spec) fs (ex, fo))) k = map_of ex k"
  using assms
proof (induction fs arbitrary: ex fo)
  case (Cons f fs)
  then have IH: "\<And>ex fo. map_of (fst (fold (bind_in spec) fs (ex, fo))) k = map_of ex k" by simp
  from Cons.prems show ?case
    by (auto simp: bind_in_pushed IH filter_column_def split: option.splits)
qed simp

lemma fold_bind_in_explode:
  assumes "\<forall>f\<in>set fs. pushed spec f" "distinct (map ps_name (ts_params spec))" "distinct (map filter_column fs)"
    "f \<in> set fs" "filter_column f = Some c"
  shows "map_of (fst (fold (bind_in spec) fs (ex, fo))) c =
    (case extract_in_list f of Some (_, vals) \<Rightarrow> if explodes spec c then Some vals else map_of ex c | None \<Rightarrow> map_of ex c)"
  using assms
proof (induction fs arbitrary: ex fo)
  case (Cons g fs)
  show ?case
  proof (cases "f = g")
    case True
    with Cons.prems have "\<forall>h\<in>set fs. filter_column h \<noteq> Some c" by (auto simp: image_iff)
    note rest = fold_bind_in_other [OF _ Cons.prems(2) this]
    with Cons.prems True show ?thesis
      by (auto simp: bind_in_pushed filter_column_def split: option.splits)
  next
    case False
    then have f: "f \<in> set fs" using Cons.prems by simp
    have g: "filter_column g \<noteq> Some c" using False Cons.prems by (auto simp: image_iff)
    have IH: "\<And>ex fo. map_of (fst (fold (bind_in spec) fs (ex, fo))) c =
      (case extract_in_list f of Some (_, vals) \<Rightarrow> if explodes spec c then Some vals else map_of ex c | None \<Rightarrow> map_of ex c)"
      using Cons f by simp
    from Cons.prems g show ?thesis
      by (auto simp: bind_in_pushed IH filter_column_def split: option.splits)
  qed
qed simp

lemma fold_bind_default_keeps:
  assumes "map_of m c \<noteq> None \<or> bound_elsewhere c ex fo"
  shows "map_of (fold (bind_default ex fo) ps m) c = map_of m c"
  using assms
proof (induction ps arbitrary: m)
  case (Cons p ps)
  then have "map_of (bind_default ex fo p m) c = map_of m c" by (auto simp: bind_default_def split: option.splits)
  with Cons show ?case by simp
qed simp

lemma derived_params_unbound:
  "(k, v) \<in> set (derived_params spec ex fo now m) \<Longrightarrow> map_of m k = None \<and> \<not> bound_elsewhere k ex fo"
  by (auto simp: derived_params_def map_filter_def bind_eq_Some_conv split: if_splits)

lemma fold_insert_other: "k \<notin> fst ` set kvs \<Longrightarrow> map_of (fold (\<lambda>(k, v). bt_insert k v) kvs m) k = map_of m k"
  by (induction kvs arbitrary: m) auto

lemma bind_filters_keeps:
  assumes "(ex, fo) = fold (bind_in spec) fs ([], [])" "m = fold (bind_cmp spec) fs []"
    and "map_of m c \<noteq> None \<or> bound_elsewhere c ex fo"
  shows "map_of (bi_params (bind_filters spec now fs)) c = map_of m c"
proof -
  let ?m1 = "fold (bind_default ex fo) (ts_params spec) m"
  have m1: "map_of ?m1 c = map_of m c" using assms(3) by (rule fold_bind_default_keeps)
  then have "c \<notin> fst ` set (derived_params spec ex fo now ?m1)"
    using assms(3) by (auto dest: derived_params_unbound)
  with m1 show ?thesis
    unfolding bind_filters_def assms(1) [symmetric] assms(2) [symmetric] by (simp add: fold_insert_other Let_def)
qed

text \<open>The fan-out makes one binding set per combination of values.\<close>

lemma expand_fanout_snoc:
  "expand_fanout base (fo @ [(n, vals)]) = concat (map (\<lambda>s. map (\<lambda>v. bt_insert n v s) vals) (expand_fanout base fo))"
  by (simp add: expand_fanout_def)

lemma expand_fanout_Nil [simp]: "expand_fanout base [] = [base]"
  by (simp add: expand_fanout_def)

lemma expand_fanout_length: "length (expand_fanout base fo) = prod_list (map (\<lambda>(_, vals). length vals) fo)"
proof (induction fo rule: rev_induct)
  case (snoc x fo)
  then show ?case
    by (cases x) (simp add: expand_fanout_snoc length_concat comp_def sum_list_triv mult.commute)
qed simp

lemma expand_fanout_sound:
  assumes "s \<in> set (expand_fanout base fo)" "distinct (map fst fo)"
  shows "(\<forall>(n, vals)\<in>set fo. \<exists>v\<in>set vals. map_of s n = Some v) \<and> (\<forall>k. k \<notin> fst ` set fo \<longrightarrow> map_of s k = map_of base k)"
  using assms
proof (induction fo arbitrary: s rule: rev_induct)
  case (snoc x fo)
  obtain n vals where x: "x = (n, vals)" by fastforce
  from snoc.prems x obtain s' v where s': "s' \<in> set (expand_fanout base fo)" "v \<in> set vals" "s = bt_insert n v s'"
    by (auto simp: expand_fanout_snoc)
  have "n \<notin> fst ` set fo" "distinct (map fst fo)" using snoc.prems(2) x by auto
  with snoc.IH [OF s'(1)] s' x show ?case by force
qed simp

lemma expand_fanout_complete:
  assumes "\<forall>(n, vals)\<in>set fo. env n \<in> set vals"
  shows "\<exists>s\<in>set (expand_fanout base fo). (\<forall>n\<in>fst ` set fo. map_of s n = Some (env n)) \<and>
    (\<forall>k. k \<notin> fst ` set fo \<longrightarrow> map_of s k = map_of base k)"
  using assms
proof (induction fo rule: rev_induct)
  case (snoc x fo)
  obtain n vals where x: "x = (n, vals)" by fastforce
  from snoc obtain s where s: "s \<in> set (expand_fanout base fo)" "\<forall>n\<in>fst ` set fo. map_of s n = Some (env n)"
    "\<forall>k. k \<notin> fst ` set fo \<longrightarrow> map_of s k = map_of base k" by auto
  have "bt_insert n (env n) s \<in> set (expand_fanout base (fo @ [x]))"
    using snoc.prems s(1) x by (auto simp: expand_fanout_snoc)
  with s(2,3) x show ?case by (intro bexI [of _ "bt_insert n (env n) s"]) auto
qed simp

lemma distinct_fanned:
  assumes "distinct (map filter_column fs)"
  shows "distinct (map fst (List.map_filter (fanned spec) fs))"
proof -
  have col: "filter_column f = Some (fst x)" if "fanned spec f = Some x" for f x
    using that by (auto simp: fanned_def filter_column_def split: option.splits if_splits)
  have mem: "\<exists>f\<in>set gs. filter_column f = Some k" if "k \<in> fst ` set (List.map_filter (fanned spec) gs)" for k gs
    using that by (induction gs) (auto simp: map_filter_simps dest: col split: option.splits)
  show ?thesis using assms
  proof (induction fs)
    case (Cons f fs)
    show ?case
    proof (cases "fanned spec f")
      case (Some x)
      have "fst x \<notin> fst ` set (List.map_filter (fanned spec) fs)"
        using Cons.prems col [OF Some] mem [of "fst x" fs]
        by (metis distinct.simps(2) image_eqI list.set_map list.simps(9))
      with Cons Some show ?thesis by (auto simp: map_filter_simps)
    qed (use Cons in \<open>simp add: map_filter_simps\<close>)
  qed (simp add: map_filter_simps)
qed

lemma set_fanned: "set (List.map_filter (fanned spec) fs) = {x. \<exists>f\<in>set fs. fanned spec f = Some x}"
  by (induction fs) (auto simp: map_filter_simps split: option.splits)

lemma bind_filters_column:
  fixes now :: int
  assumes push: "\<forall>f\<in>set fs. pushed spec f" and names: "distinct (map ps_name (ts_params spec))"
    and cols: "distinct (map filter_column fs)" and f: "f \<in> set fs"
  defines "b \<equiv> bind_filters spec now fs"
  obtains (direct) c v where "filter_column f = Some c" "map_of (bi_params b) c = Some v"
      "map_of (bi_explode b) c = None" "c \<notin> fst ` set (bi_fanout b)" "\<And>env. holds env f \<longleftrightarrow> env c = v"
    | (repeated) c vals where "filter_column f = Some c" "map_of (bi_params b) c = None"
      "map_of (bi_explode b) c = Some vals" "c \<notin> fst ` set (bi_fanout b)" "\<And>env. holds env f \<longleftrightarrow> env c \<in> set vals"
    | (fan) c vals where "filter_column f = Some c" "map_of (bi_explode b) c = None" "(c, vals) \<in> set (bi_fanout b)"
      "\<And>env. holds env f \<longleftrightarrow> env c \<in> set vals"
proof -
  obtain ex fo where io: "(ex, fo) = fold (bind_in spec) fs ([], [])" by (metis surj_pair)
  define m where "m = fold (bind_cmp spec) fs []"
  have b: "bi_explode b = ex" "bi_fanout b = fo"
    unfolding b_def bind_filters_def io [symmetric] by (simp_all add: Let_def)
  have fo: "set fo = {x. \<exists>g\<in>set fs. fanned spec g = Some x}"
    using fold_bind_in_fanout [OF push names, of "[]" "[]"] unfolding io [symmetric] by (simp add: set_fanned)
  have only: "g = f" if "g \<in> set fs" "filter_column g = filter_column f" for g
    using that f cols by (metis distinct_map inj_onD)
  have fancol: "fanned spec g = Some (c, vals) \<Longrightarrow> filter_column g = Some c" for g c vals
    by (auto simp: fanned_def filter_column_def split: option.splits if_splits)
  note ex = fold_bind_in_explode [OF push names cols f, of _ "[]" "[]", folded io, simplified]
  note ms = fold_bind_cmp [OF push cols f, of _ "[]", folded m_def]
  note keep = bind_filters_keeps [OF io m_def, of _ now, folded b_def]
  from push f have "pushed spec f" by blast
  then show ?thesis
  proof (cases rule: pushed_cases)
    case (eq c v)
    have "c \<notin> fst ` set fo" using fo only fancol eq by (force simp: fanned_def)
    with eq ex ms keep b extract_cmp_holds [OF eq(1)] show ?thesis by (intro direct [of c v]) auto
  next
    case (in_list c vals p)
    show ?thesis
    proof (cases "explodes spec c")
      case True
      then have "c \<notin> fst ` set fo" using fo only fancol in_list by (force simp: fanned_def)
      with True in_list ex ms keep b extract_in_list_holds [OF in_list(1)] show ?thesis
        by (intro repeated [of c vals]) (auto simp: bound_elsewhere_def)
    next
      case False
      with in_list have "fanned spec f = Some (c, vals)" by (simp add: fanned_def)
      with f have "(c, vals) \<in> set fo" unfolding fo by blast
      with False in_list ex b extract_in_list_holds [OF in_list(1)] show ?thesis
        by (intro fan [of c vals]) auto
    qed
  qed
qed

text \<open>
  C19. Pushed-down filters are exact: for filters that pick parameters by value (\<open>=\<close>, \<open>IN\<close>, disjunctions of
  equalities), each on a parameter of its own, a row satisfies all filters exactly when one of the requests the
  scan sends asks for it, whether a filter becomes a binding, a repeated query pair or a fan-out of requests.
\<close>

theorem pushdown_exact:
  fixes now :: int
  assumes "\<forall>f\<in>set fs. can_push_down spec f \<and> filter_column f \<noteq> None" "distinct (map filter_column fs)"
    and "distinct (map ps_name (ts_params spec))"
  defines "b \<equiv> bind_filters spec now fs"
  shows "(\<forall>f\<in>set fs. holds env f) \<longleftrightarrow>
    (\<exists>s\<in>set (expand_fanout (bi_params b) (bi_fanout b)). \<forall>f\<in>set fs. selects (bi_explode b) s env (the (filter_column f)))"
    (is "?all \<longleftrightarrow> ?some")
proof
  have push: "\<forall>f\<in>set fs. pushed spec f" using assms(1) by (simp add: pushed_def)
  note column = bind_filters_column [OF push assms(3,2), of _ now, folded b_def]
  have fo: "bi_fanout b = List.map_filter (fanned spec) fs"
    using fold_bind_in_fanout [OF push assms(3), of "[]" "[]"]
    by (auto simp: b_def bind_filters_def Let_def split: prod.splits)
  have dist: "distinct (map fst (bi_fanout b))" unfolding fo by (rule distinct_fanned [OF assms(2)])
  show ?some if ?all
  proof -
    have "\<forall>(n, vals)\<in>set (bi_fanout b). env n \<in> set vals"
      using that by (auto simp: fo set_fanned dest!: fanned_in_list simp: extract_in_list_holds)
    from expand_fanout_complete [OF this, of "bi_params b"] obtain s where
      s: "s \<in> set (expand_fanout (bi_params b) (bi_fanout b))"
      "\<forall>n\<in>fst ` set (bi_fanout b). map_of s n = Some (env n)"
      "\<forall>k. k \<notin> fst ` set (bi_fanout b) \<longrightarrow> map_of s k = map_of (bi_params b) k" by blast
    have "selects (bi_explode b) s env (the (filter_column f))" if f: "f \<in> set fs" for f
      using f \<open>?all\<close> s(2,3) by (cases rule: column) (auto simp: selects_def image_iff)
    with s(1) show ?thesis by blast
  qed
  show ?all if ?some
  proof
    fix f assume f: "f \<in> set fs"
    from that f obtain s where s: "s \<in> set (expand_fanout (bi_params b) (bi_fanout b))"
      "selects (bi_explode b) s env (the (filter_column f))" by blast
    from f show "holds env f"
      using expand_fanout_sound [OF s(1) dist] s(2) by (cases rule: column) (fastforce simp: selects_def)+
  qed
qed

definition str_param :: "string \<Rightarrow> bool \<Rightarrow> bool \<Rightarrow> ParamSpec" where
  "str_param name required explode =
     \<lparr>ps_name = name, ps_type = ''varchar'', ps_required = required, ps_default = None, ps_accepts = [], ps_emit = [],
      ps_explode = explode, ps_derive = None, ps_filterable = True\<rparr>"

definition issues_spec :: HttpTableSpec where
  "issues_spec =
     \<lparr>ts_name = ''issues'', ts_endpoint = ''/repos/{owner}'', ts_method = ''GET'', ts_body = None, ts_requests = [],
      ts_params = [str_param ''owner'' True False, str_param ''state'' False True], ts_headers = [], ts_pagination = None,
      ts_response = \<lparr>rs_path = ''$'', rs_schema = [], rs_allow_404_empty = False, rs_error = None, rs_reshape = None\<rparr>\<rparr>"

definition text_lit :: "string \<Rightarrow> Expr" where
  "text_lit s = ELiteral (SUtf8 (Some s))"

definition issues_filters :: "Expr list" where
  "issues_filters =
     [EInList (EColumn ''owner'') [text_lit ''a'', text_lit ''b''] False,
      EBinary (EBinary (EColumn ''state'') OpEq (text_lit ''open'')) OpOr (EBinary (text_lit ''new'') OpEq (EColumn ''state''))]"

lemmas issues_defs = issues_filters_def issues_spec_def str_param_def text_lit_def

theorem pushdown_exact_witness:
  "\<exists>s\<in>set (expand_fanout (bi_params (bind_filters issues_spec 0 issues_filters))
       (bi_fanout (bind_filters issues_spec 0 issues_filters))).
     \<forall>f\<in>set issues_filters. selects (bi_explode (bind_filters issues_spec 0 issues_filters)) s
       (\<lambda>c. if c = ''owner'' then ''b'' else ''new'') (the (filter_column f))"
proof -
  let ?env = "\<lambda>c. if c = ''owner'' then ''b'' else ''new''"
  have "\<forall>f\<in>set issues_filters. can_push_down issues_spec f \<and> filter_column f \<noteq> None"
    by (simp add: issues_defs can_push_down_def filter_column_def collect_eq_def)
  moreover have "distinct (map filter_column issues_filters)"
    by (simp add: issues_defs filter_column_def collect_eq_def)
  moreover have "distinct (map ps_name (ts_params issues_spec))" by (simp add: issues_defs)
  moreover have "\<forall>f\<in>set issues_filters. holds ?env f" by (simp add: issues_defs)
  ultimately show ?thesis using pushdown_exact [of issues_filters issues_spec ?env 0] by blast
qed

text \<open>
  Two equalities on one parameter are both reported as exactly pushed down, yet the later one overwrites the
  earlier: the scan of \<open>x = v AND x = w\<close> sends the requests of \<open>x = w\<close> and returns its rows unfiltered.
\<close>

lemma later_equality_wins:
  assumes "find_param (hp_spec p) x \<noteq> None"
    and "scalar_to_string v \<noteq> None" "scalar_to_string w \<noteq> None"
  shows "supports_filters_pushdown (hp_spec p)
      [EBinary (EColumn x) OpEq (ELiteral v), EBinary (EColumn x) OpEq (ELiteral w)] = [PushExact, PushExact] \<and>
    scan_bound lib cl send now p proj [EBinary (EColumn x) OpEq (ELiteral v), EBinary (EColumn x) OpEq (ELiteral w)] limit False =
    scan_bound lib cl send now p proj [EBinary (EColumn x) OpEq (ELiteral w)] limit False"
proof -
  let ?f = "\<lambda>v. EBinary (EColumn x) OpEq (ELiteral v)"
  have ni: "extract_in_list (?f u) = None" for u
    by (cases "scalar_to_string u") (simp_all add: collect_eq_def)
  have bf: "bind_filters (hp_spec p) now [?f v, ?f w] = bind_filters (hp_spec p) now [?f w]"
    using assms by (auto simp: bind_filters_def bind_cmp_def bind_in_def ni simp del: extract_in_list.simps)
  then have "scan_bound lib cl send now p proj [?f v, ?f w] limit False = scan_bound lib cl send now p proj [?f w] limit False"
    by (simp only: scan_bound_def if_False)
  with assms ni show ?thesis
    by (auto simp: supports_filters_pushdown_def can_push_down_def simp del: extract_in_list.simps)
qed

subsection \<open>Bounds of a scan\<close>

lemma build_column_length: "array_len (build_column lib schema rows params col) = length rows"
  by (auto simp: build_column_def Let_def split: option.splits DataType.splits)

lemma try_new_rows:
  assumes "try_new_with_rows schema arrays n = Inr b"
  shows "ba_schema b = schema" "map array_type (ba_columns b) = map snd schema" "ba_columns b = arrays"
    "\<forall>a\<in>set arrays. array_len a = ba_rows b" "\<And>k. n = Some k \<Longrightarrow> ba_rows b = k" "n = None \<Longrightarrow> arrays \<noteq> []"
  using assms by (auto simp: try_new_with_rows_def list_ex_iff split: if_splits option.splits list.splits)

lemma build_batch_rows:
  assumes "build_batch lib schema cols rows params = Inr b"
  shows "ba_rows b = length rows"
proof -
  note ok = try_new_rows [OF assms [unfolded build_batch_def]]
  from ok(4,6) show ?thesis by (cases cols) (auto simp: build_column_length)
qed

lemma array_type_no_float32: "array_type a \<noteq> TFloat32"
  by (cases a) auto

lemma build_batch_float32:
  assumes "TFloat32 \<in> snd ` set schema"
  shows "build_batch lib schema cols rows params \<noteq> Inr b"
proof
  assume "build_batch lib schema cols rows params = Inr b"
  then have "set (map snd schema) = array_type ` set (ba_columns b)"
    unfolding build_batch_def by (metis list.set_map try_new_rows(2))
  with assms array_type_no_float32 show False by (metis (no_types, lifting) imageE list.set_map)
qed

lemma arrow_err_Inr [res_simps]: "arrow_err r = Inr a \<longleftrightarrow> r = Inr a"
  by (cases r) (simp_all add: arrow_err_def)

lemma scan_sets_Cons:
  assumes "scan_sets lib cl send p explode limit i n (b # binds) = (Inr bs, reqs)"
  obtains (stop) "reached limit n" "bs = []"
    | (empty) reqs' where "scan_sets lib cl send p explode limit (Suc i) n binds = (Inr bs, reqs')"
    | (batch) rows built bs' reqs1 reqs2 where
        "fetch_rows lib (send i) p b explode (map_option (\<lambda>l. l - n) limit) = (Inr rows, reqs1)"
        "\<not> (case hp_max_rows p of Some mx \<Rightarrow> mx < sat 64 (n + length rows) | None \<Rightarrow> False)" "\<not> reached limit n"
        "build_batch cl (hp_schema p) (hp_out_columns p) rows b = Inr built"
        "scan_sets lib cl send p explode limit (Suc i) (n + ba_rows (trim_batch limit n built)) binds = (Inr bs', reqs2)"
        "bs = (if 0 < ba_rows (trim_batch limit n built) then trim_batch limit n built # bs' else bs')"
  using assms
  by (auto simp: Let_def res_simps split: if_splits prod.splits sum.splits dest!: arrow_err_Inr [THEN iffD1] intro: that)

lemma scan_sets_float32:
  assumes "TFloat32 \<in> snd ` set (hp_schema p)" "scan_sets lib cl send p explode limit i n binds = (Inr bs, reqs)"
  shows "bs = []"
  using assms(2)
proof (induction binds arbitrary: i n bs reqs)
  case (Cons b binds)
  from Cons.prems show ?case
    by (cases rule: scan_sets_Cons) (use Cons.IH build_batch_float32 [OF assms(1)] in auto)
qed simp

text \<open>
  A table with a \<open>float\<close> column cannot be scanned: the builder of batches has no branch for 32-bit floats and
  makes a text array, which Arrow rejects.  No scan of such a table, with any filters and any server, returns
  batches.
\<close>

lemma float_column_never_scans:
  assumes "c \<in> set (effective_columns spec)" "to_ascii_lowercase (rc_type c) \<in> {''float'', ''float32''}"
  shows "fst (scan_bound lib cl send now (with_safety src spec mp mr) proj filters limit defer) \<noteq> Inr (Batches schema bs)"
proof -
  have "parse_arrow_type (rc_type c) = TFloat32" using assms(2) by (auto simp: parse_arrow_type_def)
  with assms(1) have f: "TFloat32 \<in> snd ` set (hp_schema (with_safety src spec mp mr))"
    by (force simp: with_safety_def schema_for_def)
  show ?thesis
    using build_batch_float32 [OF f] scan_sets_float32 [OF f]
    by (auto simp: scan_bound_def Let_def res_simps split: list.splits prod.splits if_splits sum.splits)
qed

definition price_spec :: HttpTableSpec where
  "price_spec = idle_spec\<lparr>ts_response := (ts_response idle_spec)
     \<lparr>rs_schema := [\<lparr>rc_name = ''price'', rc_type = ''FLOAT'', rc_source = None, rc_expr = None\<rparr>]\<rparr>\<rparr>"

definition batch_ok :: "Schema \<Rightarrow> RecordBatch \<Rightarrow> bool" where
  "batch_ok schema b \<longleftrightarrow> ba_schema b = schema \<and> map array_type (ba_columns b) = map snd schema \<and>
     (\<forall>a\<in>set (ba_columns b). array_len a = ba_rows b)"

lemma array_take_type [simp]: "array_type (array_take n a) = array_type a"
  by (cases a) auto

lemma array_take_len [simp]: "array_len (array_take n a) = min n (array_len a)"
  by (cases a) auto

lemma try_new_ok: "try_new_with_rows schema arrays n = Inr b \<Longrightarrow> batch_ok schema b"
  using try_new_rows [of schema arrays n b] by (auto simp: batch_ok_def)

lemma trim_batch_ok: "batch_ok schema b \<Longrightarrow> batch_ok schema (trim_batch limit n b)"
  by (auto simp: trim_batch_def batch_ok_def batch_slice_def comp_def split: option.splits)

lemma trim_batch_rows: "\<not> reached limit n \<Longrightarrow> limit = Some l \<Longrightarrow> n + ba_rows (trim_batch limit n b) \<le> l"
  by (auto simp: trim_batch_def reached_def batch_slice_def)

lemma trim_batch_less: "ba_rows (trim_batch limit n b) \<le> ba_rows b"
  by (auto simp: trim_batch_def batch_slice_def split: option.splits)

lemma scan_sets_ok:
  assumes "scan_sets lib cl send p explode limit i n binds = (Inr bs, reqs)"
  shows "(\<forall>b\<in>set bs. batch_ok (hp_schema p) b) \<and>
    (\<forall>l. limit = Some l \<and> n \<le> l \<longrightarrow> n + sum_list (map ba_rows bs) \<le> l) \<and>
    (\<forall>mx. hp_max_rows p = Some mx \<and> mx < 2 ^ 64 - 1 \<and> n \<le> mx \<longrightarrow> n + sum_list (map ba_rows bs) \<le> mx)"
  using assms
proof (induction binds arbitrary: i n bs reqs)
  case (Cons b binds)
  from Cons.prems show ?case
  proof (cases rule: scan_sets_Cons)
    case (batch rows built bs' reqs1 reqs2)
    let ?t = "trim_batch limit n built"
    have ok: "batch_ok (hp_schema p) ?t"
      using batch(4) by (auto simp: build_batch_def intro: trim_batch_ok try_new_ok)
    have "n + ba_rows ?t \<le> mx" if "hp_max_rows p = Some mx" "mx < 2 ^ 64 - 1" for mx
    proof -
      have "\<not> mx < sat 64 (n + length rows)" using batch(2) that(1) by simp
      then have "n + length rows \<le> mx" using that(2) unfolding sat_def min_def by (metis leD leI)
      with trim_batch_less [of limit n built] build_batch_rows [OF batch(4)] show ?thesis by linarith
    qed
    with Cons.IH [OF batch(5)] batch(6) ok trim_batch_rows [OF batch(3), of _ built] show ?thesis by auto
  qed (use Cons.IH in auto)
qed simp

lemma scan_sets_requests:
  assumes "keeps_target lib" "scan_sets lib cl send p explode limit i n binds = (r, reqs)"
  shows "length reqs \<le> length binds * (case hp_max_pages p of Some m \<Rightarrow> m | None \<Rightarrow> 1000) \<and>
    (\<forall>req\<in>set reqs. check_target (hq_url req) (hs_base_url (hp_source p)) (hs_allowed_hosts (hp_source p)) = Inr ())"
  using assms(2)
proof (induction binds arbitrary: i n r reqs)
  case (Cons b binds)
  obtain r1 reqs1 where f: "fetch_rows lib (send i) p b explode (map_option (\<lambda>l. l - n) limit) = (r1, reqs1)" by fastforce
  note ok = fetch_rows_bounded [OF assms(1) f]
  from Cons.prems f consider "reqs = []" | "reqs = reqs1" |
    r' reqs' n' where "scan_sets lib cl send p explode limit (Suc i) n' binds = (r', reqs')" "reqs = reqs1 @ reqs'"
    by (auto simp: Let_def split: if_splits prod.splits sum.splits)
  then show ?case
  proof cases
    case 3
    from Cons.IH [OF 3(1)] ok 3(2) show ?thesis by auto
  qed (use ok in auto)
qed simp

lemma project_columns_map: "project_columns idx xs = Some ys \<Longrightarrow> project_columns idx (map f xs) = Some (map f ys)"
  by (auto simp: project_columns_def list_all_iff split: if_splits)

lemma project_batch_ok:
  assumes "project_batch proj schema' b = Inr b'" "projected_schema proj schema = Inr schema'" "batch_ok schema b"
  shows "batch_ok schema' b' \<and> ba_rows b' = ba_rows b"
  using assms by (auto simp: project_batch_def projected_schema_def res_simps
      dest: try_new_ok try_new_rows(5) split: option.splits)

lemma scan_bound_Batches:
  assumes "scan_bound lib cl send now p proj fs limit defer = (Inr (Batches schema bs), reqs)"
  obtains out all where "unbound_required (hp_spec p) (bind_filters (hp_spec p) now fs) = []"
    "scan_sets lib cl send p (bi_explode (bind_filters (hp_spec p) now fs)) limit 0 0
       (expand_fanout (bi_params (bind_filters (hp_spec p) now fs)) (bi_fanout (bind_filters (hp_spec p) now fs))) = (Inr out, reqs)"
    "all \<noteq> []" "\<forall>b\<in>set all. batch_ok (hp_schema p) b" "sum_list (map ba_rows all) = sum_list (map ba_rows out)"
    "projected_schema proj (hp_schema p) = Inr schema" "rmap (project_batch proj schema) all = Inr bs"
proof -
  let ?b = "bind_filters (hp_spec p) now fs"
  from assms have un: "unbound_required (hp_spec p) ?b = []"
    by (auto simp: scan_bound_def Let_def split: list.splits if_splits sum.splits prod.splits)
  with assms obtain out all where out: "scan_sets lib cl send p (bi_explode ?b) limit 0 0
      (expand_fanout (bi_params ?b) (bi_fanout ?b)) = (Inr out, reqs)"
    "(if out = [] then rbind (arrow_err (build_batch cl (hp_schema p) (hp_out_columns p) [] (bi_params ?b)))
        (\<lambda>e. Inr [e]) else Inr out) = Inr all"
    "projected_schema proj (hp_schema p) = Inr schema" "rmap (project_batch proj schema) all = Inr bs"
    by (auto simp: scan_bound_def Let_def res_simps split: prod.splits)
  show ?thesis
  proof (cases "out = []")
    case True
    with out(2) obtain e where e: "build_batch cl (hp_schema p) (hp_out_columns p) [] (bi_params ?b) = Inr e" "all = [e]"
      by (auto simp: res_simps)
    from e(1) have "batch_ok (hp_schema p) e" "ba_rows e = 0"
      by (auto simp: build_batch_rows build_batch_def intro: try_new_ok)
    then show ?thesis by (intro that [OF un out(1) _ _ _ out(3,4)]) (auto simp: True e(2))
  next
    case False
    with scan_sets_ok [OF out(1)] out un that show ?thesis by auto
  qed
qed



definition id_column :: ResponseColumn where
  "id_column = \<lparr>rc_name = ''id'', rc_type = ''bigint'', rc_source = Some ''$'', rc_expr = None\<rparr>"

definition ids_provider :: HttpTableProvider where
  "ids_provider = with_safety (hp_source idle_provider)
     (idle_spec\<lparr>ts_pagination := None, ts_response := (ts_response idle_spec)\<lparr>rs_schema := [id_column]\<rparr>\<rparr>) (Some 5) None"

definition cell_lib :: CellLib where
  "cell_lib = \<lparr>cl_expr = \<lparr>lib_show = (\<lambda>_. []), lib_base64 = (\<lambda>_. None), lib_time = (\<lambda>_ _. None)\<rparr>, cl_f64 = (\<lambda>_. None),
     cl_rfc3339_micros = (\<lambda>_. None), cl_naive_micros = (\<lambda>_ _. None), cl_days = (\<lambda>_. None)\<rparr>"

lemma ids_scan:
  "fst (scan_bound page_lib cell_lib (\<lambda>_. page_server) 0 ids_provider None [] (Some 1) False) =
     Inr (Batches [(''id'', TInt64)] [\<lparr>ba_schema = [(''id'', TInt64)], ba_columns = [AInt64 [Some 1]], ba_rows = 1\<rparr>])"
  by code_simp



end
