(* ===== verification/Http_Join.thy ===== *)
theory Http_Join
  imports Http_Scan "HOL-Library.Multiset"
begin

section \<open>Dependent joins over HTTP tables\<close>

text \<open>
  \<open>deferred.rs\<close> and \<open>dependent_join.rs\<close> in \<open>pawrly-sources/http/src\<close>: the rewrite of physical plans that binds the
  required key of a deferred scan inside a join, and the execution of the join.  The plan is the part of
  DataFusion's plan type that the rewrite inspects.  Running the driver plan and replaying the hash join are
  DataFusion's and are arguments; joined rows are pairs of a row of the left and a row of the right input.
\<close>

subsection \<open>The rewrite\<close>

datatype JoinType = Inner | OtherJoin string

datatype KeyExpr = KeyColumn string nat | KeyOther string

datatype WrapKind = LocalLimit | CoalesceBatches | CoalescePartitions | Repartition | Projection

text \<open>\<open>Wrap kind fetch child\<close> is an operator of one child with the value of its \<open>fetch()\<close>; \<open>Node\<close> is any other.\<close>

datatype Exec =
    HashJoin JoinType "(KeyExpr \<times> KeyExpr) list" Exec Exec
  | DeferredScan DeferredHttpScanExec
  | GlobalLimit nat "nat option" Exec
  | Wrap WrapKind "nat option" Exec
  | Node string "Exec list"
  | DependentJoin Exec bool DeferredHttpScanExec nat string "nat option"

definition is_prefix_preserving :: "WrapKind \<Rightarrow> bool" where
  "is_prefix_preserving kind \<longleftrightarrow>
     kind \<in> {LocalLimit, CoalesceBatches, CoalescePartitions, Repartition, Projection}"

fun is_column_preserving :: "WrapKind \<Rightarrow> bool" where
  "is_column_preserving CoalesceBatches = True"
| "is_column_preserving CoalescePartitions = True"
| "is_column_preserving Repartition = True"
| "is_column_preserving _ = False"

fun limit_for_children :: "Exec \<Rightarrow> nat option \<Rightarrow> nat option" where
  "limit_for_children (GlobalLimit skip fetch _) current = map_option (\<lambda>f. sat 64 (f + skip)) fetch"
| "limit_for_children (Wrap kind fetch _) current =
     (if is_prefix_preserving kind then (case fetch of Some f \<Rightarrow> Some f | None \<Rightarrow> current) else None)"
| "limit_for_children _ current = None"

fun find_deferred :: "Exec \<Rightarrow> DeferredHttpScanExec option" where
  "find_deferred (DeferredScan d) = Some d"
| "find_deferred (Wrap kind _ child) = (if is_column_preserving kind then find_deferred child else None)"
| "find_deferred _ = None"

text \<open>
  The names of the columns of a deferred scan; the rewrite asks only for the schema of such a scan under wrappers
  that keep its columns.
\<close>

definition deferred_fields :: "DeferredHttpScanExec \<Rightarrow> string list" where
  "deferred_fields d =
     (let full = map fst (schema_for (df_spec d)) in
      case df_projection d of None \<Rightarrow> full | Some idx \<Rightarrow> map (\<lambda>i. full ! i) idx)"

definition bind_probe :: "Exec \<Rightarrow> bool \<Rightarrow> DeferredHttpScanExec \<Rightarrow> KeyExpr \<Rightarrow> KeyExpr \<Rightarrow> nat option \<Rightarrow> Exec option" where
  "bind_probe plan probe_is_right d probe_key driver_key limit =
     (case (probe_key, driver_key) of
        (KeyColumn _ probe_idx, KeyColumn _ driver_idx) \<Rightarrow>
          (if probe_idx < length (deferred_fields d) \<and> deferred_fields d ! probe_idx \<in> set (df_key_columns d)
           then Some (DependentJoin plan probe_is_right d driver_idx (deferred_fields d ! probe_idx) limit)
           else None)
      | _ \<Rightarrow> None)"

fun try_build_dependent_join :: "Exec \<Rightarrow> nat option \<Rightarrow> Exec option" where
  "try_build_dependent_join (HashJoin Inner [(left_key, right_key)] left right) limit =
     (case (find_deferred left, find_deferred right) of
        (Some d, None) \<Rightarrow> bind_probe (HashJoin Inner [(left_key, right_key)] left right) False d left_key right_key limit
      | (None, Some d) \<Rightarrow> bind_probe (HashJoin Inner [(left_key, right_key)] left right) True d right_key left_key limit
      | _ \<Rightarrow> None)"
| "try_build_dependent_join _ limit = None"

fun rewrite :: "Exec \<Rightarrow> nat option \<Rightarrow> Exec" where
  "rewrite (HashJoin jt keys left right) limit =
     (case try_build_dependent_join (HashJoin jt keys left right) limit of
        Some dep \<Rightarrow> dep
      | None \<Rightarrow> HashJoin jt keys (rewrite left None) (rewrite right None))"
| "rewrite (GlobalLimit skip fetch child) limit =
     GlobalLimit skip fetch (rewrite child (limit_for_children (GlobalLimit skip fetch child) limit))"
| "rewrite (Wrap kind fetch child) limit =
     Wrap kind fetch (rewrite child (limit_for_children (Wrap kind fetch child) limit))"
| "rewrite (Node name children) limit = Node name (map (\<lambda>c. rewrite c None) children)"
| "rewrite (DeferredScan d) limit = DeferredScan d"
| "rewrite (DependentJoin j r d i k c) limit = DependentJoin j r d i k c"

subsection \<open>The execution\<close>

datatype JoinError = Scan ScanError | Driver string | Internal string

fun is_null :: "ScalarValue \<Rightarrow> bool" where
  "is_null (SUtf8 x) = (x = None)"
| "is_null (SLargeUtf8 x) = (x = None)"
| "is_null (SInt32 x) = (x = None)"
| "is_null (SInt64 x) = (x = None)"
| "is_null (SUInt64 x) = (x = None)"
| "is_null (SBoolean x) = (x = None)"
| "is_null (SFloat64 x) = (x = None)"
| "is_null (STimestamp _ x) = (x = None)"
| "is_null (SDate32 x) = (x = None)"

text \<open>The loop returns as soon as the cap is reached: the keys collected are then never changed again.\<close>

definition key_step :: "nat option \<Rightarrow> ScalarValue \<Rightarrow> ScalarValue list \<Rightarrow> ScalarValue list" where
  "key_step cap v out = (if reached cap (length out) \<or> is_null v then out else push_new v out)"

definition column_cells :: "nat \<Rightarrow> RecordBatch \<Rightarrow> ScalarValue list" where
  "column_cells idx b = (if idx < length (ba_columns b) then cells (ba_columns b ! idx) else [])"

definition distinct_keys :: "RecordBatch list \<Rightarrow> nat \<Rightarrow> nat option \<Rightarrow> ScalarValue list" where
  "distinct_keys batches idx cap = fold (key_step cap) (concat (map (column_cells idx) batches)) []"

definition build_in_list :: "string \<Rightarrow> ScalarValue list \<Rightarrow> Expr" where
  "build_in_list col keys = EInList (EColumn col) (map ELiteral keys) False"

type_synonym row = "ScalarValue list"

definition driver_plan :: "Exec \<Rightarrow> bool \<Rightarrow> Exec option" where
  "driver_plan plan probe_is_right =
     (case plan of HashJoin _ _ left right \<Rightarrow> Some (if probe_is_right then left else right) | _ \<Rightarrow> None)"

definition execute_dependent ::
  "(Exec \<Rightarrow> string + RecordBatch list) \<Rightarrow> (RecordBatch list \<Rightarrow> RecordBatch list \<Rightarrow> (row \<times> row) list) \<Rightarrow>
   NetLib \<Rightarrow> CellLib \<Rightarrow> (nat \<Rightarrow> nat \<Rightarrow> HttpRequest \<Rightarrow> string + HttpResponse) \<Rightarrow> int \<Rightarrow>
   Exec \<Rightarrow> bool \<Rightarrow> DeferredHttpScanExec \<Rightarrow> nat \<Rightarrow> string \<Rightarrow> nat option \<Rightarrow> nat \<Rightarrow> JoinError + (row \<times> row) list" where
  "execute_dependent collect replay lib cl send now plan probe_is_right deferred driver_key_idx probe_key_col cap part =
     (if part \<noteq> 0 then Inl (Internal ''DependentJoinExec only has one partition'')
      else case driver_plan plan probe_is_right of
        None \<Rightarrow> Inl (Internal ''index out of bounds'')
      | Some driver \<Rightarrow>
          (case collect driver of
             Inl e \<Rightarrow> Inl (Driver e)
           | Inr driver_batches \<Rightarrow>
               let keys = distinct_keys driver_batches driver_key_idx cap in
               if keys = [] then Inr []
               else case fst (scan_with_filters lib cl send now deferred [build_in_list probe_key_col keys]) of
                      Inl e \<Rightarrow> Inl (Scan e)
                    | Inr (Deferred d) \<Rightarrow> Inl (Scan (RequiredFilter (ts_name (df_spec d)) (case df_key_columns d of k # _ \<Rightarrow> k | [] \<Rightarrow> ''?'')))
                    | Inr (Batches _ probe) \<Rightarrow>
                        Inr (if probe_is_right then replay driver_batches probe else replay probe driver_batches)))"

subsection \<open>Keys of the driver\<close>

definition first_seen :: "ScalarValue list \<Rightarrow> ScalarValue list" where
  "first_seen vs = fold push_new (filter (\<lambda>v. \<not> is_null v) vs) []"

definition capped :: "nat option \<Rightarrow> 'a list \<Rightarrow> 'a list" where
  "capped cap xs = (case cap of Some c \<Rightarrow> take c xs | None \<Rightarrow> xs)"

lemma fold_push_new_prefix: "\<exists>zs. fold push_new ys xs = xs @ zs"
proof (induction ys arbitrary: xs)
  case (Cons y ys)
  from Cons [of "push_new y xs"] show ?case by (auto simp: push_new_def)
qed simp

lemma take_fold_push_new:
  assumes "c \<le> length xs"
  shows "take c (fold push_new ys xs) = take c xs"
proof -
  from fold_push_new_prefix obtain zs where "fold push_new ys xs = xs @ zs" by blast
  with assms show ?thesis by simp
qed

lemma fold_key_step:
  "length out \<le> c \<Longrightarrow> fold (key_step (Some c)) vs out = take c (fold push_new (filter (\<lambda>v. \<not> is_null v) vs) out)"
proof (induction vs arbitrary: out)
  case (Cons v vs)
  show ?case
  proof (cases "length out = c \<or> is_null v")
    case True
    have "take c (push_new v out) = take c out" "length out \<le> length (push_new v out)" if "length out = c"
      using that by (auto simp: push_new_def)
    with True Cons show ?thesis
      by (auto simp: key_step_def reached_def take_fold_push_new)
  next
    case False
    with Cons.prems have "length (push_new v out) \<le> c" by (simp add: push_new_def)
    with False Cons show ?thesis by (simp add: key_step_def reached_def)
  qed
qed simp

lemma distinct_keys_capped:
  "distinct_keys batches idx cap = capped cap (first_seen (concat (map (column_cells idx) batches)))"
proof (cases cap)
  case None
  have "fold (key_step None) vs out = fold push_new (filter (\<lambda>v. \<not> is_null v) vs) out" for vs out
    by (induction vs arbitrary: out) (simp_all add: key_step_def reached_def)
  with None show ?thesis by (simp add: distinct_keys_def first_seen_def capped_def)
qed (simp add: distinct_keys_def first_seen_def capped_def fold_key_step)

lemma distinct_keys_distinct: "distinct (distinct_keys batches idx cap)"
  by (simp add: distinct_keys_capped capped_def first_seen_def distinct_fold_push_new split: option.splits)

lemma distinct_keys_mem:
  "v \<in> set (distinct_keys batches idx cap) \<Longrightarrow> v \<in> set (concat (map (column_cells idx) batches)) \<and> \<not> is_null v"
  by (auto simp: distinct_keys_capped capped_def first_seen_def split: option.splits dest!: in_set_takeD)

lemma distinct_keys_all:
  "set (distinct_keys batches idx None) = {v \<in> set (concat (map (column_cells idx) batches)). \<not> is_null v}"
  by (auto simp: distinct_keys_capped capped_def first_seen_def)

subsection \<open>The rows of the probe\<close>

definition batch_rows :: "RecordBatch \<Rightarrow> row list" where
  "batch_rows b = map (\<lambda>i. map (\<lambda>a. cells a ! i) (ba_columns b)) [0..<ba_rows b]"

abbreviation rows_of :: "RecordBatch list \<Rightarrow> row list" where
  "rows_of bs \<equiv> concat (map batch_rows bs)"

lemma batch_rows_column:
  assumes "batch_ok schema b" "idx < length (ba_columns b)"
  shows "map (\<lambda>r. r ! idx) (batch_rows b) = column_cells idx b"
proof -
  have "length (cells (ba_columns b ! idx)) = ba_rows b" using assms by (simp add: batch_ok_def)
  then show ?thesis
    using assms(2) by (auto simp: batch_rows_def column_cells_def comp_def intro: nth_equalityI)
qed

lemma build_column_type: "array_type (build_column lib schema rows params col) = array_type (build_column lib schema rows' params' col)"
  by (auto simp: build_column_def Let_def split: option.splits DataType.splits)

lemma build_batch_indep:
  assumes "build_batch lib schema cols rows params = Inr b"
  shows "\<exists>b'. build_batch lib schema cols rows' params' = Inr b'"
proof -
  note ok = try_new_rows [OF assms [unfolded build_batch_def]]
  have "map (array_type \<circ> build_column lib schema rows' params') cols = map snd schema"
    using ok(2,3) build_column_type [of lib schema rows' params' _ rows params] by (simp add: comp_def)
  moreover from this have "length cols = length schema" by (metis length_map)
  ultimately show ?thesis using ok(6)
    by (cases cols) (auto simp: build_batch_def try_new_with_rows_def build_column_length list_ex_iff)
qed

text \<open>Adding the keys to the filters of a deferred scan adds exactly one fan-out.\<close>

lemma fold_bind_default_mono: "map_of m k \<noteq> None \<Longrightarrow> map_of (fold (bind_default ex fo) ps m) k \<noteq> None"
proof (induction ps arbitrary: m)
  case (Cons p ps)
  then have "map_of (bind_default ex fo p m) k \<noteq> None" by (auto simp: bind_default_def split: option.splits)
  with Cons.IH show ?case by simp
qed simp

lemma fold_bind_default_fan:
  assumes "map_of (fold (bind_default ex []) ps m) key = None" "\<not> bound_elsewhere key ex []"
  shows "fold (bind_default ex [(key, vals)]) ps m = fold (bind_default ex []) ps m"
  using assms(1)
proof (induction ps arbitrary: m)
  case (Cons p ps)
  have "bind_default ex [(key, vals)] p m = bind_default ex [] p m"
  proof (cases "ps_name p = key")
    case True
    have "map_of (bind_default ex [] p m) key = None" using Cons.prems fold_bind_default_mono [of "bind_default ex [] p m" key ex "[]" ps]
      by (metis fold_simps(2))
    with True assms(2) show ?thesis by (auto simp: bind_default_def bound_elsewhere_def split: option.splits if_splits)
  qed (auto simp: bind_default_def bound_elsewhere_def split: option.splits)
  with Cons show ?case by simp
qed simp

lemma fold_insert_hits: "k \<in> fst ` set kvs \<Longrightarrow> map_of (fold (\<lambda>(k, v). bt_insert k v) kvs m) k \<noteq> None"
proof (induction kvs arbitrary: m)
  case (Cons kv kvs)
  show ?case
  proof (cases "k \<in> fst ` set kvs")
    case False
    with Cons.prems fold_insert_other [OF False] show ?thesis by (auto split: prod.splits)
  qed (use Cons.IH in \<open>auto split: prod.splits\<close>)
qed simp

lemma map_filter_cong: "(\<And>x. x \<in> set xs \<Longrightarrow> f x = g x) \<Longrightarrow> List.map_filter f xs = List.map_filter g xs"
  by (induction xs) (auto simp: map_filter_simps split: option.splits)

lemma in_map_filter: "x \<in> set xs \<Longrightarrow> f x = Some y \<Longrightarrow> y \<in> set (List.map_filter f xs)"
  by (induction xs) (auto simp: map_filter_simps split: option.splits)

lemma derived_params_fan:
  assumes "key \<notin> fst ` set (derived_params spec ex [] now m)"
  shows "derived_params spec ex [(key, vals)] now m = derived_params spec ex [] now m"
  unfolding derived_params_def
proof (rule map_filter_cong)
  fix p assume p: "p \<in> set (ts_params spec)"
  let ?d = "\<lambda>fo. if map_of m (ps_name p) \<noteq> None \<or> bound_elsewhere (ps_name p) ex fo then None
       else Option.bind (ps_derive p) (\<lambda>d. map_option (\<lambda>v. (ps_name p, v)) (Derive_resolve d m now))"
  show "?d [(key, vals)] = ?d []"
  proof (cases "ps_name p = key")
    case True
    have "?d [] = None"
    proof (rule ccontr)
      assume "?d [] \<noteq> None"
      then obtain v where v: "?d [] = Some (key, v)" using True by (auto simp: bind_eq_Some_conv split: if_splits)
      with p have "(key, v) \<in> set (derived_params spec ex [] now m)"
        unfolding derived_params_def by (rule in_map_filter)
      with assms show False by force
    qed
    with True show ?thesis by (simp add: bound_elsewhere_def)
  qed (simp add: bound_elsewhere_def)
qed

lemma bind_filters_fan:
  fixes now :: int
  assumes names: "distinct (map ps_name (ts_params spec))"
    and un: "key \<in> set (unbound_required spec (bind_filters spec now fs))" and fo: "bi_fanout (bind_filters spec now fs) = []"
    and f: "extract_in_list f = Some (key, vals)" and ne: "\<not> explodes spec key"
  shows "bind_filters spec now (fs @ [f]) = (bind_filters spec now fs)\<lparr>bi_fanout := [(key, vals)]\<rparr>"
proof -
  obtain ex fo' where io: "fold (bind_in spec) fs ([], []) = (ex, fo')" by fastforce
  have fo': "fo' = []" using fo io by (simp add: bind_filters_def Let_def)
  define m where "m = fold (bind_cmp spec) fs []"
  let ?m1 = "fold (bind_default ex []) (ts_params spec) m"
  let ?m2 = "fold (\<lambda>(k, v). bt_insert k v) (derived_params spec ex [] now ?m1) ?m1"
  have b0: "bind_filters spec now fs = \<lparr>bi_params = ?m2, bi_explode = ex, bi_fanout = []\<rparr>"
    unfolding bind_filters_def io fo' by (simp add: m_def Let_def)
  from un obtain p where p: "p \<in> set (ts_params spec)" "ps_name p = key" "ps_required p"
    and unb: "map_of ?m2 key = None" "\<not> bound_elsewhere key ex []"
    by (auto simp: unbound_required_def b0)
  have d: "key \<notin> fst ` set (derived_params spec ex [] now ?m1)" using unb(1) fold_insert_hits by metis
  then have "map_of ?m1 key = None" using unb(1) fold_insert_other by metis
  from fold_bind_default_fan [OF this unb(2)] derived_params_fan [OF d]
  have rest: "fold (bind_default ex [(key, vals)]) (ts_params spec) m = ?m1"
    "derived_params spec ex [(key, vals)] now ?m1 = derived_params spec ex [] now ?m1" by blast+
  have "bind_in spec f (ex, []) = (ex, [(key, vals)])"
    using find_param_unique [OF names p(1)] p f ne by (auto simp: bind_in_def explodes_def)
  then have "fold (bind_in spec) (fs @ [f]) ([], []) = (ex, [(key, vals)])" by (simp add: io fo')
  moreover have "fold (bind_cmp spec) (fs @ [f]) [] = m" by (simp add: m_def bind_cmp_in [OF f])
  ultimately have "bind_filters spec now (fs @ [f]) = \<lparr>bi_params = ?m2, bi_explode = ex, bi_fanout = [(key, vals)]\<rparr>"
    unfolding bind_filters_def by (simp add: rest Let_def del: fold_append fold.simps)
  with b0 show ?thesis by simp
qed

lemma unbound_required_fan:
  assumes "unbound_required spec b = [key]" "bi_fanout b = []"
  shows "unbound_required spec (b\<lparr>bi_fanout := [(key, vals)]\<rparr>) = []"
proof -
  have "ps_name p = key" if "p \<in> set (ts_params spec)" "ps_required p" "map_of (bi_params b) (ps_name p) = None"
    "\<not> bound_elsewhere (ps_name p) (bi_explode b) (bi_fanout b)" for p
    using that arg_cong [OF assms(1), of set] by (auto simp: unbound_required_def)
  with assms(2) show ?thesis by (auto simp: unbound_required_def filter_empty_conv bound_elsewhere_def)
qed

lemma project_batch_total:
  assumes "batch_ok schema b" "projected_schema proj schema = Inr sch"
  shows "\<exists>b'. project_batch proj sch b = Inr b'"
proof (cases proj)
  case (Some idx)
  have len: "length (ba_columns b) = length schema" using assms(1) by (metis batch_ok_def length_map)
  have ty: "array_type (ba_columns b ! i) = snd (schema ! i)" if "i < length schema" for i
    using assms(1) that len by (metis batch_ok_def nth_map)
  from assms(2) Some have sch: "sch = map (\<lambda>i. schema ! i) idx" "\<forall>i\<in>set idx. i < length schema"
    by (auto simp: projected_schema_def project_columns_def list_all_iff res_simps split: if_splits)
  let ?cols = "map (\<lambda>i. ba_columns b ! i) idx"
  have "\<forall>a\<in>set ?cols. array_len a = ba_rows b" using assms(1) sch(2) len by (auto simp: batch_ok_def)
  moreover have "map array_type ?cols = map snd sch" using sch ty by simp
  moreover have "length ?cols = length sch" by (simp add: sch(1))
  ultimately have "try_new_with_rows sch ?cols (Some (ba_rows b)) = Inr \<lparr>ba_schema = sch, ba_columns = ?cols, ba_rows = ba_rows b\<rparr>"
    unfolding try_new_with_rows_def by (auto simp: list_ex_iff)
  with Some sch(2) len show ?thesis
    by (simp add: project_batch_def project_columns_def list_all_iff arrow_err_def)
qed (simp add: project_batch_def)

text \<open>The rows of the probe for one value of the key, as the batch builder makes them from the items the API has.\<close>

definition lookup_rows :: "CellLib \<Rightarrow> DeferredHttpScanExec \<Rightarrow> (string \<Rightarrow> json list) \<Rightarrow> string bmap \<Rightarrow> string \<Rightarrow> string \<Rightarrow> row list" where
  "lookup_rows cl d items base key v =
     (case (build_batch cl (schema_for (df_spec d)) (effective_columns (df_spec d)) (items v) (bt_insert key v base),
            projected_schema (df_projection d) (schema_for (df_spec d))) of
        (Inr b, Inr sch) \<Rightarrow> (case project_batch (df_projection d) sch b of Inr b' \<Rightarrow> batch_rows b' | Inl _ \<Rightarrow> [])
      | _ \<Rightarrow> [])"

abbreviation deferred_provider :: "DeferredHttpScanExec \<Rightarrow> HttpTableProvider" where
  "deferred_provider d \<equiv> with_safety (df_source d) (df_spec d) (df_max_pages d) (df_max_rows d)"

lemma scan_sets_lookup:
  assumes "hp_max_rows p = None"
    and fetch: "\<And>i v. fst (fetch_rows lib (send i) p (bt_insert key v base) ex None) = Inr (items v)"
    and built: "\<And>v. build_batch cl (hp_schema p) (hp_out_columns p) (items v) (bt_insert key v base) = Inr (built v)"
  shows "\<exists>reqs. scan_sets lib cl send p ex None i n (map (\<lambda>v. bt_insert key v base) vals) =
    (Inr (map built (filter (\<lambda>v. items v \<noteq> []) vals)), reqs)"
proof (induction vals arbitrary: i n)
  case (Cons v vals)
  obtain reqs where f: "fetch_rows lib (send i) p (bt_insert key v base) ex None = (Inr (items v), reqs)"
    using fetch by (metis prod.collapse)
  obtain reqs' where r: "scan_sets lib cl send p ex None (Suc i) (n + length (items v)) (map (\<lambda>v. bt_insert key v base) vals) =
      (Inr (map built (filter (\<lambda>v. items v \<noteq> []) vals)), reqs')" using Cons by blast
  have "ba_rows (built v) = length (items v)" using built by (rule build_batch_rows)
  with f r assms(1) built show ?case
    by (cases "items v = []") (simp_all add: reached_def trim_batch_def arrow_err_def Let_def)
qed simp

definition lookup_table :: "NetLib \<Rightarrow> CellLib \<Rightarrow> (nat \<Rightarrow> nat \<Rightarrow> HttpRequest \<Rightarrow> string + HttpResponse) \<Rightarrow> int \<Rightarrow>
    DeferredHttpScanExec \<Rightarrow> string \<Rightarrow> (string \<Rightarrow> json list) \<Rightarrow> bool" where
  "lookup_table lib cl send now d key items \<longleftrightarrow>
     (let b0 = bind_filters (df_spec d) now (df_filters d) in
      distinct (map ps_name (ts_params (df_spec d))) \<and> unbound_required (df_spec d) b0 = [key] \<and> bi_fanout b0 = [] \<and>
      \<not> explodes (df_spec d) key \<and> df_max_rows d = None \<and>
      (\<exists>sch. projected_schema (df_projection d) (schema_for (df_spec d)) = Inr sch) \<and>
      (\<exists>b. build_batch cl (schema_for (df_spec d)) (effective_columns (df_spec d)) [] [] = Inr b) \<and>
      (\<forall>i v. fst (fetch_rows lib (send i) (deferred_provider d) (bt_insert key v (bi_params b0)) (bi_explode b0) None) =
         Inr (items v)))"

lemma batch_rows_empty: "ba_rows b = 0 \<Longrightarrow> batch_rows b = []"
  by (simp add: batch_rows_def)

lemma project_built:
  assumes "build_batch cl schema cols [] [] = Inr e0" "projected_schema proj schema = Inr sch"
  shows "\<exists>b b'. build_batch cl schema cols rows params = Inr b \<and> project_batch proj sch b = Inr b' \<and>
    batch_ok sch b' \<and> ba_rows b' = length rows"
proof -
  obtain b where b: "build_batch cl schema cols rows params = Inr b" using build_batch_indep [OF assms(1)] by blast
  then have ok: "batch_ok schema b" by (auto simp: build_batch_def intro: try_new_ok)
  from project_batch_total [OF ok assms(2)] obtain b' where b': "project_batch proj sch b = Inr b'" by blast
  from b b' project_batch_ok [OF b' assms(2) ok] build_batch_rows [OF b] show ?thesis by auto
qed

lemma in_list_of_keys:
  assumes "map scalar_to_string keys = map Some vals"
  shows "extract_in_list (build_in_list key keys) = Some (key, vals)"
proof -
  have "list_all (\<lambda>k. scalar_to_string k \<noteq> None) keys" "map (\<lambda>k. the (scalar_to_string k)) keys = vals"
    using assms by (auto simp: list_all_length list_eq_iff_nth_eq)
  then show ?thesis by (auto simp: build_in_list_def list_all_iff list_ex_iff comp_def)
qed

lemma probe_scan:
  assumes table: "lookup_table lib cl send now d key items" and keys: "map scalar_to_string keys = map Some vals"
  shows "\<exists>sch bs. fst (scan_with_filters lib cl send now d [build_in_list key keys]) = Inr (Batches sch bs) \<and>
    rows_of bs = concat (map (lookup_rows cl d items (bi_params (bind_filters (df_spec d) now (df_filters d))) key) vals)"
proof -
  let ?p = "deferred_provider d"
  define b0 where "b0 = bind_filters (df_spec d) now (df_filters d)"
  from table obtain sch e0 where t: "distinct (map ps_name (ts_params (df_spec d)))" "unbound_required (df_spec d) b0 = [key]"
    "bi_fanout b0 = []" "\<not> explodes (df_spec d) key" "df_max_rows d = None"
    "projected_schema (df_projection d) (schema_for (df_spec d)) = Inr sch"
    "build_batch cl (schema_for (df_spec d)) (effective_columns (df_spec d)) [] [] = Inr e0"
    and fetch: "\<And>i v. fst (fetch_rows lib (send i) ?p (bt_insert key v (bi_params b0)) (bi_explode b0) None) = Inr (items v)"
    unfolding lookup_table_def b0_def Let_def by blast
  have p: "hp_schema ?p = schema_for (df_spec d)" "hp_out_columns ?p = effective_columns (df_spec d)"
    "hp_spec ?p = df_spec d" "hp_max_rows ?p = None" using t(5) by (simp_all add: with_safety_def)
  have bind: "bind_filters (df_spec d) now (df_filters d @ [build_in_list key keys]) = b0\<lparr>bi_fanout := [(key, vals)]\<rparr>"
    using bind_filters_fan [OF t(1) _ _ in_list_of_keys [OF keys] t(4), of now "df_filters d"] t(2,3) by (simp add: b0_def)
  have sets: "expand_fanout (bi_params b0) [(key, vals)] = map (\<lambda>v. bt_insert key v (bi_params b0)) vals"
    using expand_fanout_snoc [of "bi_params b0" "[]" key vals] by simp
  note total = project_built [OF t(7,6)]
  have "\<exists>b b'. build_batch cl (hp_schema ?p) (hp_out_columns ?p) (items v) (bt_insert key v (bi_params b0)) = Inr b \<and>
      project_batch (df_projection d) sch b = Inr b' \<and> ba_rows b' = length (items v)" for v
    unfolding p using total [of "items v" "bt_insert key v (bi_params b0)"] by blast
  then obtain built prj where built: "\<And>v. build_batch cl (hp_schema ?p) (hp_out_columns ?p) (items v)
      (bt_insert key v (bi_params b0)) = Inr (built v)"
    and prj: "\<And>v. project_batch (df_projection d) sch (built v) = Inr (prj v)" "\<And>v. ba_rows (prj v) = length (items v)"
    by metis
  obtain e e' where e: "build_batch cl (hp_schema ?p) (hp_out_columns ?p) [] (bi_params b0) = Inr e"
    "project_batch (df_projection d) sch e = Inr e'" "ba_rows e' = 0"
    unfolding p using total [of "[]" "bi_params b0"] by auto
  let ?live = "filter (\<lambda>v. items v \<noteq> []) vals"
  have "rmap (project_batch (df_projection d) sch) (map built vs) = Inr (map prj vs)" for vs
    by (simp add: rmap_eq_Inr list_all2_conv_all_nth prj)
  moreover obtain reqs where ss: "scan_sets lib cl send ?p (bi_explode b0) None 0 0 (map (\<lambda>v. bt_insert key v (bi_params b0)) vals) =
      (Inr (map built ?live), reqs)" using scan_sets_lookup [where send = send, OF p(4) fetch built] by blast
  ultimately have scan: "fst (scan_with_filters lib cl send now d [build_in_list key keys]) =
      Inr (Batches sch (if ?live = [] then [e'] else map prj ?live))"
    using unbound_required_fan [OF t(2,3)] e t(6)
    by (simp add: scan_with_filters_def scan_bound_def bind p sets ss arrow_err_def)
  have "lookup_rows cl d items (bi_params b0) key = (\<lambda>v. batch_rows (prj v))"
    using built prj(1) t(6) by (simp add: lookup_rows_def p fun_eq_iff)
  moreover have "concat (map (\<lambda>v. batch_rows (prj v)) ?live) = concat (map (\<lambda>v. batch_rows (prj v)) vals)"
    by (induction vals) (auto simp: prj(2) batch_rows_empty)
  ultimately have "rows_of (if ?live = [] then [e'] else map prj ?live) =
      concat (map (lookup_rows cl d items (bi_params b0) key) vals)"
    using e(3) by (auto simp: comp_def batch_rows_empty)
  with scan show ?thesis unfolding b0_def by blast
qed

subsection \<open>The join\<close>

text \<open>The inner join of two lists of rows on a column of each; null keys match nothing.\<close>

definition inner_join :: "nat \<Rightarrow> nat \<Rightarrow> row list \<Rightarrow> row list \<Rightarrow> (row \<times> row) list" where
  "inner_join lk rk ls rs =
     concat (map (\<lambda>l. map (Pair l) (filter (\<lambda>r. \<not> is_null (l ! lk) \<and> l ! lk = r ! rk) rs)) ls)"

lemma mset_pairs_swap:
  "mset (concat (map (\<lambda>r. map (Pair r) (filter (\<lambda>l. P l r) ls)) rs)) =
   image_mset prod.swap (mset (concat (map (\<lambda>l. map (Pair l) (filter (P l) rs)) ls)))"
proof (induction ls)
  case (Cons l ls)
  have "mset (concat (map (\<lambda>r. map (Pair r) (filter (\<lambda>l. P l r) (l # ls))) rs)) =
      mset (map (\<lambda>r. (r, l)) (filter (P l) rs)) + mset (concat (map (\<lambda>r. map (Pair r) (filter (\<lambda>l. P l r) ls)) rs))"
    by (induction rs) auto
  with Cons show ?case by (simp add: image_mset.compositionality comp_def)
qed simp

lemma inner_join_swap: "mset (inner_join rk lk rs ls) = image_mset prod.swap (mset (inner_join lk rk ls rs))"
proof -
  have "(\<lambda>l. \<not> is_null (r ! rk) \<and> r ! rk = l ! lk) = (\<lambda>l. \<not> is_null (l ! lk) \<and> l ! lk = r ! rk)" for r :: row
    by auto
  then show ?thesis
    unfolding inner_join_def
    by (simp only: mset_pairs_swap [where P = "\<lambda>l r. \<not> is_null (l ! lk) \<and> l ! lk = r ! rk"])
qed

lemma filter_by_key:
  assumes "distinct keys" "\<And>k y. k \<in> set keys \<Longrightarrow> y \<in> set (look k) \<Longrightarrow> y ! pk = k"
  shows "filter (\<lambda>y. c = y ! pk) (concat (map look keys)) = (if c \<in> set keys then look c else [])"
  using assms
proof (induction keys)
  case (Cons k keys)
  have "filter (\<lambda>y. c = y ! pk) (look k) = (if c = k then look k else [])"
    using Cons.prems(2) [of k] by (auto simp: filter_empty_conv filter_id_conv)
  with Cons show ?case by auto
qed simp

definition key_rows :: "CellLib \<Rightarrow> int \<Rightarrow> DeferredHttpScanExec \<Rightarrow> (string \<Rightarrow> json list) \<Rightarrow> string \<Rightarrow> ScalarValue \<Rightarrow> row list" where
  "key_rows cl now d items key k =
     lookup_rows cl d items (bi_params (bind_filters (df_spec d) now (df_filters d))) key (the (scalar_to_string k))"


definition item_spec :: HttpTableSpec where
  "item_spec = idle_spec\<lparr>ts_endpoint := ''/item/{id}'', ts_pagination := None, ts_params := [str_param ''id'' True False]\<rparr>"

definition item_scan :: DeferredHttpScanExec where
  "item_scan = \<lparr>df_source = hp_source idle_provider, df_spec = item_spec, df_max_pages = Some 1, df_max_rows = None,
     df_projection = None, df_filters = [], df_key_columns = [''id'']\<rparr>"

definition item_join :: Exec where
  "item_join = HashJoin Inner [(KeyColumn ''id'' 0, KeyColumn ''id'' 0)] (Node ''driver'' []) (Wrap CoalesceBatches None (DeferredScan item_scan))"

definition driver_batch :: "string option list \<Rightarrow> RecordBatch" where
  "driver_batch ids = \<lparr>ba_schema = [(''id'', TUtf8)], ba_columns = [AUtf8 ids], ba_rows = length ids\<rparr>"

definition nested_loop :: "RecordBatch list \<Rightarrow> RecordBatch list \<Rightarrow> (row \<times> row) list" where
  "nested_loop ls rs = inner_join 0 0 (rows_of ls) (rows_of rs)"

lemmas item_defs = item_scan_def item_spec_def idle_spec_def str_param_def

lemma item_scan_bind: "bind_filters item_spec now [] = \<lparr>bi_params = [], bi_explode = [], bi_fanout = []\<rparr>"
  by (simp add: bind_filters_def item_defs bind_default_def derived_params_def map_filter_simps)

text \<open>
  A limit above a dependent join can starve it: the limit caps the keys that are fetched, not the rows that are
  joined.  With driver keys \<open>1\<close> and \<open>2\<close> of which the API knows only \<open>2\<close>, the query with \<open>LIMIT 1\<close> returns no row
  although the join has one.
\<close>

lemma limit_starves_dependent_join:
  "let send = (\<lambda>i n. page_server (if i = 0 then 2 else 1)); driver = (\<lambda>_. Inr [driver_batch [Some ''1'', Some ''2'']]) in
   rewrite (GlobalLimit 0 (Some 1) item_join) None = GlobalLimit 0 (Some 1) (DependentJoin item_join True item_scan 0 ''id'' (Some 1)) \<and>
   execute_dependent driver nested_loop page_lib cell_lib send 0 item_join True item_scan 0 ''id'' (Some 1) 0 = Inr [] \<and>
   execute_dependent driver nested_loop page_lib cell_lib send 0 item_join True item_scan 0 ''id'' None 0 =
     Inr [([SUtf8 (Some ''2'')], [SUtf8 (Some ''2'')])]"
proof -
  have "rewrite (GlobalLimit 0 (Some 1) item_join) None = GlobalLimit 0 (Some 1) (DependentJoin item_join True item_scan 0 ''id'' (Some 1))"
    by (simp add: item_join_def bind_probe_def deferred_fields_def schema_for_def effective_columns_def item_defs sat_def)
  moreover have "execute_dependent (\<lambda>_. Inr [driver_batch [Some ''1'', Some ''2'']]) nested_loop page_lib cell_lib
      (\<lambda>i n. page_server (if i = 0 then 2 else 1)) 0 item_join True item_scan 0 ''id'' (Some 1) 0 = Inr []"
    by code_simp
  moreover have "execute_dependent (\<lambda>_. Inr [driver_batch [Some ''1'', Some ''2'']]) nested_loop page_lib cell_lib
      (\<lambda>i n. page_server (if i = 0 then 2 else 1)) 0 item_join True item_scan 0 ''id'' None 0 =
      Inr [([SUtf8 (Some ''2'')], [SUtf8 (Some ''2'')])]"
    by code_simp
  ultimately show ?thesis by (simp only: Let_def)
qed

lemma item_fetch:
  "fst (fetch_rows page_lib (\<lambda>n. page_server 1) (deferred_provider item_scan) [(''id'', v)] [] None) = Inr [JNum ''3'']"
proof -
  have find: "has_sub (needle ''id'') ''/item/{id}''" by code_simp
  have "check_target api_base api_base [] = Inr ()" by code_simp
  with find show ?thesis
    by (simp add: fetch_rows_def item_scan_def item_spec_def idle_spec_def with_safety_def idle_provider_def select_request_def
        page_request_def build_url_def url_part_def explode_pairs_def request_body_def page_lib_def page_server_def page_text_def
        handle_page_def response_json_def check_error_def extract_rows_def json_at_path_def path_body_def
        request_headers_def Let_def plan_err_def)
qed

lemma item_table: "lookup_table page_lib cell_lib (\<lambda>i n. page_server 1) 0 item_scan ''id'' (\<lambda>v. [JNum ''3''])"
proof -
  have "df_spec item_scan = item_spec" "df_filters item_scan = []" by (simp_all add: item_scan_def)
  moreover have "unbound_required item_spec \<lparr>bi_params = [], bi_explode = [], bi_fanout = []\<rparr> = [''id'']" by code_simp
  moreover have "\<not> explodes item_spec ''id''" by code_simp
  moreover have "\<exists>b. build_batch cell_lib (schema_for item_spec) (effective_columns item_spec) [] [] = Inr b"
  proof -
    have "res_ok (build_batch cell_lib (schema_for item_spec) (effective_columns item_spec) [] []) \<noteq> None" by code_simp
    then show ?thesis by (cases "build_batch cell_lib (schema_for item_spec) (effective_columns item_spec) [] []") auto
  qed
  moreover have "\<exists>sch. projected_schema (df_projection item_scan) (schema_for item_spec) = Inr sch"
    by (simp add: item_scan_def projected_schema_def)
  ultimately show ?thesis
    using item_fetch by (simp add: lookup_table_def item_scan_bind Let_def)
      (simp add: item_defs)
qed


end
