(* ===== verification/Config_Semantic.thy ===== *)
theory Config_Semantic
  imports Metrics
begin

section \<open>Validation of the semantic configuration\<close>

text \<open>
  The semantic part of \<open>pawrly-config/src/validator.rs\<close>: models, metrics and the search for metric cycles, with
  \<open>ConfigError\<close> of \<open>pawrly-core/src/error.rs\<close> and the semantic block of \<open>types.rs\<close>.  A rule pushes its errors,
  so a validation is the list of errors it pushes, in order; messages keep the names they mention.  The lemmas
  show what a configuration without errors guarantees to the compiler of the semantic layer.
\<close>

subsection \<open>Errors and identifiers\<close>

datatype ConfigError =
    SchemaInvalid string string
  | TableInvalid string string string
  | SourceInvalid string string
  | SemanticInvalid string string
  | FunctionInvalid string string string
  | UnresolvedSecret string
  | UnresolvedEnv string
  | VariableInvalid string string
  | ReadFile string string
  | IncludeCycle string
  | DurationInvalid string
  | UnknownKind string
  | IoError string
  | YamlError string
  | UnsupportedVersion nat
  | InsecureSecretsFile string nat

record SemanticConfig =
  sc_models :: "SemanticModel list"
  sc_metrics :: "Metric list"
  sc_time_spine :: "TimeSpine option"

definition is_valid_identifier :: "string \<Rightarrow> bool" where
  "is_valid_identifier name =
     (case name of
        [] \<Rightarrow> False
      | c # cs \<Rightarrow> (is_ascii_alphabetic c \<or> c = CHR ''_'') \<and>
                  list_all (\<lambda>c. is_ascii_alphanumeric c \<or> c = CHR ''_'') cs)"

definition err_if :: "bool \<Rightarrow> 'e \<Rightarrow> 'e list" where
  "err_if b e = (if b then [e] else [])"

lemma err_if_Nil [simp]: "err_if b e = [] \<longleftrightarrow> \<not> b"
  by (simp add: err_if_def)

text \<open>
  A loop whose body sees the keys of the elements before (\<open>if !seen.insert(key) { .. }\<close>).
\<close>

fun each_seen :: "('a \<Rightarrow> 'k) \<Rightarrow> ('k list \<Rightarrow> 'a \<Rightarrow> 'e list) \<Rightarrow> 'k list \<Rightarrow> 'a list \<Rightarrow> 'e list" where
  "each_seen key body seen [] = []"
| "each_seen key body seen (x # xs) = body seen x @ each_seen key body (key x # seen) xs"

lemma each_seen_Nil:
  assumes "each_seen key body seen xs = []" "x \<in> set xs"
  shows "\<exists>seen'. body seen' x = []"
  using assms by (induction key body seen xs rule: each_seen.induct) auto

lemma each_seen_distinct:
  assumes "each_seen key body seen xs = []" "\<And>seen x. body seen x = [] \<Longrightarrow> key x \<notin> set seen"
  shows "distinct (map key xs) \<and> set (map key xs) \<inter> set seen = {}"
  using assms(1)
proof (induction xs arbitrary: seen)
  case (Cons x xs)
  from Cons.prems have "body seen x = []" "each_seen key body (key x # seen) xs = []" by simp_all
  with Cons.IH assms(2) have "distinct (map key xs)" "set (map key xs) \<inter> set (key x # seen) = {}" "key x \<notin> set seen"
    by blast+
  then show ?case by auto
qed simp

subsection \<open>Models\<close>

definition split_member_grain :: "string \<Rightarrow> string \<times> string option" where
  "split_member_grain s = (case split_once (CHR ''.'') s of Some (n, g) \<Rightarrow> (n, Some g) | None \<Rightarrow> (s, None))"

function check_params_loop :: "string \<Rightarrow> string + unit" where
  "check_params_loop rest =
     (case split_at_sub param_open rest of
        None \<Rightarrow> Inr ()
      | Some (_, after) \<Rightarrow>
          (case split_once (CHR ''}'') after of
             None \<Rightarrow> Inl ''unterminated `${param:...}` placeholder''
           | Some (name, rest') \<Rightarrow>
               if name = [] \<or> \<not> is_valid_identifier name
               then Inl (''`${param:'' @ name @ ''}` is not a valid identifier'')
               else check_params_loop rest'))"
  by pat_completeness auto
termination
  by (relation "measure length") (auto simp: split_once_Some_iff param_open_def dest!: split_at_sub_Some)

declare check_params_loop.simps [simp del]

definition check_predicate_params :: "string \<Rightarrow> string + unit" where
  "check_predicate_params pred = (if trim pred = [] then Inl ''predicate is empty'' else check_params_loop pred)"

definition check_source_ref :: "string list \<Rightarrow> string \<Rightarrow> string \<Rightarrow> ConfigError list" where
  "check_source_ref source_names model source =
     (case TableName_parse source of
        None \<Rightarrow> [SemanticInvalid model (''`source: '' @ source @ ''` must be in `source.table` form'')]
      | Some table \<Rightarrow>
          err_if (tn_schema table \<notin> set source_names)
            (SemanticInvalid model (''`source: '' @ source @ ''` references unknown source `'' @ tn_schema table @ ''`'')))"

text \<open>\<open>min_by_key\<close> returns the first of the minimal elements.\<close>

definition min_grain :: "TimeGrain list \<Rightarrow> TimeGrain option" where
  "min_grain gs =
     (case gs of [] \<Rightarrow> None | g # gs \<Rightarrow> Some (foldl (\<lambda>a b. if grain_rank b < grain_rank a then b else a) g gs))"

definition finest_grains :: "Dimension list \<Rightarrow> (string, TimeGrain) hmap" where
  "finest_grains dims =
     fold (\<lambda>d m. case min_grain (d_time_grains d) of Some g \<Rightarrow> hm_insert (d_name d) g m | None \<Rightarrow> m) dims []"

definition check_dimension :: "string \<Rightarrow> string list \<Rightarrow> Dimension \<Rightarrow> ConfigError list" where
  "check_dimension model seen d =
     err_if (d_name d = [] \<or> \<not> is_valid_identifier (d_name d))
       (SemanticInvalid model (''dimension `'' @ d_name d @ ''` name must be a valid SQL identifier'')) @
     err_if (d_name d \<in> set seen) (SemanticInvalid model (''duplicate dimension `'' @ d_name d @ ''`'')) @
     err_if (d_time_grains d \<noteq> [] \<and> d_data_type d \<noteq> TTime)
       (SemanticInvalid model (''dimension `'' @ d_name d @ ''` declares `grains:` but is not `type: time`''))"

definition check_measure :: "string \<Rightarrow> string list \<Rightarrow> string list \<Rightarrow> Measure \<Rightarrow> ConfigError list" where
  "check_measure model dim_names seen msr =
     err_if (ms_name msr = [] \<or> \<not> is_valid_identifier (ms_name msr))
       (SemanticInvalid model (''measure `'' @ ms_name msr @ ''` name must be a valid SQL identifier'')) @
     err_if (ms_name msr \<in> set seen) (SemanticInvalid model (''duplicate measure `'' @ ms_name msr @ ''`'')) @
     err_if (ms_name msr \<in> set dim_names)
       (SemanticInvalid model (''`'' @ ms_name msr @ ''` is used by both a dimension and a measure'')) @
     (case ms_agg msr of
        Custom sql \<Rightarrow> err_if (trim sql = [])
          (SemanticInvalid model (''measure `'' @ ms_name msr @ ''` has a `custom` aggregate with empty `sql`''))
      | _ \<Rightarrow> [])"

definition check_relationship :: "string \<Rightarrow> string list \<Rightarrow> string list \<Rightarrow> Relationship \<Rightarrow> ConfigError list" where
  "check_relationship model model_names seen rel =
     err_if (r_name rel \<in> set seen) (SemanticInvalid model (''duplicate relationship `'' @ r_name rel @ ''`'')) @
     err_if (r_target_model rel \<notin> set model_names)
       (SemanticInvalid model (''relationship `'' @ r_name rel @ ''` targets unknown model `'' @ r_target_model rel @ ''`'')) @
     err_if (trim (r_join_predicate rel) = [])
       (SemanticInvalid model (''relationship `'' @ r_name rel @ ''` has an empty `on` join predicate''))"

definition check_pre_dimension :: "string \<Rightarrow> string list \<Rightarrow> (string, TimeGrain) hmap \<Rightarrow> string \<Rightarrow> string \<Rightarrow> ConfigError list" where
  "check_pre_dimension model dim_names finest pre dim_ref =
     (case split_member_grain dim_ref of (name, grain) \<Rightarrow>
        if name \<notin> set dim_names
        then [SemanticInvalid model (''pre-aggregation `'' @ pre @ ''` references unknown dimension `'' @ name @ ''`'')]
        else case grain of
               None \<Rightarrow> []
             | Some grain_str \<Rightarrow>
                 (case grain_parse grain_str of
                    None \<Rightarrow> [SemanticInvalid model (''pre-aggregation `'' @ pre @ ''` uses invalid grain `'' @ grain_str @
                               ''` on `'' @ name @ ''`'')]
                  | Some g \<Rightarrow>
                      (case hm_get finest name of
                         None \<Rightarrow> []
                       | Some f \<Rightarrow> err_if (grain_rank g < grain_rank f)
                           (SemanticInvalid model (''pre-aggregation `'' @ pre @ ''` grain `'' @ grain_str @ ''` on `'' @ name @
                             ''` is finer than the dimension's finest declared grain `'' @ grain_as_str f @ ''`'')))))"

definition check_pre_aggregation ::
  "string \<Rightarrow> string list \<Rightarrow> (string, TimeGrain) hmap \<Rightarrow> string list \<Rightarrow> string list \<Rightarrow> PreAggregation \<Rightarrow> ConfigError list" where
  "check_pre_aggregation model dim_names finest measure_names seen pre =
     err_if (pa_name pre \<in> set seen) (SemanticInvalid model (''duplicate pre-aggregation `'' @ pa_name pre @ ''`'')) @
     concat (map (check_pre_dimension model dim_names finest (pa_name pre)) (pa_dimensions pre)) @
     concat (map (\<lambda>m. err_if (m \<notin> set measure_names)
       (SemanticInvalid model (''pre-aggregation `'' @ pa_name pre @ ''` references unknown measure `'' @ m @ ''`''))) (pa_measures pre)) @
     (case pa_partition_by pre of
        None \<Rightarrow> []
      | Some part \<Rightarrow>
          (let name = fst (split_member_grain part) in
           err_if (name \<notin> set dim_names)
             (SemanticInvalid model (''pre-aggregation `'' @ pa_name pre @ ''` partitions by unknown dimension `'' @ name @ ''`''))))"

definition check_safety :: "string \<Rightarrow> string list \<Rightarrow> SafetyPolicy option \<Rightarrow> ConfigError list" where
  "check_safety model dim_names safety =
     (case safety of
        None \<Rightarrow> []
      | Some s \<Rightarrow>
          concat (map (\<lambda>col. err_if (col \<notin> set dim_names)
            (SemanticInvalid model (''`safety.require_filters_on` references unknown dimension `'' @ col @ ''`''))) (require_filters_on s)) @
          concat (map (\<lambda>pred. case check_predicate_params pred of
              Inl msg \<Rightarrow> [SemanticInvalid model (''`safety.required_predicates` entry `'' @ pred @ ''`: '' @ msg)]
            | Inr _ \<Rightarrow> []) (required_predicates s)))"

definition check_segment_filter :: "string \<Rightarrow> string list \<Rightarrow> string list \<Rightarrow> string \<Rightarrow> SemanticFilter \<Rightarrow> ConfigError list" where
  "check_segment_filter model dim_names measure_names seg f =
     (case split_once (CHR ''.'') (f_member f) of
        None \<Rightarrow> [SemanticInvalid model (''segment `'' @ seg @ ''` filter member `'' @ f_member f @ ''` must be `model.field`'')]
      | Some (of_model, rest) \<Rightarrow>
          (let field = hd (split_on (CHR ''.'') rest) in
           err_if (of_model = model \<and> field \<notin> set dim_names \<and> field \<notin> set measure_names)
             (SemanticInvalid model (''segment `'' @ seg @ ''` references unknown member `'' @ f_member f @ ''`''))))"

definition check_segment :: "string \<Rightarrow> string list \<Rightarrow> string list \<Rightarrow> string list \<Rightarrow> Segment \<Rightarrow> ConfigError list" where
  "check_segment model dim_names measure_names seen seg =
     err_if (seg_name seg = [] \<or> \<not> is_valid_identifier (seg_name seg))
       (SemanticInvalid model (''segment `'' @ seg_name seg @ ''` name must be a valid SQL identifier'')) @
     err_if (seg_name seg \<in> set seen) (SemanticInvalid model (''duplicate segment `'' @ seg_name seg @ ''`'')) @
     err_if (seg_filters seg = []) (SemanticInvalid model (''segment `'' @ seg_name seg @ ''` has no filters'')) @
     concat (map (check_segment_filter model dim_names measure_names (seg_name seg)) (seg_filters seg))"

definition validate_model :: "string list \<Rightarrow> string list \<Rightarrow> string list \<Rightarrow> SemanticModel \<Rightarrow> ConfigError list" where
  "validate_model model_names source_names seen model =
     (let name = m_name model;
          dim_names = map d_name (m_dimensions model); measure_names = map ms_name (m_measures model);
          finest = finest_grains (m_dimensions model)
      in err_if (name = [] \<or> \<not> is_valid_identifier name) (SemanticInvalid name ''model `name:` must be a valid SQL identifier'') @
         err_if (name \<in> set seen) (SemanticInvalid name ''duplicate model name'') @
         check_source_ref source_names name (m_source model) @
         each_seen d_name (check_dimension name) [] (m_dimensions model) @
         each_seen ms_name (check_measure name dim_names) [] (m_measures model) @
         each_seen r_name (check_relationship name model_names) [] (m_relationships model) @
         each_seen pa_name (check_pre_aggregation name dim_names finest measure_names) [] (m_pre_aggregations model) @
         check_safety name dim_names (m_safety model) @
         each_seen seg_name (check_segment name dim_names measure_names) [] (m_segments model))"

definition validate_semantic :: "SemanticModel list \<Rightarrow> string list \<Rightarrow> ConfigError list" where
  "validate_semantic models source_names =
     each_seen m_name (validate_model (map m_name models) source_names) [] models"

subsection \<open>Metrics\<close>

definition check_time_spine :: "string list \<Rightarrow> TimeSpine option \<Rightarrow> ConfigError list" where
  "check_time_spine source_names spine =
     (case spine of
        None \<Rightarrow> []
      | Some s \<Rightarrow>
          check_source_ref source_names ''time_spine'' (ts_source s) @
          err_if (ts_column s = [] \<or> \<not> is_valid_identifier (ts_column s))
            (SemanticInvalid ''time_spine'' ''`column:` must be a valid SQL identifier''))"

text \<open>The models and metrics by name, as the hash maps of the code keep them: the last of a name wins.\<close>

definition model_map :: "SemanticModel list \<Rightarrow> (string, SemanticModel) hmap" where
  "model_map models = fold (\<lambda>m. hm_insert (m_name m) m) models []"

definition check_member :: "SemanticModel list \<Rightarrow> string list \<Rightarrow> string \<Rightarrow> string \<Rightarrow> ConfigError list" where
  "check_member models metric_names metric member =
     (case split_once (CHR ''.'') member of
        Some (model_name, msr) \<Rightarrow>
          (case hm_get (model_map models) model_name of
             None \<Rightarrow> [SemanticInvalid metric (''references unknown model `'' @ model_name @ ''` (in `'' @ member @ ''`)'')]
           | Some model \<Rightarrow> err_if (\<not> list_ex (\<lambda>m. ms_name m = msr) (m_measures model))
               (SemanticInvalid metric (''references unknown measure `'' @ member @ ''` on model `'' @ model_name @ ''`'')))
      | None \<Rightarrow> err_if (member \<notin> set metric_names)
          (SemanticInvalid metric (''references unknown metric `'' @ member @ ''`'')))"

definition check_window_base :: "SemanticModel list \<Rightarrow> string \<Rightarrow> string \<Rightarrow> ConfigError list" where
  "check_window_base models metric msr =
     (case split_once (CHR ''.'') msr of
        None \<Rightarrow> [SemanticInvalid metric (''window metric must reference a `model.measure`, got `'' @ msr @ ''`'')]
      | Some (model_name, _) \<Rightarrow>
          (case hm_get (model_map models) model_name of
             None \<Rightarrow> []
           | Some model \<Rightarrow>
               err_if (\<not> list_ex (\<lambda>d. d_data_type d = TTime \<and> d_time_grains d \<noteq> []) (m_dimensions model))
                 (SemanticInvalid metric (''model `'' @ model_name @ ''` declares no `type: time` dimension with grains'' @
                   '' (a window metric needs an ordering key)''))))"

definition check_over :: "SemanticModel list \<Rightarrow> string \<Rightarrow> string \<Rightarrow> ConfigError list" where
  "check_over models metric over_dim =
     (case split_once (CHR ''.'') over_dim of
        None \<Rightarrow> [SemanticInvalid metric (''`over` entry `'' @ over_dim @ ''` must be `model.dimension`'')]
      | Some (model_name, dim_name) \<Rightarrow>
          (case hm_get (model_map models) model_name of
             None \<Rightarrow> [SemanticInvalid metric (''`over` entry `'' @ over_dim @ ''` references unknown model `'' @ model_name @ ''`'')]
           | Some model \<Rightarrow> err_if (\<not> list_ex (\<lambda>d. d_name d = dim_name) (m_dimensions model))
               (SemanticInvalid metric (''`over` entry `'' @ over_dim @ ''` references unknown dimension''))))"

definition check_kind :: "SemanticModel list \<Rightarrow> string \<Rightarrow> MetricKind \<Rightarrow> ConfigError list" where
  "check_kind models metric kind =
     (case kind of
        Cumulative msr window _ \<Rightarrow>
          err_if (window = Trailing 0) (SemanticInvalid metric ''`trailing.periods` must be at least 1'') @
          check_window_base models metric msr
      | Offset msr periods _ \<Rightarrow>
          err_if (periods = 0) (SemanticInvalid metric ''`offset.periods` must be at least 1'') @
          check_window_base models metric msr
      | Share msr over _ \<Rightarrow>
          err_if (\<not> has_dot msr)
            (SemanticInvalid metric (''share metric must reference a `model.measure`, got `'' @ msr @ ''`'')) @
          concat (map (check_over models metric) over)
      | _ \<Rightarrow> [])"

definition validate_metric :: "SemanticModel list \<Rightarrow> string list \<Rightarrow> string list \<Rightarrow> Metric \<Rightarrow> ConfigError list" where
  "validate_metric models metric_names seen metric =
     (let name = mt_name metric in
      err_if (name = [] \<or> \<not> is_valid_identifier name)
        (SemanticInvalid name ''metric `name:` must be a valid, dot-free SQL identifier'') @
      err_if (hm_get (model_map models) name \<noteq> None) (SemanticInvalid name ''metric name collides with a model name'') @
      err_if (name \<in> set seen) (SemanticInvalid name ''duplicate metric name'') @
      (case metric_references metric of
         Inl msg \<Rightarrow> [SemanticInvalid name msg]
       | Inr refs \<Rightarrow> concat (map (\<lambda>(member, _). check_member models metric_names name member) refs)) @
      err_if (case mt_filter metric of Some f \<Rightarrow> trim f = [] | None \<Rightarrow> False) (SemanticInvalid name ''`filter:` must not be empty'') @
      check_kind models name (mt_kind metric))"

text \<open>
  The search for cycles.  \<open>visiting\<close> is the stack, restored when a node is left; \<open>done\<close> and \<open>cyclic\<close> are threaded
  through.
\<close>

type_synonym ref_graph = "(string, string list) hmap"

definition metric_adjacency :: "Metric list \<Rightarrow> ref_graph" where
  "metric_adjacency metrics =
     fold (\<lambda>m. hm_insert (mt_name m)
       (filter (\<lambda>member. \<not> has_dot member) (map fst (case metric_references m of Inr rs \<Rightarrow> rs | Inl _ \<Rightarrow> [])))) metrics []"

function visit :: "ref_graph \<Rightarrow> string \<Rightarrow> string list \<Rightarrow> string list \<times> string list \<Rightarrow> string list \<times> string list"
  and visit_all :: "ref_graph \<Rightarrow> string list \<Rightarrow> string list \<Rightarrow> string list \<times> string list \<Rightarrow> string list \<times> string list" where
  "visit adj node visiting st =
     (case st of (dones, cyclic) \<Rightarrow>
        if node \<in> set dones then st
        else if node \<in> set visiting then (dones, push_new node cyclic)
        else case hm_get adj node of
               None \<Rightarrow> (push_new node dones, cyclic)
             | Some next_nodes \<Rightarrow>
                 (case visit_all adj (filter (\<lambda>n. hm_get adj n \<noteq> None) next_nodes) (visiting @ [node]) st of
                    (dones', cyclic') \<Rightarrow> (push_new node dones', cyclic')))"
| "visit_all adj [] visiting st = st"
| "visit_all adj (n # ns) visiting st = visit_all adj ns visiting (visit adj n visiting st)"
  by pat_completeness auto
termination
proof (relation "inv_image (less_than <*lex*> less_than) (\<lambda>x. case x of
      Inl (adj, node, visiting, st) \<Rightarrow> (card (fst ` set adj - set visiting), 0)
    | Inr (adj, ns, visiting, st) \<Rightarrow> (card (fst ` set adj - set visiting), Suc (length ns)))", goal_cases)
  case (2 adj node visiting st dones cyclic next_nodes)
  have "node \<in> fst ` set adj" using 2(4) by (auto dest: map_of_SomeD intro: rev_image_eqI)
  then have "card (fst ` set adj - set (visiting @ [node])) < card (fst ` set adj - set visiting)"
    using 2(3) by (intro psubset_card_mono) auto
  then show ?case by simp
qed auto

declare visit.simps [simp del]

definition find_metric_cycles :: "(string list \<Rightarrow> string list) \<Rightarrow> Metric list \<Rightarrow> string list" where
  "find_metric_cycles key_order metrics =
     (let adj = metric_adjacency metrics;
          (_, cyclic) = fold (\<lambda>name st. visit adj name [] st) (key_order (map fst adj)) ([], [])
      in sort cyclic)"

definition validate_metrics :: "(string list \<Rightarrow> string list) \<Rightarrow> SemanticConfig \<Rightarrow> string list \<Rightarrow> ConfigError list" where
  "validate_metrics key_order semantic source_names =
     check_time_spine source_names (sc_time_spine semantic) @
     each_seen mt_name (validate_metric (sc_models semantic) (map mt_name (sc_metrics semantic))) [] (sc_metrics semantic) @
     map (\<lambda>name. SemanticInvalid name (''metric reference cycle through `'' @ name @ ''`''))
       (find_metric_cycles key_order (sc_metrics semantic))"

subsection \<open>The search finds the cycles\<close>

definition ref_edge :: "ref_graph \<Rightarrow> string \<Rightarrow> string \<Rightarrow> bool" where
  "ref_edge adj a b \<longleftrightarrow> (\<exists>ns. hm_get adj a = Some ns \<and> b \<in> set ns \<and> hm_get adj b \<noteq> None)"

lemma visit_all_fold: "visit_all adj ns visiting st = fold (\<lambda>n st. visit adj n visiting st) ns st"
  by (induction ns arbitrary: st) auto

text \<open>What is reported lies on a cycle, given that the stack is a path to the node.\<close>

lemma visit_sound:
  "(\<And>v. v \<in> set visiting \<Longrightarrow> (ref_edge adj)\<^sup>+\<^sup>+ v node) \<Longrightarrow> hm_get adj node \<noteq> None \<Longrightarrow>
     (\<forall>c\<in>set (snd st). (ref_edge adj)\<^sup>+\<^sup>+ c c) \<Longrightarrow>
     \<forall>c\<in>set (snd (visit adj node visiting st)). (ref_edge adj)\<^sup>+\<^sup>+ c c"
  "(\<And>v n. v \<in> set visiting \<Longrightarrow> n \<in> set ns \<Longrightarrow> (ref_edge adj)\<^sup>+\<^sup>+ v n) \<Longrightarrow> \<forall>n\<in>set ns. hm_get adj n \<noteq> None \<Longrightarrow>
     (\<forall>c\<in>set (snd st). (ref_edge adj)\<^sup>+\<^sup>+ c c) \<Longrightarrow>
     \<forall>c\<in>set (snd (visit_all adj ns visiting st)). (ref_edge adj)\<^sup>+\<^sup>+ c c"
proof (induction adj node visiting st and adj ns visiting st rule: visit_visit_all.induct)
  case (1 adj node visiting st)
  obtain dones cyclic where st: "st = (dones, cyclic)" by fastforce
  consider "node \<in> set dones" | "node \<notin> set dones" "node \<in> set visiting"
    | "node \<notin> set dones" "node \<notin> set visiting" by blast
  then show ?case
  proof cases
    case 3
    from "1.prems"(2) obtain ns where ns: "hm_get adj node = Some ns" by auto
    have edge: "ref_edge adj node n" if "n \<in> set (filter (\<lambda>n. hm_get adj n \<noteq> None) ns)" for n
      using that ns by (auto simp: ref_edge_def)
    have path: "(ref_edge adj)\<^sup>+\<^sup>+ v n"
      if "v \<in> set (visiting @ [node])" "n \<in> set (filter (\<lambda>n. hm_get adj n \<noteq> None) ns)" for v n
      using that "1.prems"(1) edge by (auto intro: tranclp.intros)
    have "\<forall>c\<in>set (snd (visit_all adj (filter (\<lambda>n. hm_get adj n \<noteq> None) ns) (visiting @ [node]) st)).
        (ref_edge adj)\<^sup>+\<^sup>+ c c"
      by (rule 1(1) [OF st [symmetric] 3 ns]) (use path "1.prems"(3) in auto)
    moreover have "snd (visit adj node visiting st) =
        snd (visit_all adj (filter (\<lambda>n. hm_get adj n \<noteq> None) ns) (visiting @ [node]) st)"
      using st 3 ns by (simp add: visit.simps [of adj node] split_beta)
    ultimately show ?thesis by simp
  qed (use "1.prems" st in \<open>simp_all add: visit.simps\<close>)
next
  case (3 adj n ns visiting st)
  have "\<forall>c\<in>set (snd (visit adj n visiting st)). (ref_edge adj)\<^sup>+\<^sup>+ c c"
    by (rule "3.IH"(1)) (use "3.prems" in simp_all)
  then have "\<forall>c\<in>set (snd (visit_all adj ns visiting (visit adj n visiting st))). (ref_edge adj)\<^sup>+\<^sup>+ c c"
    by (intro "3.IH"(2)) (use "3.prems" in simp_all)
  then show ?case by simp
qed simp

text \<open>What a call leaves alone: finished nodes stay finished, found cycles stay found, nodes on the stack are not finished.\<close>

lemma visit_mono:
  "set (fst st) \<subseteq> set (fst (visit adj node visiting st)) \<and> set (snd st) \<subseteq> set (snd (visit adj node visiting st)) \<and>
     set (fst (visit adj node visiting st)) \<inter> set visiting \<subseteq> set (fst st)"
  "set (fst st) \<subseteq> set (fst (visit_all adj ns visiting st)) \<and> set (snd st) \<subseteq> set (snd (visit_all adj ns visiting st)) \<and>
     set (fst (visit_all adj ns visiting st)) \<inter> set visiting \<subseteq> set (fst st)"
proof (induction adj node visiting st and adj ns visiting st rule: visit_visit_all.induct)
  case (1 adj node visiting st)
  obtain dones cyclic where st: "st = (dones, cyclic)" by fastforce
  show ?case
  proof (cases "node \<in> set dones \<or> node \<in> set visiting \<or> hm_get adj node = None")
    case False
    then obtain ns where ns: "hm_get adj node = Some ns" by auto
    with False 1 [OF st [symmetric]] show ?thesis
      by (auto simp: visit.simps [of adj node] st split: prod.splits)
  qed (auto simp: st visit.simps)
next
  case (3 adj n ns visiting st)
  then show ?case by auto
qed simp

text \<open>As long as no cycle is found, the finished nodes are closed under references and none reaches itself.\<close>

definition finished :: "ref_graph \<Rightarrow> string list \<Rightarrow> bool" where
  "finished adj dones \<longleftrightarrow>
     (\<forall>d\<in>set dones. (\<forall>e. ref_edge adj d e \<longrightarrow> e \<in> set dones) \<and> \<not> (ref_edge adj)\<^sup>+\<^sup>+ d d)"

lemma finished_closed: "finished adj dones \<Longrightarrow> d \<in> set dones \<Longrightarrow> (ref_edge adj)\<^sup>*\<^sup>* d e \<Longrightarrow> e \<in> set dones"
  by (rotate_tac 2, induction rule: rtranclp_induct) (auto simp: finished_def)

lemma finished_push:
  assumes "finished adj dones" "node \<notin> set dones" "\<And>e. ref_edge adj node e \<Longrightarrow> e \<in> set dones"
  shows "finished adj (push_new node dones)"
proof -
  have "\<not> (ref_edge adj)\<^sup>+\<^sup>+ node node"
  proof
    assume "(ref_edge adj)\<^sup>+\<^sup>+ node node"
    then obtain e where "ref_edge adj node e" "(ref_edge adj)\<^sup>*\<^sup>* e node" by (meson tranclpD)
    with assms finished_closed show False by blast
  qed
  with assms show ?thesis by (auto simp: finished_def)
qed

lemma visit_complete:
  "snd (visit adj node visiting st) = [] \<Longrightarrow> hm_get adj node \<noteq> None \<Longrightarrow> finished adj (fst st) \<Longrightarrow>
     finished adj (fst (visit adj node visiting st)) \<and> node \<in> set (fst (visit adj node visiting st))"
  "snd (visit_all adj ns visiting st) = [] \<Longrightarrow> \<forall>n\<in>set ns. hm_get adj n \<noteq> None \<Longrightarrow> finished adj (fst st) \<Longrightarrow>
     finished adj (fst (visit_all adj ns visiting st)) \<and> set ns \<subseteq> set (fst (visit_all adj ns visiting st))"
proof (induction adj node visiting st and adj ns visiting st rule: visit_visit_all.induct)
  case (1 adj node visiting st)
  obtain dones cyclic where st: "st = (dones, cyclic)" by fastforce
  consider "node \<in> set dones" | "node \<notin> set dones" "node \<in> set visiting"
    | "node \<notin> set dones" "node \<notin> set visiting" by blast
  then show ?case
  proof cases
    case 2
    then have "node \<in> set (snd (visit adj node visiting st))" by (simp add: visit.simps st)
    with "1.prems"(1) show ?thesis by simp
  next
    case 3
    from "1.prems"(2) obtain ns where ns: "hm_get adj node = Some ns" by auto
    let ?ns = "filter (\<lambda>n. hm_get adj n \<noteq> None) ns"
    obtain dones' cyclic' where sub: "visit_all adj ?ns (visiting @ [node]) st = (dones', cyclic')" by fastforce
    have v: "visit adj node visiting st = (push_new node dones', cyclic')"
      using st 3 ns sub by (simp add: visit.simps [of adj node visiting])
    with "1.prems"(1) sub have none: "snd (visit_all adj ?ns (visiting @ [node]) st) = []" by simp
    have "finished adj dones' \<and> set ?ns \<subseteq> set dones'"
      using 1(1) [OF st [symmetric] 3 ns none _ "1.prems"(3)] sub by simp
    then have fin: "finished adj dones'" "set ?ns \<subseteq> set dones'" by simp_all
    have "node \<notin> set dones'" using visit_mono(2) [of st adj ?ns "visiting @ [node]"] sub 3 st by auto
    moreover have "e \<in> set dones'" if "ref_edge adj node e" for e using that fin(2) ns by (auto simp: ref_edge_def)
    ultimately show ?thesis using fin(1) v by (simp add: finished_push)
  qed (use "1.prems" st in \<open>simp_all add: visit.simps\<close>)
next
  case (3 adj n ns visiting st)
  have none: "snd (visit adj n visiting st) = []"
    using "3.prems"(1) visit_mono(2) [of "visit adj n visiting st" adj ns visiting, THEN conjunct2, THEN conjunct1]
    by simp
  have "finished adj (fst (visit adj n visiting st)) \<and> n \<in> set (fst (visit adj n visiting st))"
    by (rule "3.IH"(1) [OF none]) (use "3.prems" in simp_all)
  moreover from this "3.prems" have
    "finished adj (fst (visit_all adj ns visiting (visit adj n visiting st))) \<and>
     set ns \<subseteq> set (fst (visit_all adj ns visiting (visit adj n visiting st)))"
    by (intro "3.IH"(2)) simp_all
  ultimately show ?case
    using visit_mono(2) [of "visit adj n visiting st" adj ns visiting] by auto
qed simp

lemma fold_hm_insert_map:
  "hm_get (fold (\<lambda>m. hm_insert (key m) (f m)) ms acc) k =
     (case find (\<lambda>m. key m = k) (rev ms) of Some m \<Rightarrow> Some (f m) | None \<Rightarrow> hm_get acc k)"
  by (induction ms arbitrary: acc) (auto simp: find_snoc split: option.splits)

lemma adjacency_get:
  "hm_get (metric_adjacency metrics) k =
     map_option (\<lambda>m. filter (\<lambda>member. \<not> has_dot member)
       (map fst (case metric_references m of Inr rs \<Rightarrow> rs | Inl _ \<Rightarrow> []))) (find (\<lambda>m. mt_name m = k) (rev metrics))"
  unfolding metric_adjacency_def fold_hm_insert_map by (auto split: option.split)

lemma ref_edge_known: "ref_edge adj a b \<Longrightarrow> a \<in> fst ` set adj"
  by (auto simp: ref_edge_def dest: map_of_SomeD intro: rev_image_eqI)

lemma metric_search:
  fixes key_order :: "string list \<Rightarrow> string list" and metrics :: "Metric list"
  assumes "\<And>ks. set (key_order ks) = set ks"
  defines "adj \<equiv> metric_adjacency metrics" and "found \<equiv> find_metric_cycles key_order metrics"
  shows "n \<in> set found \<Longrightarrow> (ref_edge adj)\<^sup>+\<^sup>+ n n"
    and "found = [] \<Longrightarrow> \<not> (ref_edge adj)\<^sup>+\<^sup>+ n n"
proof -
  let ?ks = "key_order (map fst adj)"
  obtain dones cyclic where run: "visit_all adj ?ks [] ([], []) = (dones, cyclic)" by fastforce
  then have out: "found = sort cyclic"
    by (simp add: found_def adj_def find_metric_cycles_def visit_all_fold [symmetric])
  have known: "\<forall>n\<in>set ?ks. hm_get adj n \<noteq> None" by (auto simp: assms(1) map_of_eq_None_iff)
  from visit_sound(2) [of "[]" ?ks adj "([], [])"] known run out
  show "n \<in> set found \<Longrightarrow> (ref_edge adj)\<^sup>+\<^sup>+ n n" by auto
  assume "found = []"
  with out have "cyclic = []" by (metis sort_Nil_iff)
  with visit_complete(2) [of adj ?ks "[]" "([], [])"] known run
  have fin: "finished adj dones" "set ?ks \<subseteq> set dones" by (auto simp: finished_def)
  show "\<not> (ref_edge adj)\<^sup>+\<^sup>+ n n"
  proof
    assume cyc: "(ref_edge adj)\<^sup>+\<^sup>+ n n"
    then obtain b where "ref_edge adj n b" by (meson tranclpD)
    with ref_edge_known have "n \<in> set ?ks" by (simp add: assms(1))
    with fin cyc show False by (auto simp: finished_def)
  qed
qed

text \<open>
  C18. The search for metric cycles is exact, whatever order the hash map gives the metrics in: every name
  reported is a metric that refers back to itself through other metrics, and nothing is reported only if no
  metric does.
\<close>

theorem find_metric_cycles_exact:
  fixes key_order :: "string list \<Rightarrow> string list"
  defines "refs metrics \<equiv> ref_edge (metric_adjacency metrics)"
  assumes "\<And>ks. set (key_order ks) = set ks"
  shows "(\<forall>n\<in>set (find_metric_cycles key_order metrics). (refs metrics)\<^sup>+\<^sup>+ n n) \<and>
    (find_metric_cycles key_order metrics = [] \<longleftrightarrow> (\<nexists>n. (refs metrics)\<^sup>+\<^sup>+ n n))"
proof -
  have "\<exists>n. n \<in> set (find_metric_cycles key_order metrics)" if "find_metric_cycles key_order metrics \<noteq> []"
    using that by (metis list.set_intros(1) neq_Nil_conv)
  with metric_search [OF assms(2), where metrics = metrics] show ?thesis unfolding refs_def by blast
qed

text \<open>Which name of a cycle is reported depends on the order of the hash map.\<close>

definition tied_metrics :: "Metric list" where
  "tied_metrics = [derived_metric ''a'' ''1 + {b}'', derived_metric ''b'' ''{a} * 2'']"

lemma cycle_report_depends_on_order:
  "find_metric_cycles id tied_metrics = [''a''] \<and> find_metric_cycles rev tied_metrics = [''b'']"
  by code_simp

lemma find_metric_cycles_exact_witness:
  "set (find_metric_cycles rev tied_metrics) = {''b''} \<and>
   (ref_edge (metric_adjacency tied_metrics))\<^sup>+\<^sup>+ ''b'' ''b''"
proof -
  have run: "find_metric_cycles rev tied_metrics = [''b'']" by code_simp
  with find_metric_cycles_exact [of rev tied_metrics] show ?thesis by simp
qed

subsection \<open>What a validated configuration spares the compiler\<close>

definition known_member :: "SemanticCatalog \<Rightarrow> string \<Rightarrow> bool" where
  "known_member cat member \<longleftrightarrow>
     (case split_once (CHR ''.'') member of
        None \<Rightarrow> get_metric cat member \<noteq> None
      | Some (mname, msr) \<Rightarrow>
          (\<exists>model. get_model cat mname = Some model \<and> (\<exists>m\<in>set (m_measures model). ms_name m = msr)))"

lemma find_rev_mem: "find P (rev xs) = None \<longleftrightarrow> (\<forall>x\<in>set xs. \<not> P x)" "find P (rev xs) = Some x \<Longrightarrow> x \<in> set xs \<and> P x"
  by (auto simp: find_None_iff find_Some_iff) (metis nth_mem set_rev length_rev)

lemma new_get_metric:
  "get_metric (new_with_metrics models metrics) k = find (\<lambda>m. mt_name m = k) (rev metrics)"
  by (auto simp: get_metric_def new_with_metrics_def fold_hm_insert_get split: option.splits)

lemma check_member_known:
  "check_member models (map mt_name metrics) metric member = [] \<Longrightarrow> known_member (new_with_metrics models metrics) member"
  by (auto simp: check_member_def known_member_def model_map_def get_model_def new_with_metrics_def list_ex_iff
      new_get_metric [unfolded new_with_metrics_def] find_rev_mem(1) split: option.splits)

text \<open>The metrics of a catalog refer to members that exist, and window metrics to measures.\<close>

definition refs_known :: "SemanticCatalog \<Rightarrow> bool" where
  "refs_known cat \<longleftrightarrow>
     (\<forall>n m. get_metric cat n = Some m \<longrightarrow>
        (\<exists>rs. metric_references m = Inr rs \<and> (\<forall>r\<in>fst ` set rs. known_member cat r) \<and>
              ((\<forall>a b. mt_kind m \<noteq> Ratio a b) \<longrightarrow> (\<forall>e. mt_kind m \<noteq> Derived e) \<longrightarrow> (\<forall>r\<in>fst ` set rs. has_dot r))))"

lemma window_base_dot: "check_window_base models n msr = [] \<Longrightarrow> has_dot msr"
  by (auto simp: check_window_base_def has_dot_def split_once_None_iff split_once_Some_iff split: option.splits)

lemma validate_metric_known:
  assumes "validate_metric models (map mt_name metrics) seen m = []"
  shows "\<exists>rs. metric_references m = Inr rs \<and> (\<forall>r\<in>fst ` set rs. known_member (new_with_metrics models metrics) r) \<and>
    ((\<forall>a b. mt_kind m \<noteq> Ratio a b) \<longrightarrow> (\<forall>e. mt_kind m \<noteq> Derived e) \<longrightarrow> (\<forall>r\<in>fst ` set rs. has_dot r))"
proof -
  from assms obtain rs where rs: "metric_references m = Inr rs"
    and known: "\<And>r f. (r, f) \<in> set rs \<Longrightarrow> check_member models (map mt_name metrics) (mt_name m) r = []"
    and kind: "check_kind models (mt_name m) (mt_kind m) = []"
    by (fastforce simp: validate_metric_def Let_def split: sum.splits)
  have "\<forall>r\<in>fst ` set rs. has_dot r" if "\<forall>a b. mt_kind m \<noteq> Ratio a b" "\<forall>e. mt_kind m \<noteq> Derived e"
    using that kind rs by (auto simp: check_kind_def metric_references_def dest: window_base_dot split: MetricKind.splits)
  with rs known check_member_known show ?thesis by fastforce
qed

lemma validated_refs_known:
  assumes "validate_metrics key_order sc sources = []"
  shows "refs_known (new_with_metrics (sc_models sc) (sc_metrics sc))"
proof -
  from assms have "each_seen mt_name (validate_metric (sc_models sc) (map mt_name (sc_metrics sc))) [] (sc_metrics sc) = []"
    by (simp add: validate_metrics_def)
  from each_seen_Nil [OF this] validate_metric_known show ?thesis
    unfolding refs_known_def new_get_metric by (blast dest: find_rev_mem(2))
qed

lemma inlined_refs:
  "b \<in> set (inlined m) \<Longrightarrow> \<exists>rs. metric_references m = Inr rs \<and> b \<in> fst ` set rs \<and> \<not> has_dot b"
  by (cases "metric_references m") (auto simp: inlined_def split: MetricKind.splits)

lemma validated_no_cycle:
  assumes "\<And>ks. set (key_order ks) = set ks" "validate_metrics key_order sc sources = []"
  shows "\<not> (refers (new_with_metrics (sc_models sc) (sc_metrics sc)))\<^sup>+\<^sup>+ n n"
proof
  let ?cat = "new_with_metrics (sc_models sc) (sc_metrics sc)" and ?adj = "metric_adjacency (sc_metrics sc)"
  assume cyc: "(refers ?cat)\<^sup>+\<^sup>+ n n"
  have edge: "ref_edge ?adj a b" if "refers ?cat a b" "get_metric ?cat b \<noteq> None" for a b
  proof -
    from that(1) obtain m where m: "find (\<lambda>m. mt_name m = a) (rev (sc_metrics sc)) = Some m" and "b \<in> set (inlined m)"
      by (auto simp: refers_def new_get_metric)
    from inlined_refs [OF this(2)] obtain rs where
      rs: "metric_references m = Inr rs" "b \<in> fst ` set rs" "\<not> has_dot b" by blast
    with m have "hm_get ?adj a = Some (filter (\<lambda>x. \<not> has_dot x) (map fst rs))" by (simp add: adjacency_get)
    moreover have "hm_get ?adj b \<noteq> None" using that(2) by (simp add: adjacency_get new_get_metric)
    moreover have "b \<in> set (filter (\<lambda>x. \<not> has_dot x) (map fst rs))" using rs(2,3) by simp
    ultimately show ?thesis unfolding ref_edge_def by blast
  qed
  have known: "get_metric ?cat a \<noteq> None" if "(refers ?cat)\<^sup>+\<^sup>+ a b" for a b
    using tranclpD [OF that] by (auto simp: refers_def)
  have "(refers ?cat)\<^sup>+\<^sup>+ a b \<Longrightarrow> get_metric ?cat b \<noteq> None \<Longrightarrow> (ref_edge ?adj)\<^sup>+\<^sup>+ a b" for a b
  proof (induction rule: tranclp_induct)
    case (step b c)
    then have "get_metric ?cat b \<noteq> None" by (auto simp: refers_def)
    with step edge show ?case by (blast intro: tranclp.trancl_into_trancl)
  qed (use edge in auto)
  with cyc known have "(ref_edge ?adj)\<^sup>+\<^sup>+ n n" by blast
  with metric_search(2) [OF assms(1), where metrics = "sc_metrics sc"] assms(2) show False
    by (simp add: validate_metrics_def)
qed

text \<open>The errors left: those that the grouping of the query causes.\<close>

definition query_error :: "SemanticError \<Rightarrow> bool" where
  "query_error e \<longleftrightarrow>
     (\<exists>n. e = MetricNeedsTimeGrain n \<or> (\<exists>d. e = ShareDimNotGrouped n d) \<or>
          e = Compile (''metric `'' @ n @ ''`: group by exactly one time-grained dimension (found several)''))"

lemma window_query_error:
  "cumulative_expr ctx name col window agg = Inl e \<Longrightarrow> query_error e"
  "offset_expr ctx name col periods output = Inl e \<Longrightarrow> query_error e"
  by (auto simp: cumulative_expr_def offset_expr_def window_axis_def Let_def rbind_eq_Inl query_error_def
      split: list.splits prod.splits)

lemma leaf_known:
  assumes "known_member cat member" "has_dot member"
  shows "leaf cat member fs st \<noteq> Inl e"
proof -
  from assms obtain mname msr model where m: "split_once (CHR ''.'') member = Some (mname, msr)"
    "get_model cat mname = Some model" "\<exists>m\<in>set (m_measures model). ms_name m = msr"
    by (auto simp: known_member_def has_dot_def split_once_None_iff split: option.splits)
  then have "find (\<lambda>m. ms_name m = msr) (m_measures model) \<noteq> None" by (auto simp: find_None_iff)
  with m show ?thesis by (auto simp: leaf_def filtered_leaf_def Let_def rbind_eq_Inl split: option.splits)
qed

lemma metric_expr_known:
  "refs_known (x_catalog ctx) \<Longrightarrow> get_metric (x_catalog ctx) name \<noteq> None \<Longrightarrow>
     metric_expr ctx name inh vis st = Inl e \<Longrightarrow> query_error e \<or> (\<exists>n. e = MetricCycle n)"
  "refs_known (x_catalog ctx) \<Longrightarrow> known_member (x_catalog ctx) member \<Longrightarrow>
     member_expr ctx member fs vis st = Inl e \<Longrightarrow> query_error e \<or> (\<exists>n. e = MetricCycle n)"
  "refs_known (x_catalog ctx) \<Longrightarrow> derived_tokens_loop e0 rest = Inr (ts, r) \<Longrightarrow>
     \<forall>t\<in>set ts. known_member (x_catalog ctx) (dt_member t) \<Longrightarrow>
     derived_expr ctx base vis rest st = Inl e \<Longrightarrow> query_error e \<or> (\<exists>n. e = MetricCycle n)"
proof (induction ctx name inh vis st and ctx member fs vis st and ctx base vis rest st
    arbitrary: e and e and e0 ts r e rule: metric_expr_member_expr_derived_expr.induct)
  case (1 ctx name inh vis st)
  let ?cat = "x_catalog ctx"
  from 1(5) obtain m where m: "get_metric ?cat name = Some m" by auto
  from 1(4) [unfolded refs_known_def, rule_format, OF m] obtain rs where
    rs: "metric_references m = Inr rs" "\<forall>r\<in>fst ` set rs. known_member ?cat r"
    "(\<forall>a b. mt_kind m \<noteq> Ratio a b) \<longrightarrow> (\<forall>e. mt_kind m \<noteq> Derived e) \<longrightarrow> (\<forall>r\<in>fst ` set rs. has_dot r)"
    by (elim exE conjE)
  show ?case
  proof (cases "name \<in> set vis")
    case False
    show ?thesis
    proof (cases "mt_kind m")
      case (Ratio num den)
      with rs have "known_member ?cat (op_member num)" "known_member ?cat (op_member den)"
        by (auto simp: metric_references_def)
      with 1(6) m False Ratio show ?thesis
        using 1(1) [OF m False refl refl Ratio 1(4)] 1(2) [OF m False refl refl Ratio _ refl 1(4)]
        by (auto simp: metric_expr.simps [of ctx name] Let_def rbind_eq_Inl)
    next
      case (Derived expr)
      with rs(1) obtain ts where ts: "derived_tokens expr = Inr ts" and "rs = map (\<lambda>t. (dt_member t, dt_filter t)) ts"
        by (auto simp: metric_references_def rbind_eq_Inr)
      with rs(2) have known: "\<forall>t\<in>set ts. known_member ?cat (dt_member t)" by simp
      from derived_tokens_loop_Inr [OF ts] obtain r where "derived_tokens_loop expr expr = Inr (ts, r)" ..
      from 1(3) [OF m False refl refl Derived ts 1(4) this known] 1(6) m False Derived ts show ?thesis
        by (simp add: metric_expr.simps [of ctx name] Let_def)
    next
      case (Cumulative msr window agg)
      with rs have "known_member ?cat msr" "has_dot msr" by (auto simp: metric_references_def)
      with 1(6) m False Cumulative leaf_known window_query_error(1) show ?thesis
        by (auto simp: metric_expr.simps [of ctx name] Let_def rbind_eq_Inl)
    next
      case (Offset msr periods out_kind)
      with rs have "known_member ?cat msr" "has_dot msr" by (auto simp: metric_references_def)
      with 1(6) m False Offset leaf_known window_query_error(2) show ?thesis
        by (auto simp: metric_expr.simps [of ctx name] Let_def rbind_eq_Inl)
    next
      case (Share msr over agg)
      with rs have "known_member ?cat msr" "has_dot msr" by (auto simp: metric_references_def)
      with 1(6) m False Share leaf_known show ?thesis
        by (auto simp: metric_expr.simps [of ctx name] Let_def rbind_eq_Inl query_error_def split: option.splits)
    qed
  qed (use 1(6) m in \<open>auto simp: metric_expr.simps\<close>)
next
  case (2 ctx member fs vis st)
  show ?case
  proof (cases "has_dot member")
    case True
    with 2(4) leaf_known [OF 2(3) True] show ?thesis by (auto simp: member_expr.simps rbind_eq_Inl)
  next
    case False
    with 2(3) have "get_metric (x_catalog ctx) member \<noteq> None"
      by (auto simp: known_member_def has_dot_def split_once_Some_iff split: option.splits)
    with 2(1) [OF False 2(2)] 2(4) False show ?thesis by (simp add: member_expr.simps)
  qed
next
  case (3 ctx base vis rest st)
  note step = 3(6) [unfolded derived_expr.simps [of ctx base vis rest]]
  from step obtain before after body rest' where
    ba: "split_once (CHR ''{'') rest = Some (before, after)" and
    br: "split_once (CHR ''}'') after = Some (body, rest')" by (auto split: option.splits)
  from 3(4) ba br obtain ts' where ts: "derived_tokens_loop e0 rest' = Inr (ts', r)"
    "ts = \<lparr>dt_member = fst (split_token body), dt_filter = snd (split_token body)\<rparr> # ts'"
    by (subst (asm) derived_tokens_loop.simps)
      (auto simp: res_simps split_beta Let_def split: if_splits)
  with 3(5) have known: "known_member (x_catalog ctx) (fst (split_token body))"
    "\<forall>t\<in>set ts'. known_member (x_catalog ctx) (dt_member t)" by auto
  from step ba br show ?case
    using 3(1) [OF ba refl br refl 3(3) known(1)] 3(2) [OF ba refl br refl _ refl 3(3) ts(1) known(2)]
    by (auto simp: rbind_eq_Inl)
qed

text \<open>
  C14. Validation pays off at query time: when the \<open>metrics:\<close> block of a configuration has no error, rendering any
  of its metrics never fails because of the configuration (an unknown metric, model or measure, a cycle, a
  malformed expression).  What can still fail is the grouping of the query: no time grain, several, or a
  share over a dimension that is not grouped.
\<close>

theorem validated_metrics_expand:
  assumes "\<And>ks. set (key_order ks) = set ks" "validate_metrics key_order sc sources = []"
    "x_catalog ctx = new_with_metrics (sc_models sc) (sc_metrics sc)" "name \<in> mt_name ` set (sc_metrics sc)"
    "metric_expr ctx name [] [] st = Inl e"
  shows "query_error e"
proof -
  have "get_metric (x_catalog ctx) name \<noteq> None"
    using assms(4) by (auto simp: assms(3) new_get_metric find_rev_mem(1))
  from metric_expr_known(1) [OF _ this assms(5)] validated_refs_known [OF assms(2)] assms(3)
  consider "query_error e" | n where "e = MetricCycle n" by auto
  then show ?thesis
  proof cases
    case (2 n)
    with metric_cycle_real(1) [of "[]" ctx name "[]" st n] assms(5) have "(refers (x_catalog ctx))\<^sup>+\<^sup>+ n n" by simp
    with validated_no_cycle [OF assms(1,2)] show ?thesis unfolding assms(3) by blast
  qed
qed

text \<open>The names of one kind are distinct when each rule refuses a name that was seen before.\<close>

lemma validated_model:
  assumes "validate_model model_names sources seen m = []"
  shows "m_name m \<notin> set seen" "\<exists>t. TableName_parse (m_source m) = Some t \<and> tn_schema t \<in> set sources"
    "distinct (map d_name (m_dimensions m))" "distinct (map ms_name (m_measures m))"
    "\<And>d. d \<in> set (m_dimensions m) \<Longrightarrow> \<exists>seen. check_dimension (m_name m) seen d = []"
    "\<And>x. x \<in> set (m_measures m) \<Longrightarrow> \<exists>seen. check_measure (m_name m) (map d_name (m_dimensions m)) seen x = []"
    "\<And>r. r \<in> set (m_relationships m) \<Longrightarrow> \<exists>seen. check_relationship (m_name m) model_names seen r = []"
    "check_safety (m_name m) (map d_name (m_dimensions m)) (m_safety m) = []"
proof -
  from assms have loops: "check_source_ref sources (m_name m) (m_source m) = []"
    "each_seen d_name (check_dimension (m_name m)) [] (m_dimensions m) = []"
    "each_seen ms_name (check_measure (m_name m) (map d_name (m_dimensions m))) [] (m_measures m) = []"
    "each_seen r_name (check_relationship (m_name m) model_names) [] (m_relationships m) = []"
    "m_name m \<notin> set seen" "check_safety (m_name m) (map d_name (m_dimensions m)) (m_safety m) = []"
    by (simp_all add: validate_model_def Let_def)
  then show "m_name m \<notin> set seen" "check_safety (m_name m) (map d_name (m_dimensions m)) (m_safety m) = []"
    by simp_all
  show "\<exists>t. TableName_parse (m_source m) = Some t \<and> tn_schema t \<in> set sources"
    using loops(1) by (auto simp: check_source_ref_def split: option.splits)
  show "distinct (map d_name (m_dimensions m))"
    using each_seen_distinct [OF loops(2)] by (simp add: check_dimension_def)
  show "distinct (map ms_name (m_measures m))"
    using each_seen_distinct [OF loops(3)] by (simp add: check_measure_def)
  show "\<And>d. d \<in> set (m_dimensions m) \<Longrightarrow> \<exists>seen. check_dimension (m_name m) seen d = []"
    by (rule each_seen_Nil [OF loops(2)])
  show "\<And>x. x \<in> set (m_measures m) \<Longrightarrow> \<exists>seen. check_measure (m_name m) (map d_name (m_dimensions m)) seen x = []"
    by (rule each_seen_Nil [OF loops(3)])
  show "\<And>r. r \<in> set (m_relationships m) \<Longrightarrow> \<exists>seen. check_relationship (m_name m) model_names seen r = []"
    by (rule each_seen_Nil [OF loops(4)])
qed

lemma validated_models:
  assumes "validate_semantic models sources = []"
  shows "distinct (map m_name models)"
    "m \<in> set models \<Longrightarrow> \<exists>seen. validate_model (map m_name models) sources seen m = []"
  using each_seen_distinct [OF assms [unfolded validate_semantic_def]] validated_model(1)
    each_seen_Nil [OF assms [unfolded validate_semantic_def]] by blast+

lemma find_unique: "distinct (map key xs) \<Longrightarrow> x \<in> set xs \<Longrightarrow> find (\<lambda>y. key y = key x) xs = Some x"
  by (induction xs) (auto intro: rev_image_eqI)

text \<open>
  C15. What a \<open>semantic:\<close> block without errors guarantees to the compiler: the catalog built from it answers every
  declared model under its name with that very declaration; its source reads as \<open>source.table\<close> of a configured
  source; every dimension and measure is the one its name resolves to, no name is both; and every relationship
  leads to a model of the catalog.
\<close>

theorem validated_catalog_resolves:
  assumes "validate_semantic models sources = []" "m \<in> set models"
  shows "get_model (new_with_metrics models metrics) (m_name m) = Some m \<and>
    (\<exists>t. TableName_parse (m_source m) = Some t \<and> tn_schema t \<in> set sources) \<and>
    (\<forall>d\<in>set (m_dimensions m). is_valid_identifier (d_name d) \<and>
       find_dimension m (d_name d) = Some d \<and> find_measure m (d_name d) = None) \<and>
    (\<forall>x\<in>set (m_measures m). is_valid_identifier (ms_name x) \<and>
       find_measure m (ms_name x) = Some x \<and> find_dimension m (ms_name x) = None) \<and>
    (\<forall>r\<in>set (m_relationships m). get_model (new_with_metrics models metrics) (r_target_model r) \<noteq> None)"
proof -
  obtain seen where m: "validate_model (map m_name models) sources seen m = []"
    using validated_models(2) [OF assms] by blast
  note v = validated_model [OF m]
  have disj: "ms_name x \<noteq> d_name d" if "x \<in> set (m_measures m)" "d \<in> set (m_dimensions m)" for x d
    using v(6) [OF that(1)] that(2) by (auto simp: check_measure_def)
  show ?thesis
  proof (intro conjI)
  show "get_model (new_with_metrics models metrics) (m_name m) = Some m"
    unfolding new_get_model using validated_models(1) [OF assms(1)] assms(2)
    by (intro find_unique) (simp_all add: rev_map [symmetric])
  show "\<exists>t. TableName_parse (m_source m) = Some t \<and> tn_schema t \<in> set sources" by (rule v(2))
  show "\<forall>d\<in>set (m_dimensions m). is_valid_identifier (d_name d) \<and>
      find_dimension m (d_name d) = Some d \<and> find_measure m (d_name d) = None"
    using v(3,5) disj by (auto simp: check_dimension_def find_dimension_def find_measure_def find_unique find_None_iff)
  show "\<forall>x\<in>set (m_measures m). is_valid_identifier (ms_name x) \<and>
      find_measure m (ms_name x) = Some x \<and> find_dimension m (ms_name x) = None"
    using v(4,6) disj by (fastforce simp: check_measure_def find_dimension_def find_measure_def find_unique find_None_iff)
  show "\<forall>r\<in>set (m_relationships m). get_model (new_with_metrics models metrics) (r_target_model r) \<noteq> None"
  proof
    fix r assume "r \<in> set (m_relationships m)"
    from v(7) [OF this] show "get_model (new_with_metrics models metrics) (r_target_model r) \<noteq> None"
      by (auto simp: check_relationship_def new_get_model find_rev_mem(1))
  qed
  qed
qed

definition shop_models :: "SemanticModel list" where
  "shop_models = [shop_orders, shop_customers, shop_items]"

lemma shop_models_valid: "validate_semantic shop_models [''shop''] = []"
  by code_simp

theorem validated_catalog_resolves_witness:
  "get_model (new_with_metrics shop_models []) ''orders'' = Some shop_orders \<and>
   find_measure shop_orders ''total'' = Some (hd (m_measures shop_orders))"
  using validated_catalog_resolves [OF shop_models_valid, of shop_orders "[]"]
  by (simp add: shop_models_def shop_orders_def)

text \<open>The share of a metric configuration over the shop: a rate over a ratio.\<close>

definition shop_config :: SemanticConfig where
  "shop_config = \<lparr>sc_models = shop_models,
     sc_metrics = [derived_metric ''double'' ''2 * {orders.total}'',
       \<lparr>mt_name = ''running'', mt_description = None,
        mt_kind = Cumulative ''orders.total'' (Trailing 3) WSum, mt_filter = None, mt_format = None\<rparr>],
     sc_time_spine = None\<rparr>"

theorem validated_metrics_expand_witness: "query_error (MetricNeedsTimeGrain ''running'')"
proof -
  let ?ctx = "\<lparr>x_catalog = new_with_metrics (sc_models shop_config) (sc_metrics shop_config),
    x_query = shop_query, x_time_dims = [], x_dims_alias = agg_alias\<rparr>"
  have valid: "validate_metrics rev shop_config [''shop''] = []" by code_simp
  have run: "metric_expr ?ctx ''running'' [] [] empty_expansion = Inl (MetricNeedsTimeGrain ''running'')" by code_simp
  show ?thesis
    by (rule validated_metrics_expand [OF _ valid _ _ run]) (simp_all add: shop_config_def)
qed

subsection \<open>Required predicates\<close>

lemma check_params_binds:
  "check_params_loop rest = Inr () \<Longrightarrow> bind_params_loop pred params model rest = Inl e \<Longrightarrow>
     \<exists>name. e = UnboundParam model name \<and> is_valid_identifier name \<and> hm_get params name = None"
proof (induction rest rule: check_params_loop.induct)
  case (1 rest)
  note eqs = check_params_loop.simps [of rest] bind_params_loop.simps [of pred params model rest]
  from "1.prems" obtain before after name rest' where
    at: "split_at_sub param_open rest = Some (before, after)" "split_once (CHR ''}'') after = Some (name, rest')"
    by (auto simp: eqs split: option.splits)
  from "1.prems"(1) at have name: "name \<noteq> []" "is_valid_identifier name" "check_params_loop rest' = Inr ()"
    by (auto simp: eqs split: if_splits)
  with "1.IH" [OF at(1) refl at(2) refl] "1.prems"(2) at show ?case
    by (auto simp: eqs rbind_eq_Inl split: option.splits)
qed

text \<open>
  A required predicate of a validated configuration is well formed when it is bound: the only way to refuse a
  query then is a parameter, named by a valid identifier, that the query does not supply.
\<close>

lemma validated_predicate_binds:
  assumes "validate_semantic models sources = []" "m \<in> set models" "m_safety m = Some safety"
    "pred \<in> set (required_predicates safety)" "bind_params pred params (m_name m) = Inl e"
  shows "\<exists>name. e = UnboundParam (m_name m) name \<and> is_valid_identifier name \<and> hm_get params name = None"
proof -
  obtain seen where m: "validate_model (map m_name models) sources seen m = []"
    using validated_models(2) [OF assms(1,2)] by blast
  from validated_model(8) [OF this] assms(3,4) have "check_predicate_params pred = Inr ()"
    by (cases "check_predicate_params pred") (auto simp: check_safety_def split: sum.splits)
  then have "check_params_loop pred = Inr ()" by (auto simp: check_predicate_params_def split: if_splits)
  from check_params_binds [OF this assms(5) [unfolded bind_params_def]] show ?thesis .
qed

end
