(* ===== verification/Config_Vars.thy ===== *)
theory Config_Vars
  imports Config_Semantic Http_Scan
begin

section \<open>Variables and references of a configuration\<close>

text \<open>
  \<open>interpolate.rs\<close>, \<open>variables.rs\<close> and the resolving part of \<open>loader.rs\<close> in \<open>pawrly-config/src\<close>, with the
  descriptors of \<open>pawrly-core/src/variables.rs\<close>.  The tree is a JSON value whose numbers are the text that
  \<open>serde_json\<close> prints; a secret store and the store of variable values are the functions their traits provide.
  The environment, files, the URL parser and serde's reading of a definition are the argument \<open>ConfLib\<close>.
  Error texts keep the names they mention.
\<close>

subsection \<open>References to secrets, the environment and files\<close>

record ConfLib =
  cn_env :: "string \<Rightarrow> string option"
  cn_read_file :: "string \<Rightarrow> string + string"
  cn_f64 :: "string \<Rightarrow> string option"
  cn_show :: "json \<Rightarrow> string"
  cn_url :: "string \<Rightarrow> string + Url"
  cn_set_port :: "nat \<Rightarrow> Url \<Rightarrow> Url option"

type_synonym secret_store = "string \<Rightarrow> string + string option"

text \<open>\<open>s.trim().strip_prefix("${")?.strip_suffix('}')?.split_once(':')\<close>.\<close>

definition reference_parts :: "string \<Rightarrow> (string \<times> string) option" where
  "reference_parts s =
     Option.bind (strip_prefix ''${'' (trim s)) (\<lambda>rest.
     Option.bind (strip_suffix ''}'' rest) (\<lambda>body. split_once (CHR '':'') body))"

text \<open>\<open>Path::join\<close>: an absolute path replaces, otherwise one separator between the two.\<close>

definition is_absolute :: "string \<Rightarrow> bool" where
  "is_absolute p \<longleftrightarrow> starts_with ''/'' p"

definition path_join :: "string \<Rightarrow> string \<Rightarrow> string" where
  "path_join base p =
     (if is_absolute p \<or> base = [] then p
      else if last base = CHR ''/'' then base @ p
      else base @ ''/'' @ p)"

definition expand_tilde :: "ConfLib \<Rightarrow> string \<Rightarrow> string" where
  "expand_tilde lib inp =
     (case (strip_prefix ''~/'' inp, cn_env lib ''HOME'') of
        (Some rest, Some home) \<Rightarrow> path_join home rest
      | (None, Some home) \<Rightarrow> if inp = ''~'' then home else inp
      | _ \<Rightarrow> inp)"

definition io_err :: "string + 'a \<Rightarrow> ConfigError + 'a" where
  "io_err r = (case r of Inl e \<Rightarrow> Inl (IoError e) | Inr a \<Rightarrow> Inr a)"

definition resolve_one :: "ConfLib \<Rightarrow> secret_store \<Rightarrow> string \<Rightarrow> ConfigError + string option" where
  "resolve_one lib secrets s =
     (case reference_parts s of
        None \<Rightarrow> Inr None
      | Some (kind, target) \<Rightarrow>
          if kind = ''secret'' then
            rbind (io_err (secrets target)) (\<lambda>v. case v of Some x \<Rightarrow> Inr (Some x) | None \<Rightarrow> Inl (UnresolvedSecret target))
          else if kind = ''env'' then
            (case cn_env lib target of Some v \<Rightarrow> Inr (Some v) | None \<Rightarrow> Inl (UnresolvedEnv target))
          else if kind = ''file'' then
            (case cn_read_file lib (expand_tilde lib target) of
               Inr c \<Rightarrow> Inr (Some (trim c))
             | Inl e \<Rightarrow> Inl (ReadFile (expand_tilde lib target) e))
          else Inr None)"

fun interpolate :: "ConfLib \<Rightarrow> secret_store \<Rightarrow> json \<Rightarrow> ConfigError + json"
  and interpolate_items :: "ConfLib \<Rightarrow> secret_store \<Rightarrow> json list \<Rightarrow> ConfigError + json list"
  and interpolate_fields :: "ConfLib \<Rightarrow> secret_store \<Rightarrow> (string \<times> json) list \<Rightarrow> ConfigError + (string \<times> json) list" where
  "interpolate lib secrets (JStr s) =
     rbind (resolve_one lib secrets s) (\<lambda>r. Inr (JStr (case r of Some v \<Rightarrow> v | None \<Rightarrow> s)))"
| "interpolate lib secrets (JArr xs) = rbind (interpolate_items lib secrets xs) (\<lambda>ys. Inr (JArr ys))"
| "interpolate lib secrets (JObj m) = rbind (interpolate_fields lib secrets m) (\<lambda>m'. Inr (JObj m'))"
| "interpolate lib secrets v = Inr v"
| "interpolate_items lib secrets [] = Inr []"
| "interpolate_items lib secrets (x # xs) =
     rbind (interpolate lib secrets x) (\<lambda>y. rbind (interpolate_items lib secrets xs) (\<lambda>ys. Inr (y # ys)))"
| "interpolate_fields lib secrets [] = Inr []"
| "interpolate_fields lib secrets ((k, x) # m) =
     rbind (interpolate lib secrets x) (\<lambda>y. rbind (interpolate_fields lib secrets m) (\<lambda>m'. Inr ((k, y) # m')))"

subsection \<open>Definitions of variables\<close>

datatype VarKind = Variable | Secret

datatype VarType = VtString | VtInteger | VtNumber | VtBoolean | VtEnum

fun var_type_as_str :: "VarType \<Rightarrow> string" where
  "var_type_as_str VtString = ''string''"
| "var_type_as_str VtInteger = ''integer''"
| "var_type_as_str VtNumber = ''number''"
| "var_type_as_str VtBoolean = ''boolean''"
| "var_type_as_str VtEnum = ''enum''"

text \<open>\<open>is_i64() || is_u64()\<close> on the text of a number.\<close>

definition is_integer_text :: "string \<Rightarrow> bool" where
  "is_integer_text n \<longleftrightarrow> parse_sint 64 n \<noteq> None \<or> parse_uint 64 n \<noteq> None"

fun accepts :: "VarType \<Rightarrow> json \<Rightarrow> bool" where
  "accepts VtString v = (case v of JStr _ \<Rightarrow> True | _ \<Rightarrow> False)"
| "accepts VtInteger v = (case v of JNum n \<Rightarrow> is_integer_text n | _ \<Rightarrow> False)"
| "accepts VtNumber v = (case v of JNum _ \<Rightarrow> True | _ \<Rightarrow> False)"
| "accepts VtBoolean v = (case v of JBool _ \<Rightarrow> True | _ \<Rightarrow> False)"
| "accepts VtEnum v = True"

record InputMethod =
  im_input :: "string option"
  im_prompt :: "bool option"
  im_persist :: "string option"
  im_label :: "string option"

datatype CredentialMethod = Input InputMethod | Oauth json

record VariableDef =
  vd_kind :: VarKind
  vd_type :: "VarType option"
  vd_default :: "json option"
  vd_choices :: "json list"
  vd_required :: bool
  vd_description :: "string option"
  vd_methods :: "CredentialMethod list"
  vd_oauth :: "json option"
  vd_input :: "string option"

definition is_oauth :: "CredentialMethod \<Rightarrow> bool" where
  "is_oauth m = (case m of Oauth _ \<Rightarrow> True | Input _ \<Rightarrow> False)"

definition is_dynamic :: "VariableDef \<Rightarrow> bool" where
  "is_dynamic def \<longleftrightarrow> vd_oauth def \<noteq> None \<or> list_ex is_oauth (vd_methods def)"

definition has_input_method :: "VariableDef \<Rightarrow> bool" where
  "has_input_method def \<longleftrightarrow> vd_input def \<noteq> None \<or> list_ex (\<lambda>m. \<not> is_oauth m) (vd_methods def)"

definition var_type :: "VariableDef \<Rightarrow> VarType" where
  "var_type def = (case vd_type def of Some t \<Rightarrow> t | None \<Rightarrow> VtString)"

definition has_shorthand :: "VariableDef \<Rightarrow> bool" where
  "has_shorthand def \<longleftrightarrow> vd_oauth def \<noteq> None \<or> vd_input def \<noteq> None"

text \<open>\<open>iter().find_map(f)\<close>.\<close>

fun find_map :: "('a \<Rightarrow> 'b option) \<Rightarrow> 'a list \<Rightarrow> 'b option" where
  "find_map f [] = None"
| "find_map f (x # xs) = (case f x of Some y \<Rightarrow> Some y | None \<Rightarrow> find_map f xs)"

definition input_key :: "VariableDef \<Rightarrow> string option" where
  "input_key def =
     (case vd_input def of
        Some k \<Rightarrow> Some k
      | None \<Rightarrow> find_map (\<lambda>m. case m of Input im \<Rightarrow> im_input im | Oauth _ \<Rightarrow> None) (vd_methods def))"

definition oauth_body :: "VariableDef \<Rightarrow> json option" where
  "oauth_body def =
     (case vd_oauth def of
        Some v \<Rightarrow> Some v
      | None \<Rightarrow> find_map (\<lambda>m. case m of Oauth v \<Rightarrow> Some v | Input _ \<Rightarrow> None) (vd_methods def))"

definition value_to_string :: "ConfLib \<Rightarrow> json \<Rightarrow> string" where
  "value_to_string lib v = (case v of JStr s \<Rightarrow> s | _ \<Rightarrow> cn_show lib v)"

definition reserved_name_start :: string where
  "reserved_name_start = ''__pawrly''"

definition credential_terms :: "string list" where
  "credential_terms = [''token'', ''secret'', ''password'', ''passwd'', ''pwd'', ''apikey'', ''accesskey'', ''privatekey'',
     ''bearer'', ''credential'', ''clientsecret'']"

definition is_credential_like :: "string \<Rightarrow> bool" where
  "is_credential_like name =
     (let normalized = to_ascii_lowercase (filter is_ascii_alphanumeric name)
      in list_ex (\<lambda>t. split_at_sub t normalized \<noteq> None) credential_terms)"

definition validate_var_type :: "ConfLib \<Rightarrow> string \<Rightarrow> VariableDef \<Rightarrow> ConfigError + unit" where
  "validate_var_type lib name def =
     (case var_type def of
        VtEnum \<Rightarrow>
          if vd_choices def = [] then Inl (VariableInvalid name ''`type: enum` requires a non-empty `choices` list'')
          else (case vd_default def of
              Some d \<Rightarrow> if d \<notin> set (vd_choices def)
                then Inl (VariableInvalid name (''`default` `'' @ value_to_string lib d @ ''` is not one of the declared `choices`''))
                else Inr ()
            | None \<Rightarrow> Inr ())
      | other \<Rightarrow>
          if vd_choices def \<noteq> [] then Inl (VariableInvalid name ''`choices` is only valid with `type: enum`'')
          else (case vd_default def of
              Some d \<Rightarrow> if \<not> accepts other d
                then Inl (VariableInvalid name (''`default` `'' @ value_to_string lib d @ ''` does not match `type: '' @
                       var_type_as_str other @ ''`''))
                else Inr ()
            | None \<Rightarrow> Inr ()))"

definition validate_def :: "ConfLib \<Rightarrow> string \<Rightarrow> VariableDef \<Rightarrow> ConfigError + unit" where
  "validate_def lib name def =
     (if starts_with reserved_name_start name
      then Inl (VariableInvalid name (''name may not start with `'' @ reserved_name_start @ ''`''))
      else if vd_methods def \<noteq> [] \<and> has_shorthand def
      then Inl (VariableInvalid name ''use either `methods:` or the `oauth`/`input` shorthand, not both'')
      else case vd_kind def of
          Secret \<Rightarrow>
            if vd_default def \<noteq> None then Inl (VariableInvalid name ''`default` is not allowed on a `kind: secret`'')
            else if vd_type def \<noteq> None
            then Inl (VariableInvalid name ''`type` is only valid on a `kind: variable`; secrets are always opaque strings'')
            else if vd_choices def \<noteq> []
            then Inl (VariableInvalid name ''`choices` is only valid on a `kind: variable` with `type: enum`'')
            else Inr ()
        | Variable \<Rightarrow>
            if is_credential_like name
            then Inl (VariableInvalid name ''name looks like a credential; declare it as `kind: secret`'')
            else if is_dynamic def
            then Inl (VariableInvalid name ''a `kind: variable` may not use an `oauth` credential method (only `kind: secret` can)'')
            else validate_var_type lib name def)"

subsection \<open>Scopes\<close>

record ScopedVar =
  sv_def :: VariableDef
  sv_scope_id :: string

type_synonym VariableScope = "ScopedVar bmap"

fun parse_entries ::
  "ConfLib \<Rightarrow> (json \<Rightarrow> string + VariableDef) \<Rightarrow> string \<Rightarrow> (string \<times> json) list \<Rightarrow> VariableScope \<Rightarrow> ConfigError + VariableScope" where
  "parse_entries lib from_value scope_id [] out = Inr out"
| "parse_entries lib from_value scope_id ((name, raw) # obj) out =
     (case from_value raw of
        Inl e \<Rightarrow> Inl (VariableInvalid name e)
      | Inr def \<Rightarrow>
          rbind (validate_def lib name def) (\<lambda>_.
            parse_entries lib from_value scope_id obj (bt_insert name \<lparr>sv_def = def, sv_scope_id = scope_id\<rparr> out)))"

definition parse_block ::
  "ConfLib \<Rightarrow> (json \<Rightarrow> string + VariableDef) \<Rightarrow> json \<Rightarrow> string \<Rightarrow> ConfigError + VariableScope" where
  "parse_block lib from_value block scope_id =
     (case block of
        JObj obj \<Rightarrow> parse_entries lib from_value scope_id obj []
      | _ \<Rightarrow> Inl (VariableInvalid ''<block>'' ''`variables:` must be a mapping of NAME to a definition''))"

definition merge_into :: "VariableScope \<Rightarrow> VariableScope \<Rightarrow> VariableScope" where
  "merge_into base overlay = fold (\<lambda>(k, scoped). bt_insert k scoped) overlay base"

subsection \<open>Values\<close>

definition choice_matches :: "ConfLib \<Rightarrow> json \<Rightarrow> string \<Rightarrow> bool" where
  "choice_matches lib choice raw = (value_to_string lib choice = raw)"

definition coerce_str :: "ConfLib \<Rightarrow> string \<Rightarrow> VarType \<Rightarrow> json list \<Rightarrow> string \<Rightarrow> ConfigError + json" where
  "coerce_str lib name ty choices raw =
     (let t = trim raw in
      case ty of
        VtString \<Rightarrow> Inr (JStr raw)
      | VtInteger \<Rightarrow>
          (case parse_sint 64 t of
             Some n \<Rightarrow> Inr (JNum (show_int n))
           | None \<Rightarrow> Inl (VariableInvalid name (''`'' @ raw @ ''` is not a valid integer'')))
      | VtNumber \<Rightarrow>
          (case parse_sint 64 t of
             Some n \<Rightarrow> Inr (JNum (show_int n))
           | None \<Rightarrow>
               (case cn_f64 lib t of
                  Some n \<Rightarrow> Inr (JNum n)
                | None \<Rightarrow> Inl (VariableInvalid name (''`'' @ raw @ ''` is not a valid number''))))
      | VtBoolean \<Rightarrow>
          (if to_ascii_lowercase t \<in> {''true'', ''1'', ''yes'', ''on''} then Inr (JBool True)
           else if to_ascii_lowercase t \<in> {''false'', ''0'', ''no'', ''off''} then Inr (JBool False)
           else Inl (VariableInvalid name (''`'' @ raw @ ''` is not a valid boolean'')))
      | VtEnum \<Rightarrow>
          (case find (\<lambda>c. choice_matches lib c raw) choices of
             Some c \<Rightarrow> Inr c
           | None \<Rightarrow> Inl (VariableInvalid name (''`'' @ raw @ ''` is not one of the allowed choices: '' @
                      join '', '' (map (value_to_string lib) choices)))))"

definition coerce :: "ConfLib \<Rightarrow> VariableDef \<Rightarrow> string \<Rightarrow> string + json" where
  "coerce lib def raw =
     (case coerce_str lib ''<value>'' (var_type def) (vd_choices def) raw of
        Inr v \<Rightarrow> Inr v
      | Inl (VariableInvalid _ msg) \<Rightarrow> Inl msg
      | Inl _ \<Rightarrow> Inl [])"

definition value_key :: "string \<Rightarrow> string" where
  "value_key var_id = ''value::'' @ var_id"

definition stored_literal :: "secret_store option \<Rightarrow> string \<Rightarrow> ConfigError + string option" where
  "stored_literal vars var_id = (case vars of None \<Rightarrow> Inr None | Some store \<Rightarrow> io_err (store (value_key var_id)))"

definition var_id :: "string \<Rightarrow> string \<Rightarrow> string" where
  "var_id scope_id name = scope_id @ ''::'' @ name"

definition resolve_value ::
  "ConfLib \<Rightarrow> secret_store \<Rightarrow> secret_store option \<Rightarrow> string \<Rightarrow> VariableDef \<Rightarrow> string \<Rightarrow> ConfigError + json" where
  "resolve_value lib secrets vars name def scope_id =
     (let inp = (case input_key def of Some k \<Rightarrow> k | None \<Rightarrow> name) in
      rbind (stored_literal vars (var_id scope_id name)) (\<lambda>lit.
      case vd_kind def of
        Secret \<Rightarrow>
          (case lit of
             Some l \<Rightarrow> Inr (JStr l)
           | None \<Rightarrow>
               rbind (io_err (secrets inp)) (\<lambda>v.
                 case v of
                   Some s \<Rightarrow> Inr (JStr s)
                 | None \<Rightarrow>
                     if \<not> vd_required def then Inr JNull
                     else Inl (VariableInvalid name (''no value for secret input `'' @ inp @ ''`''))))
      | Variable \<Rightarrow>
          (case lit of
             Some l \<Rightarrow> coerce_str lib name (var_type def) (vd_choices def) l
           | None \<Rightarrow>
               (case cn_env lib inp of
                  Some raw \<Rightarrow> coerce_str lib name (var_type def) (vd_choices def) raw
                | None \<Rightarrow>
                    (case vd_default def of
                       Some d \<Rightarrow> Inr d
                     | None \<Rightarrow>
                         if \<not> vd_required def then Inr JNull
                         else Inl (VariableInvalid name
                                (''no value: env `'' @ inp @ ''` is unset and no `default` is declared'')))))))"

subsection \<open>Dynamic variables\<close>

record Endpoints =
  ep_discovery :: "string option"
  ep_authorization_url :: "string option"
  ep_device_authorization_url :: "string option"
  ep_token_url :: "string option"

datatype PortMode = RandomPort | FixedPort

datatype TokenTransport = RequestBody | BasicAuth

datatype DynamicVarSpec =
    ClientCredentials (sp_endpoints: Endpoints) (sp_client_id: string) string (sp_scope: "string option")
      "string option" TokenTransport
  | DeviceCode (sp_endpoints: Endpoints) (sp_client_id: string) "string option" (sp_scope: "string option")
  | AuthorizationCode (sp_endpoints: Endpoints) (sp_client_id: string) "string option" string PortMode bool
      (sp_scope: "string option") TokenTransport

record DynamicVarBinding =
  db_name :: string
  db_id :: string
  db_spec :: DynamicVarSpec

fun spec_client_secret :: "DynamicVarSpec \<Rightarrow> string option" where
  "spec_client_secret (ClientCredentials _ _ s _ _ _) = Some s"
| "spec_client_secret (DeviceCode _ _ s _) = s"
| "spec_client_secret (AuthorizationCode _ _ s _ _ _ _ _) = s"

fun spec_transport :: "DynamicVarSpec \<Rightarrow> TokenTransport" where
  "spec_transport (ClientCredentials _ _ _ _ _ t) = t"
| "spec_transport (DeviceCode _ _ _ _) = RequestBody"
| "spec_transport (AuthorizationCode _ _ _ _ _ _ _ t) = t"

fun is_interactive :: "DynamicVarSpec \<Rightarrow> bool" where
  "is_interactive (ClientCredentials _ _ _ _ _ _) = False"
| "is_interactive _ = True"

fun spec_grant :: "DynamicVarSpec \<Rightarrow> string" where
  "spec_grant (ClientCredentials _ _ _ _ _ _) = ''client_credentials''"
| "spec_grant (DeviceCode _ _ _ _) = ''device_code''"
| "spec_grant (AuthorizationCode _ _ _ _ _ _ _ _) = ''authorization_code''"

text \<open>\<open>v.get(k1)?.get(k2)..\<close> and \<open>as_str\<close>, \<open>as_u64\<close> on the result.\<close>

definition str_at :: "json \<Rightarrow> string list \<Rightarrow> string option" where
  "str_at v path = Option.bind (Http_Json.walk v path) as_str"

definition as_u64 :: "json \<Rightarrow> nat option" where
  "as_u64 v = (case v of JNum n \<Rightarrow> parse_uint 64 n | _ \<Rightarrow> None)"

definition v6_is_loopback :: "128 word \<Rightarrow> bool" where
  "v6_is_loopback ip \<longleftrightarrow> ip = 1"

definition discovery_url_ok :: "ConfLib \<Rightarrow> string \<Rightarrow> bool" where
  "discovery_url_ok lib url =
     (case cn_url lib url of
        Inl _ \<Rightarrow> False
      | Inr u \<Rightarrow>
          if u_scheme u = ''https'' then True
          else if u_scheme u = ''http'' then
            (case u_host u of
               Some (Domain h) \<Rightarrow> eq_ignore_case h ''localhost''
             | Some (Ipv4 a) \<Rightarrow> v4_is_loopback a
             | Some (Ipv6 a) \<Rightarrow> v6_is_loopback a
             | None \<Rightarrow> False)
          else False)"

definition resolve_client_field ::
  "ConfLib \<Rightarrow> string \<Rightarrow> json option \<Rightarrow> bool \<Rightarrow> secret_store \<Rightarrow> ConfigError + string option" where
  "resolve_client_field lib name field is_secret secrets =
     (case field of
        None \<Rightarrow> Inr None
      | Some (JStr s) \<Rightarrow> Inr (Some s)
      | Some (JObj obj) \<Rightarrow>
          rbind (case str_at (JObj obj) [''input''] of
              Some inp \<Rightarrow> if is_secret then io_err (secrets inp) else Inr (cn_env lib inp)
            | None \<Rightarrow> Inr None) (\<lambda>resolved.
          case resolved of
            Some v \<Rightarrow> Inr (Some v)
          | None \<Rightarrow>
              (case str_at (JObj obj) [''default''] of
                 Some d \<Rightarrow> Inr (Some d)
               | None \<Rightarrow> Inl (VariableInvalid name
                   ''OAuth `client` field has neither a resolvable `input` nor a `default`'')))
      | Some _ \<Rightarrow> Inl (VariableInvalid name ''OAuth `client` field must be a string or a `{ input/default }` object''))"

definition parse_scopes :: "json \<Rightarrow> string option" where
  "parse_scopes oauth =
     Option.bind (Http_Json.walk oauth [''scopes'', ''scope'']) (\<lambda>scope.
       let delim = (if str_at scope [''delimiter''] = Some ''comma'' then '','' else '' '') in
       Option.bind (Option.bind (get_key scope ''values'') as_list) (\<lambda>vs.
         let parts = List.map_filter as_str vs in
         if parts \<noteq> [] then Some (join delim parts) else None))"

text \<open>\<open>redirect.port\<close>: absent, null, or a number of 1 to 65535.\<close>

definition explicit_port :: "string \<Rightarrow> json \<Rightarrow> ConfigError + nat option" where
  "explicit_port name redirect =
     (case get_key redirect ''port'' of
        None \<Rightarrow> Inr None
      | Some JNull \<Rightarrow> Inr None
      | Some p \<Rightarrow>
          (case as_u64 p of
             Some n \<Rightarrow> if n < 2 ^ 16 \<and> n \<noteq> 0 then Inr (Some n)
                       else Inl (VariableInvalid name ''`redirect.port` must be a port number'')
           | None \<Rightarrow> Inl (VariableInvalid name ''`redirect.port` must be a port number'')))"

definition resolve_redirect :: "ConfLib \<Rightarrow> string \<Rightarrow> json \<Rightarrow> ConfigError + string \<times> PortMode" where
  "resolve_redirect lib name oauth =
     rbind (ok_or (VariableInvalid name ''`authorization_code` requires `redirect`'') (get_key oauth ''redirect'')) (\<lambda>redirect.
     rbind (ok_or (VariableInvalid name ''`redirect` requires `uri`'') (str_at redirect [''uri''])) (\<lambda>uri.
     rbind (case cn_url lib uri of Inr u \<Rightarrow> Inr u | Inl e \<Rightarrow> Inl (VariableInvalid name (''invalid `redirect.uri`: '' @ e)))
       (\<lambda>parsed.
     rbind (explicit_port name redirect) (\<lambda>explicit.
     rbind (case (explicit, u_port parsed) of
              (Some e, Some u) \<Rightarrow>
                if e \<noteq> u then Inl (VariableInvalid name (''port set in both `redirect.uri` ('' @ show_nat u @
                  '') and `redirect.port` ('' @ show_nat e @ '')''))
                else Inr (Some e)
            | (Some e, None) \<Rightarrow> Inr (Some e)
            | (None, u) \<Rightarrow> Inr u) (\<lambda>port.
     rbind (case str_at redirect [''port_mode''] of
              Some m \<Rightarrow>
                if m = ''fixed'' then Inr FixedPort
                else if m = ''random'' then Inr RandomPort
                else Inl (VariableInvalid name (''unknown `redirect.port_mode` `'' @ m @ ''`''))
            | None \<Rightarrow> Inr (if port \<noteq> None then FixedPort else RandomPort)) (\<lambda>port_mode.
     if port_mode = FixedPort then
       rbind (ok_or (VariableInvalid name ''`redirect.port_mode: fixed` needs a `port`'') port) (\<lambda>p.
       rbind (ok_or (VariableInvalid name ''`redirect.uri` does not accept a port'') (cn_set_port lib p parsed)) (\<lambda>parsed'.
         Inr (u_text parsed', port_mode)))
     else Inr (u_text parsed, port_mode)))))))"

definition spec_endpoints :: "json \<Rightarrow> Endpoints" where
  "spec_endpoints oauth =
     (let ep = (\<lambda>key. str_at oauth [''endpoints'', key])
      in \<lparr>ep_discovery = ep ''discovery'', ep_authorization_url = ep ''authorization_url'',
          ep_device_authorization_url = ep ''device_authorization_url'', ep_token_url = ep ''token_url''\<rparr>)"

definition require_endpoint :: "string \<Rightarrow> string \<Rightarrow> Endpoints \<Rightarrow> bool \<Rightarrow> string \<Rightarrow> ConfigError + unit" where
  "require_endpoint name grant endpoints present key =
     (if ep_discovery endpoints = None \<and> \<not> present
      then Inl (VariableInvalid name (''`'' @ grant @ ''` requires `endpoints.'' @ key @ ''` (or set `endpoints.discovery`)''))
      else Inr ())"

definition build_dynamic_spec ::
  "ConfLib \<Rightarrow> string \<Rightarrow> VariableDef \<Rightarrow> secret_store \<Rightarrow> ConfigError + DynamicVarSpec" where
  "build_dynamic_spec lib name def secrets =
     rbind (ok_or (VariableInvalid name ''internal: dynamic variable without an `oauth` method'') (oauth_body def)) (\<lambda>oauth.
     let grant = (case str_at oauth [''grant'', ''type''] of Some g \<Rightarrow> g | None \<Rightarrow> []);
         endpoints = spec_endpoints oauth;
         require = require_endpoint name grant endpoints;
         client_id = rbind (resolve_client_field lib name (Http_Json.walk oauth [''client'', ''id'']) False secrets)
           (ok_or (VariableInvalid name (''`'' @ grant @ ''` requires `client.id`'')));
         client_secret_opt = resolve_client_field lib name (Http_Json.walk oauth [''client'', ''secret'']) True secrets;
         transport = (if str_at oauth [''client'', ''secret'', ''transport''] = Some ''basic_auth'' then BasicAuth else RequestBody)
     in if (case ep_discovery endpoints of Some d \<Rightarrow> \<not> discovery_url_ok lib d | None \<Rightarrow> False)
        then Inl (VariableInvalid name ''`endpoints.discovery` must be https (or http to a loopback host)'')
        else if grant = ''client_credentials'' then
          rbind (require (ep_token_url endpoints \<noteq> None) ''token_url'') (\<lambda>_.
          rbind client_id (\<lambda>cid.
          rbind client_secret_opt (\<lambda>secret_opt.
          rbind (ok_or (VariableInvalid name ''`client_credentials` requires `client.secret`'') secret_opt) (\<lambda>secret.
            Inr (ClientCredentials endpoints cid secret (parse_scopes oauth) (str_at oauth [''audience'']) transport)))))
        else if grant = ''device_code'' then
          rbind (require (ep_device_authorization_url endpoints \<noteq> None) ''device_authorization_url'') (\<lambda>_.
          rbind (require (ep_token_url endpoints \<noteq> None) ''token_url'') (\<lambda>_.
          rbind client_id (\<lambda>cid.
          rbind client_secret_opt (\<lambda>secret_opt.
            Inr (DeviceCode endpoints cid secret_opt (parse_scopes oauth))))))
        else if grant = ''authorization_code'' then
          rbind (require (ep_authorization_url endpoints \<noteq> None) ''authorization_url'') (\<lambda>_.
          rbind (require (ep_token_url endpoints \<noteq> None) ''token_url'') (\<lambda>_.
          rbind (resolve_redirect lib name oauth) (\<lambda>(redirect_uri, port_mode).
          rbind client_id (\<lambda>cid.
          rbind client_secret_opt (\<lambda>secret_opt.
            Inr (AuthorizationCode endpoints cid secret_opt redirect_uri port_mode
              (str_at oauth [''grant'', ''pkce''] \<noteq> Some ''disabled'') (parse_scopes oauth) transport))))))
        else if grant = [] then Inl (VariableInvalid name ''`oauth` method requires `grant.type`'')
        else Inl (VariableInvalid name (''unknown oauth `grant.type` `'' @ grant @ ''`'')))"

subsection \<open>Resolving the references of a source\<close>

definition parse_ref :: "string \<Rightarrow> string option" where
  "parse_ref s = (case reference_parts s of Some (kind, target) \<Rightarrow> if kind = ''var'' then Some target else None | None \<Rightarrow> None)"

type_synonym ref_state = "DynamicVarBinding list \<times> string list"

definition resolve_ref ::
  "ConfLib \<Rightarrow> secret_store \<Rightarrow> secret_store option \<Rightarrow> VariableScope \<Rightarrow> string \<Rightarrow> json \<Rightarrow> ref_state \<Rightarrow> ConfigError + json \<times> ref_state" where
  "resolve_ref lib secrets vars scope name v st =
     rbind (ok_or (VariableInvalid name ''referenced via `${var:...}` but not declared in this source's scope'') (map_of scope name))
       (\<lambda>scoped.
        if is_dynamic (sv_def scoped) then
          (let id = var_id (sv_scope_id scoped) name in
           rbind (stored_literal vars id) (\<lambda>lit.
           case lit of
             Some l \<Rightarrow> Inr (JStr l, st)
           | None \<Rightarrow>
               (case st of (bindings, seen) \<Rightarrow>
                  if id \<in> set seen then Inr (v, st)
                  else rbind (build_dynamic_spec lib name (sv_def scoped) secrets) (\<lambda>spec.
                    Inr (v, (bindings @ [\<lparr>db_name = name, db_id = id, db_spec = spec\<rparr>], id # seen))))))
        else
          rbind (resolve_value lib secrets vars name (sv_def scoped) (sv_scope_id scoped)) (\<lambda>v'. Inr (v', st)))"

text \<open>The walk over a tree, given the step for one reference.\<close>

type_synonym ref_resolver = "string \<Rightarrow> json \<Rightarrow> ref_state \<Rightarrow> ConfigError + json \<times> ref_state"

fun walk_refs ::
    "ref_resolver \<Rightarrow> json \<Rightarrow> ref_state \<Rightarrow> ConfigError + json \<times> ref_state"
  and walk_items ::
    "ref_resolver \<Rightarrow> json list \<Rightarrow> ref_state \<Rightarrow> ConfigError + json list \<times> ref_state"
  and walk_fields ::
    "ref_resolver \<Rightarrow> (string \<times> json) list \<Rightarrow> ref_state \<Rightarrow>
     ConfigError + (string \<times> json) list \<times> ref_state" where
  "walk_refs on_ref (JStr s) st =
     (case parse_ref s of None \<Rightarrow> Inr (JStr s, st) | Some name \<Rightarrow> on_ref name (JStr s) st)"
| "walk_refs on_ref (JArr xs) st =
     rbind (walk_items on_ref xs st) (\<lambda>(ys, st'). Inr (JArr ys, st'))"
| "walk_refs on_ref (JObj m) st =
     rbind (walk_fields on_ref m st) (\<lambda>(m', st'). Inr (JObj m', st'))"
| "walk_refs on_ref v st = Inr (v, st)"
| "walk_items on_ref [] st = Inr ([], st)"
| "walk_items on_ref (x # xs) st =
     rbind (walk_refs on_ref x st) (\<lambda>(y, st1).
     rbind (walk_items on_ref xs st1) (\<lambda>(ys, st2). Inr (y # ys, st2)))"
| "walk_fields on_ref [] st = Inr ([], st)"
| "walk_fields on_ref ((k, x) # m) st =
     rbind (walk_refs on_ref x st) (\<lambda>(y, st1).
     rbind (walk_fields on_ref m st1) (\<lambda>(m', st2). Inr ((k, y) # m', st2)))"

text \<open>The members of the source itself, its own \<open>variables:\<close> block left alone.\<close>

fun walk_members ::
  "ref_resolver \<Rightarrow> (string \<times> json) list \<Rightarrow> ref_state \<Rightarrow>
   ConfigError + (string \<times> json) list \<times> ref_state" where
  "walk_members on_ref [] st = Inr ([], st)"
| "walk_members on_ref ((k, x) # m) st =
     rbind (if k = ''variables'' then Inr (x, st) else walk_refs on_ref x st) (\<lambda>(y, st1).
     rbind (walk_members on_ref m st1) (\<lambda>(m', st2). Inr ((k, y) # m', st2)))"

definition resolve_refs ::
  "ConfLib \<Rightarrow> secret_store \<Rightarrow> secret_store option \<Rightarrow> VariableScope \<Rightarrow> json \<Rightarrow> ConfigError + json \<times> DynamicVarBinding list" where
  "resolve_refs lib secrets vars scope source =
     rbind (case source of
              JObj m \<Rightarrow> rbind (walk_members (resolve_ref lib secrets vars scope) m ([], [])) (\<lambda>(m', st). Inr (JObj m', st))
            | _ \<Rightarrow> walk_refs (resolve_ref lib secrets vars scope) source ([], []))
       (\<lambda>(source', (bindings, _)). Inr (source', bindings))"

text \<open>The read-only counterpart.\<close>

record StaticVarRef =
  sr_name :: string
  sr_var_id :: string
  sr_kind :: VarKind
  sr_input_key :: string
  sr_resolves :: bool

type_synonym collect_state = "StaticVarRef list \<times> string list"

definition collect_ref ::
  "ConfLib \<Rightarrow> secret_store \<Rightarrow> secret_store option \<Rightarrow> VariableScope \<Rightarrow> string \<Rightarrow> collect_state \<Rightarrow> collect_state" where
  "collect_ref lib secrets vars scope name st =
     (case (map_of scope name, st) of
        (Some scoped, (out, seen)) \<Rightarrow>
          if is_dynamic (sv_def scoped) \<or> name \<in> set seen then st
          else (out @ [\<lparr>sr_name = name, sr_var_id = var_id (sv_scope_id scoped) name, sr_kind = vd_kind (sv_def scoped),
                  sr_input_key = (case input_key (sv_def scoped) of Some k \<Rightarrow> k | None \<Rightarrow> name),
                  sr_resolves = (case resolve_value lib secrets vars name (sv_def scoped) (sv_scope_id scoped) of
                                   Inr _ \<Rightarrow> True | Inl _ \<Rightarrow> False)\<rparr>], name # seen)
      | (None, _) \<Rightarrow> st)"

fun collect_refs :: "(string \<Rightarrow> collect_state \<Rightarrow> collect_state) \<Rightarrow> json \<Rightarrow> collect_state \<Rightarrow> collect_state"
  and collect_items :: "(string \<Rightarrow> collect_state \<Rightarrow> collect_state) \<Rightarrow> json list \<Rightarrow> collect_state \<Rightarrow> collect_state"
  and collect_fields :: "(string \<Rightarrow> collect_state \<Rightarrow> collect_state) \<Rightarrow> (string \<times> json) list \<Rightarrow> collect_state \<Rightarrow> collect_state" where
  "collect_refs on_ref (JStr s) st = (case parse_ref s of None \<Rightarrow> st | Some name \<Rightarrow> on_ref name st)"
| "collect_refs on_ref (JArr xs) st = collect_items on_ref xs st"
| "collect_refs on_ref (JObj m) st = collect_fields on_ref m st"
| "collect_refs on_ref v st = st"
| "collect_items on_ref [] st = st"
| "collect_items on_ref (x # xs) st = collect_items on_ref xs (collect_refs on_ref x st)"
| "collect_fields on_ref [] st = st"
| "collect_fields on_ref ((k, x) # m) st = collect_fields on_ref m (collect_refs on_ref x st)"

definition collect_static_refs ::
  "ConfLib \<Rightarrow> secret_store \<Rightarrow> secret_store option \<Rightarrow> VariableScope \<Rightarrow> json \<Rightarrow> StaticVarRef list" where
  "collect_static_refs lib secrets vars scope source =
     fst (case source of
            JObj m \<Rightarrow> fold (\<lambda>(k, x) st. if k = ''variables'' then st else collect_refs (collect_ref lib secrets vars scope) x st) m ([], [])
          | _ \<Rightarrow> collect_refs (collect_ref lib secrets vars scope) source ([], []))"

subsection \<open>Resolving a whole configuration\<close>

definition source_scope ::
  "ConfLib \<Rightarrow> (json \<Rightarrow> string + VariableDef) \<Rightarrow> json \<Rightarrow> string list option \<Rightarrow> VariableScope \<Rightarrow>
   (string \<times> VariableScope) list \<Rightarrow> ConfigError + VariableScope" where
  "source_scope lib from_value source incl_chain global frag_scopes =
     (let scope = (case incl_chain of
            None \<Rightarrow> global
          | Some files \<Rightarrow>
              fold (\<lambda>file scope. case map_of frag_scopes file of Some frag \<Rightarrow> merge_into scope frag | None \<Rightarrow> scope) files global)
      in case get_key source ''variables'' of
           None \<Rightarrow> Inr scope
         | Some block \<Rightarrow>
             (let source_name = (case Option.bind (get_key source ''name'') as_str of Some n \<Rightarrow> n | None \<Rightarrow> ''?'')
              in rbind (parse_block lib from_value block (''source:'' @ source_name)) (\<lambda>local.
                   Inr (merge_into scope local))))"

fun fragment_scopes ::
  "ConfLib \<Rightarrow> (json \<Rightarrow> string + VariableDef) \<Rightarrow> secret_store \<Rightarrow> (string \<times> json) list \<Rightarrow>
   ConfigError + (string \<times> VariableScope) list" where
  "fragment_scopes lib from_value secrets [] = Inr []"
| "fragment_scopes lib from_value secrets ((file, block) # frags) =
     rbind (interpolate lib secrets block) (\<lambda>block'.
     rbind (parse_block lib from_value block' file) (\<lambda>scope.
     rbind (fragment_scopes lib from_value secrets frags) (\<lambda>rest. Inr ((file, scope) # rest))))"

fun resolve_sources ::
  "ConfLib \<Rightarrow> (json \<Rightarrow> string + VariableDef) \<Rightarrow> secret_store \<Rightarrow> secret_store option \<Rightarrow> VariableScope \<Rightarrow>
   (string \<times> VariableScope) list \<Rightarrow> string list list \<Rightarrow> json list \<Rightarrow> ConfigError + (json \<times> DynamicVarBinding list) list" where
  "resolve_sources lib from_value secrets vars global frags include_chains [] = Inr []"
| "resolve_sources lib from_value secrets vars global frags include_chains (source # sources) =
     rbind (source_scope lib from_value source (case include_chains of c # _ \<Rightarrow> Some c | [] \<Rightarrow> None) global frags) (\<lambda>scope.
     rbind (resolve_refs lib secrets vars scope source) (\<lambda>resolved.
     rbind (resolve_sources lib from_value secrets vars global frags (tl include_chains) sources) (\<lambda>rest. Inr (resolved # rest))))"

text \<open>\<open>get_mut("sources")\<close>: the array in place.\<close>

definition set_field :: "string \<Rightarrow> json \<Rightarrow> json \<Rightarrow> json" where
  "set_field k v j = (case j of JObj m \<Rightarrow> JObj (map (\<lambda>(k', x). (k', if k' = k then v else x)) m) | _ \<Rightarrow> j)"

definition resolve_variables ::
  "ConfLib \<Rightarrow> (json \<Rightarrow> string + VariableDef) \<Rightarrow> json \<Rightarrow> secret_store \<Rightarrow> secret_store option \<Rightarrow> (string \<times> json) list \<Rightarrow>
   string list list \<Rightarrow> ConfigError + json \<times> DynamicVarBinding list list" where
  "resolve_variables lib from_value tree secrets vars frag_vars include_chains =
     rbind (case get_key tree ''variables'' of Some v \<Rightarrow> parse_block lib from_value v ''root'' | None \<Rightarrow> Inr []) (\<lambda>global.
     rbind (fragment_scopes lib from_value secrets frag_vars) (\<lambda>frags.
       case Option.bind (get_key tree ''sources'') as_list of
         None \<Rightarrow> Inr (tree, [])
       | Some sources \<Rightarrow>
           rbind (resolve_sources lib from_value secrets vars global frags include_chains sources) (\<lambda>resolved.
             Inr (set_field ''sources'' (JArr (map fst resolved)) tree, map snd resolved))))"

text \<open>
  The common end of loading: both passes, then reading the tree as a configuration and validating it; the
  first validation error is the error of the load.
\<close>

definition finish ::
  "ConfLib \<Rightarrow> (json \<Rightarrow> string + VariableDef) \<Rightarrow> (json \<Rightarrow> string + 'c) \<Rightarrow> (DynamicVarBinding list list \<Rightarrow> 'c \<Rightarrow> 'c) \<Rightarrow>
   ('c \<Rightarrow> ConfigError list) \<Rightarrow> json \<Rightarrow> secret_store \<Rightarrow> secret_store option \<Rightarrow> (string \<times> json) list \<Rightarrow> string list list \<Rightarrow>
   ConfigError + 'c" where
  "finish lib from_value read_config attach validate tree secrets vars frag_vars include_chains =
     rbind (interpolate lib secrets tree) (\<lambda>tree1.
     rbind (resolve_variables lib from_value tree1 secrets vars frag_vars include_chains) (\<lambda>(tree2, bindings).
     rbind (case read_config tree2 of Inr c \<Rightarrow> Inr c | Inl e \<Rightarrow> Inl (YamlError e)) (\<lambda>c.
       let cfg = attach bindings c in
       case validate cfg of [] \<Rightarrow> Inr cfg | e # _ \<Rightarrow> Inl e)))"

end
