(* ===== verification/Config_Refs.thy ===== *)
theory Config_Refs
  imports Config_Vars
begin

section \<open>Variables resolve to what their definition says\<close>

text \<open>
  The properties of \<open>Config_Vars\<close>: resolved values have their declared type, the walk over a source is the
  substitution of its references, and the read-only listing predicts which loads succeed.
\<close>

subsection \<open>Types\<close>

lemma dec_val_show: "dec_val (show_nat n) = n"
  using digits_val_show [of n] by (simp add: dec_val_def digits_val_def)

lemma show_nat_digits: "list_all is_ascii_digit (show_nat n)"
proof (induction n rule: show_nat.induct)
  case (1 n)
  have "is_ascii_digit (digit_char k)" if "k < 10" for k
    using that of_char_digit [OF that] by (simp add: is_ascii_digit_def less_eq_char_def)
  with 1 show ?case by (cases "n < 10") (simp_all add: show_nat.simps [of n])
qed

lemma show_nat_ne: "show_nat n \<noteq> []"
  by (subst show_nat.simps) simp

lemma parse_show_int:
  assumes "parse_sint 64 s = Some n"
  shows "parse_sint 64 (show_int n) = Some n"
proof -
  have range: "- (2 ^ 63) \<le> n" "n < 2 ^ 63"
    using assms by (auto simp: parse_sint_def Let_def split: if_splits)
  have head: "hd (show_nat k) \<noteq> CHR ''+'' \<and> hd (show_nat k) \<noteq> CHR ''-''" for k
    using show_nat_digits [of k] show_nat_ne [of k] by (cases "show_nat k") (auto simp: is_ascii_digit_def)
  show ?thesis
  proof (cases "n < 0")
    case True
    with range show ?thesis by (simp add: parse_sint_def show_int_def Let_def show_nat_ne show_nat_digits dec_val_show)
  next
    case False
    obtain c r where c: "show_nat (nat n) = c # r" using show_nat_ne by (cases "show_nat (nat n)") auto
    with head [of "nat n"] have "c \<noteq> CHR ''+''" "c \<noteq> CHR ''-''" by auto
    with False range c dec_val_show [of "nat n"] show_nat_digits [of "nat n"] show ?thesis
      by (simp add: parse_sint_def show_int_def Let_def)
  qed
qed

text \<open>A value is of the declared type, and one of the choices of an enum.\<close>

definition typed :: "VariableDef \<Rightarrow> json \<Rightarrow> bool" where
  "typed def v \<longleftrightarrow>
     accepts (var_type def) v \<and> (var_type def = VtEnum \<longrightarrow> v \<in> set (vd_choices def))"

lemma coerce_typed:
  assumes "coerce_str lib name (var_type def) (vd_choices def) raw = Inr v"
  shows "typed def v"
proof (cases "var_type def")
  case VtInteger
  with assms show ?thesis by (auto simp: coerce_str_def Let_def typed_def is_integer_text_def parse_show_int split: option.splits)
next
  case VtEnum
  with assms show ?thesis by (auto simp: coerce_str_def Let_def typed_def find_Some_iff split: option.splits)
qed (use assms in \<open>auto simp: coerce_str_def Let_def typed_def split: option.splits if_splits\<close>)

lemma default_typed:
  assumes "validate_def lib name def = Inr ()" "vd_kind def = Variable" "vd_default def = Some d"
  shows "typed def d"
  using assms
  by (cases "var_type def") (auto simp: validate_def_def validate_var_type_def typed_def split: if_splits)

text \<open>A definition is validated before it enters a scope, and merging scopes adds none.\<close>

definition scope_valid :: "ConfLib \<Rightarrow> VariableScope \<Rightarrow> bool" where
  "scope_valid lib scope \<longleftrightarrow> (\<forall>(name, sc)\<in>set scope. validate_def lib name (sv_def sc) = Inr ())"

lemma set_bt_insert: "set (bt_insert k v m) \<subseteq> insert (k, v) (set m)"
  by (induction k v m rule: bt_insert.induct) auto

lemma scope_valid_insert:
  "scope_valid lib scope \<Longrightarrow> validate_def lib name (sv_def sc) = Inr () \<Longrightarrow> scope_valid lib (bt_insert name sc scope)"
  using set_bt_insert [of name sc scope] by (fastforce simp: scope_valid_def)

lemma parse_entries_valid:
  "parse_entries lib from_value sid obj out = Inr scope \<Longrightarrow> scope_valid lib out \<Longrightarrow> scope_valid lib scope"
proof (induction lib from_value sid obj out rule: parse_entries.induct)
  case (2 lib from_value scope_id name raw obj out)
  from "2.prems"(1) obtain def where "from_value raw = Inr def" "validate_def lib name def = Inr ()"
    by (auto simp: rbind_eq_Inr split: sum.splits)
  with 2 show ?case by (auto intro!: "2.IH" scope_valid_insert)
qed simp

lemma parse_block_valid: "parse_block lib from_value block sid = Inr scope \<Longrightarrow> scope_valid lib scope"
  by (cases block) (auto simp: parse_block_def scope_valid_def [of _ "[]"] dest: parse_entries_valid)

lemma merge_valid: "scope_valid lib base \<Longrightarrow> scope_valid lib overlay \<Longrightarrow> scope_valid lib (merge_into base overlay)"
  unfolding merge_into_def
proof (induction overlay arbitrary: base)
  case (Cons e overlay)
  then show ?case by (cases e) (auto simp: scope_valid_insert scope_valid_def [of _ "_ # _"] scope_valid_def [of _ overlay])
qed simp

lemma fragments_valid:
  "fragment_scopes lib from_value secrets blocks = Inr frags \<Longrightarrow> (file, scope) \<in> set frags \<Longrightarrow> scope_valid lib scope"
proof (induction blocks arbitrary: frags)
  case (Cons b blocks)
  then show ?case by (cases b) (auto simp: rbind_eq_Inr dest: parse_block_valid)
qed simp

lemma source_scope_valid:
  assumes "source_scope lib from_value source files global frags = Inr scope" "scope_valid lib global"
    "\<And>file sc. (file, sc) \<in> set frags \<Longrightarrow> scope_valid lib sc"
  shows "scope_valid lib scope"
proof -
  have folded: "scope_valid lib base \<Longrightarrow> scope_valid lib
      (fold (\<lambda>file scope. case map_of frags file of Some frag \<Rightarrow> merge_into scope frag | None \<Rightarrow> scope) fs base)" for fs base
  proof (induction fs arbitrary: base)
    case (Cons f fs)
    show ?case
    proof (cases "map_of frags f")
      case (Some frag)
      with Cons.IH [OF merge_valid [OF Cons.prems assms(3) [OF map_of_SomeD [OF Some]]]] show ?thesis by simp
    qed (use Cons in simp)
  qed simp
  with assms show ?thesis
    by (auto simp: source_scope_def Let_def rbind_eq_Inr split: option.splits
        intro!: merge_valid folded dest: parse_block_valid)
qed


subsection \<open>The walk is a substitution\<close>

text \<open>The references of a tree in the order of the walk, and the tree with some of them replaced.\<close>

definition ref_list :: "string \<Rightarrow> string list" where
  "ref_list s = (case parse_ref s of Some n \<Rightarrow> [n] | None \<Rightarrow> [])"

fun refs_of :: "json \<Rightarrow> string list" and refs_items :: "json list \<Rightarrow> string list"
  and refs_fields :: "(string \<times> json) list \<Rightarrow> string list" where
  "refs_of (JStr s) = ref_list s"
| "refs_of (JArr xs) = refs_items xs"
| "refs_of (JObj m) = refs_fields m"
| "refs_of v = []"
| "refs_items [] = []"
| "refs_items (x # xs) = refs_of x @ refs_items xs"
| "refs_fields [] = []"
| "refs_fields ((k, x) # m) = refs_of x @ refs_fields m"

fun subst :: "(string \<Rightarrow> json option) \<Rightarrow> json \<Rightarrow> json" and subst_items :: "(string \<Rightarrow> json option) \<Rightarrow> json list \<Rightarrow> json list"
  and subst_fields :: "(string \<Rightarrow> json option) \<Rightarrow> (string \<times> json) list \<Rightarrow> (string \<times> json) list" where
  "subst g (JStr s) = (case Option.bind (parse_ref s) g of Some v \<Rightarrow> v | None \<Rightarrow> JStr s)"
| "subst g (JArr xs) = JArr (subst_items g xs)"
| "subst g (JObj m) = JObj (subst_fields g m)"
| "subst g v = v"
| "subst_items g [] = []"
| "subst_items g (x # xs) = subst g x # subst_items g xs"
| "subst_fields g [] = []"
| "subst_fields g ((k, x) # m) = (k, subst g x) # subst_fields g m"

text \<open>A source: its own \<open>variables:\<close> block stays as it is.\<close>

definition source_refs :: "json \<Rightarrow> string list" where
  "source_refs source =
     (case source of JObj m \<Rightarrow> refs_fields (filter (\<lambda>(k, _). k \<noteq> ''variables'') m) | _ \<Rightarrow> refs_of source)"

definition subst_source :: "(string \<Rightarrow> json option) \<Rightarrow> json \<Rightarrow> json" where
  "subst_source g source =
     (case source of
        JObj m \<Rightarrow> JObj (map (\<lambda>(k, x). (k, if k = ''variables'' then x else subst g x)) m)
      | _ \<Rightarrow> subst g source)"

text \<open>
  What a step of the walk has to promise: it replaces a reference by what \<open>g\<close> says, and keeps an invariant of
  the references seen and the state.  The walk over a tree promises the same for all its references.
\<close>

locale ref_walk =
  fixes on_ref :: ref_resolver and g :: "string \<Rightarrow> json option" and inv :: "string list \<Rightarrow> ref_state \<Rightarrow> bool"
  assumes step: "inv seen st \<Longrightarrow> on_ref n v st = Inr (v', st') \<Longrightarrow>
    v' = (case g n of Some x \<Rightarrow> x | None \<Rightarrow> v) \<and> inv (seen @ [n]) st'"
begin

lemma walk_refs_subst:
  "walk_refs on_ref v st = Inr (v', st') \<Longrightarrow> inv seen st \<Longrightarrow> v' = subst g v \<and> inv (seen @ refs_of v) st'"
  "walk_items on_ref xs st = Inr (xs', st') \<Longrightarrow> inv seen st \<Longrightarrow> xs' = subst_items g xs \<and> inv (seen @ refs_items xs) st'"
  "walk_fields on_ref m st = Inr (m', st') \<Longrightarrow> inv seen st \<Longrightarrow> m' = subst_fields g m \<and> inv (seen @ refs_fields m) st'"
proof (induction v and xs and m arbitrary: v' st st' seen and xs' st st' seen and m' st st' seen
    rule: refs_of_refs_items_refs_fields.induct)
  case (1 s)
  then show ?case by (auto simp: ref_list_def dest: step split: option.splits)
next
  case (6 x xs)
  from 6(3) obtain y st1 ys where step: "walk_refs on_ref x st = Inr (y, st1)" "walk_items on_ref xs st1 = Inr (ys, st')"
    "xs' = y # ys" by (auto simp: rbind_eq_Inr)
  from 6(1) [OF step(1) 6(4)] 6(2) [OF step(2)] step(3) show ?case by fastforce
next
  case (8 k x m)
  from 8(3) obtain y st1 ys where step: "walk_refs on_ref x st = Inr (y, st1)" "walk_fields on_ref m st1 = Inr (ys, st')"
    "m' = (k, y) # ys" by (auto simp: rbind_eq_Inr)
  from 8(1) [OF step(1) 8(4)] 8(2) [OF step(2)] step(3) show ?case by fastforce
qed (auto simp: rbind_eq_Inr)

lemma walk_members_subst:
  "walk_members on_ref m st = Inr (m', st') \<Longrightarrow> inv seen st \<Longrightarrow>
     JObj m' = subst_source g (JObj m) \<and> inv (seen @ source_refs (JObj m)) st'"
proof (induction m arbitrary: st m' seen)
  case (Cons e m)
  obtain k x where e: "e = (k, x)" by (cases e)
  from Cons.prems(1) obtain y st1 ys where step: "(if k = ''variables'' then Inr (x, st) else walk_refs on_ref x st) = Inr (y, st1)"
    "walk_members on_ref m st1 = Inr (ys, st')" "m' = (k, y) # ys" by (auto simp: rbind_eq_Inr e)
  show ?case
  proof (cases "k = ''variables''")
    case True
    with step e Cons.IH [OF step(2)] Cons.prems(2) show ?thesis by (simp add: subst_source_def source_refs_def)
  next
    case False
    with step(1) walk_refs_subst(1) [of x st y st1 seen] Cons.prems(2)
    have "y = subst g x \<and> inv (seen @ refs_of x) st1" by simp
    with step False e Cons.IH [OF step(2)] show ?thesis by (fastforce simp: subst_source_def source_refs_def)
  qed
qed (simp add: subst_source_def source_refs_def)

end

text \<open>What replaces a reference, and the identity of a variable that is left to be minted.\<close>

definition inlined_ref ::
  "ConfLib \<Rightarrow> secret_store \<Rightarrow> secret_store option \<Rightarrow> VariableScope \<Rightarrow> string \<Rightarrow> json option" where
  "inlined_ref lib secrets vars scope n =
     Option.bind (map_of scope n) (\<lambda>sc.
       if is_dynamic (sv_def sc) then
         (case stored_literal vars (var_id (sv_scope_id sc) n) of Inr (Some l) \<Rightarrow> Some (JStr l) | _ \<Rightarrow> None)
       else res_ok (resolve_value lib secrets vars n (sv_def sc) (sv_scope_id sc)))"

definition minted_id :: "secret_store option \<Rightarrow> VariableScope \<Rightarrow> string \<Rightarrow> string option" where
  "minted_id vars scope n =
     Option.bind (map_of scope n) (\<lambda>sc.
       if is_dynamic (sv_def sc) \<and> stored_literal vars (var_id (sv_scope_id sc) n) = Inr None
       then Some (var_id (sv_scope_id sc) n) else None)"

text \<open>The reference is declared, and resolves now if it is static.\<close>

definition settled :: "ConfLib \<Rightarrow> secret_store \<Rightarrow> secret_store option \<Rightarrow> VariableScope \<Rightarrow> string \<Rightarrow> bool" where
  "settled lib secrets vars scope n \<longleftrightarrow>
     (\<exists>sc. map_of scope n = Some sc \<and>
        (is_dynamic (sv_def sc) \<or> (\<exists>v. resolve_value lib secrets vars n (sv_def sc) (sv_scope_id sc) = Inr v)))"

definition spec_built :: "ConfLib \<Rightarrow> secret_store \<Rightarrow> VariableScope \<Rightarrow> DynamicVarBinding \<Rightarrow> bool" where
  "spec_built lib secrets scope b \<longleftrightarrow>
     (\<exists>sc. map_of scope (db_name b) = Some sc \<and> db_id b = var_id (sv_scope_id sc) (db_name b) \<and>
        build_dynamic_spec lib (db_name b) (sv_def sc) secrets = Inr (db_spec b))"

definition walk_inv ::
  "ConfLib \<Rightarrow> secret_store \<Rightarrow> secret_store option \<Rightarrow> VariableScope \<Rightarrow> string list \<Rightarrow> ref_state \<Rightarrow> bool" where
  "walk_inv lib secrets vars scope ns st \<longleftrightarrow>
     distinct (map db_id (fst st)) \<and> set (snd st) = db_id ` set (fst st) \<and>
     db_id ` set (fst st) = {id. \<exists>n\<in>set ns. minted_id vars scope n = Some id} \<and>
     (\<forall>b\<in>set (fst st). spec_built lib secrets scope b) \<and> (\<forall>n\<in>set ns. settled lib secrets vars scope n)"

lemma resolve_ref_step:
  assumes inv: "walk_inv lib secrets vars scope ns st"
    and run: "resolve_ref lib secrets vars scope n v st = Inr (v', st')"
  shows "v' = (case inlined_ref lib secrets vars scope n of Some x \<Rightarrow> x | None \<Rightarrow> v) \<and>
    walk_inv lib secrets vars scope (ns @ [n]) st'"
proof -
  from run obtain sc where sc: "map_of scope n = Some sc"
    by (auto simp: resolve_ref_def rbind_eq_Inr ok_or_eq)
  let ?id = "var_id (sv_scope_id sc) n"
  have keep: "walk_inv lib secrets vars scope (ns @ [n]) st"
    if "settled lib secrets vars scope n" "\<And>id. minted_id vars scope n = Some id \<Longrightarrow> id \<in> db_id ` set (fst st)"
    using inv that by (auto simp: walk_inv_def)
  show ?thesis
  proof (cases "is_dynamic (sv_def sc)")
    case False
    with run sc obtain x where x: "resolve_value lib secrets vars n (sv_def sc) (sv_scope_id sc) = Inr x" "v' = x" "st' = st"
      by (auto simp: resolve_ref_def rbind_eq_Inr)
    with False sc have "settled lib secrets vars scope n" "minted_id vars scope n = None"
      "inlined_ref lib secrets vars scope n = Some x"
      by (auto simp: settled_def minted_id_def inlined_ref_def)
    with keep x show ?thesis by simp
  next
    case True
    with sc have set: "settled lib secrets vars scope n" by (auto simp: settled_def)
    from True run sc obtain lit where lit: "stored_literal vars ?id = Inr lit"
      by (auto simp: resolve_ref_def rbind_eq_Inr Let_def)
    show ?thesis
    proof (cases lit)
      case (Some l)
      with True sc lit run set keep show ?thesis
        by (auto simp: resolve_ref_def Let_def inlined_ref_def minted_id_def)
    next
      case None
      with True sc lit have m: "minted_id vars scope n = Some ?id" "inlined_ref lib secrets vars scope n = None"
        by (auto simp: minted_id_def inlined_ref_def)
      obtain bs ids where st: "st = (bs, ids)" by (cases st)
      show ?thesis
      proof (cases "?id \<in> set ids")
        case True
        with \<open>is_dynamic (sv_def sc)\<close> sc lit None run st have "v' = v" "st' = st"
          by (auto simp: resolve_ref_def Let_def)
        moreover have "?id \<in> db_id ` set (fst st)" using inv True st by (auto simp: walk_inv_def)
        ultimately show ?thesis using keep [OF set] m by simp
      next
        case False
        with True sc lit None run st obtain spec where
          spec: "build_dynamic_spec lib n (sv_def sc) secrets = Inr spec" "v' = v"
            "st' = (bs @ [\<lparr>db_name = n, db_id = ?id, db_spec = spec\<rparr>], ?id # ids)"
          by (auto simp: resolve_ref_def Let_def rbind_eq_Inr)
        have "spec_built lib secrets scope \<lparr>db_name = n, db_id = ?id, db_spec = spec\<rparr>"
          using spec(1) sc by (simp add: spec_built_def)
        with inv False m set spec st show ?thesis by (auto simp: walk_inv_def)
      qed
    qed
  qed
qed

interpretation ref: ref_walk "resolve_ref lib secrets vars scope" "inlined_ref lib secrets vars scope"
    "walk_inv lib secrets vars scope" for lib secrets vars scope
  by unfold_locales (rule resolve_ref_step)

lemma resolve_refs_core:
  assumes "resolve_refs lib secrets vars scope source = Inr (source', bindings)"
  shows "source' = subst_source (inlined_ref lib secrets vars scope) source \<and>
    (\<exists>ids. walk_inv lib secrets vars scope (source_refs source) (bindings, ids))"
proof -
  have start: "walk_inv lib secrets vars scope [] ([], [])" by (simp add: walk_inv_def)
  show ?thesis
  proof (cases "\<exists>m. source = JObj m")
    case True
    then obtain m where m: "source = JObj m" ..
    with assms obtain m' ids where "walk_members (resolve_ref lib secrets vars scope) m ([], []) = Inr (m', (bindings, ids))"
      "source' = JObj m'" by (auto simp: resolve_refs_def rbind_eq_Inr)
    with ref.walk_members_subst [OF this(1) start] m show ?thesis by auto
  next
    case False
    then have other: "subst_source g source = subst g source" "source_refs source = refs_of source" for g
      by (auto simp: subst_source_def source_refs_def split: json.splits)
    from False assms obtain ids where
      "walk_refs (resolve_ref lib secrets vars scope) source ([], []) = Inr (source', (bindings, ids))"
      by (auto simp: resolve_refs_def rbind_eq_Inr split: json.splits)
    from ref.walk_refs_subst(1) [OF this start] show ?thesis unfolding other by auto
  qed
qed

text \<open>
  C16. Resolving the references of a source is exactly a substitution: every reference outside the source's own
  \<open>variables:\<close> block is declared; a static one is replaced by its value and a dynamic one by its stored literal,
  while the others are left verbatim.  Those are the bindings: one for each identity, with the specification
  built from the definition the name has in the scope.
\<close>

theorem resolve_refs_exact:
  assumes "resolve_refs lib secrets vars scope source = Inr (source', bindings)"
  shows "source' = subst_source (inlined_ref lib secrets vars scope) source \<and>
    (\<forall>n\<in>set (source_refs source). settled lib secrets vars scope n) \<and>
    distinct (map db_id bindings) \<and>
    db_id ` set bindings = {id. \<exists>n\<in>set (source_refs source). minted_id vars scope n = Some id} \<and>
    (\<forall>b\<in>set bindings. spec_built lib secrets scope b)"
  using resolve_refs_core [OF assms] by (auto simp: walk_inv_def)

subsection \<open>The listing predicts the load\<close>

text \<open>A step that always succeeds makes a walk that always succeeds.\<close>

locale sure_walk =
  fixes on_ref :: ref_resolver and ok :: "string \<Rightarrow> bool"
  assumes sure: "ok n \<Longrightarrow> \<exists>r. on_ref n v st = Inr r"
begin

lemma walk_refs_sure:
  "list_all ok (refs_of v) \<Longrightarrow> \<exists>r. walk_refs on_ref v st = Inr r"
  "list_all ok (refs_items xs) \<Longrightarrow> \<exists>r. walk_items on_ref xs st = Inr r"
  "list_all ok (refs_fields m) \<Longrightarrow> \<exists>r. walk_fields on_ref m st = Inr r"
proof (induction v and xs and m arbitrary: st and st and st rule: refs_of_refs_items_refs_fields.induct)
  case (1 s)
  show ?case
  proof (cases "parse_ref s")
    case (Some n)
    with 1 sure [of n "JStr s" st] show ?thesis by (simp add: ref_list_def)
  qed simp
next
  case (6 x xs)
  from 6(3) obtain y st1 where "walk_refs on_ref x st = Inr (y, st1)" using 6(1) [of st] by auto
  with 6(2) [of st1] 6(3) show ?case by auto
next
  case (8 k x m)
  from 8(3) obtain y st1 where "walk_refs on_ref x st = Inr (y, st1)" using 8(1) [of st] by auto
  with 8(2) [of st1] 8(3) show ?case by auto
next
  case (2 xs)
  from 2(1) [of st] 2(2) show ?case by (auto simp: rbind_eq_Inr)
next
  case (3 m)
  from 3(1) [of st] 3(2) show ?case by (auto simp: rbind_eq_Inr)
qed auto

lemma walk_members_sure: "list_all ok (source_refs (JObj m)) \<Longrightarrow> \<exists>r. walk_members on_ref m st = Inr r"
proof (induction m arbitrary: st)
  case (Cons e m)
  obtain k x where e: "e = (k, x)" by (cases e)
  with Cons.prems have "k \<noteq> ''variables'' \<Longrightarrow> list_all ok (refs_of x)" by (simp add: source_refs_def)
  then obtain y st1 where y: "(if k = ''variables'' then Inr (x, st) else walk_refs on_ref x st) = Inr (y, st1)"
    using walk_refs_sure(1) [of x st] by (cases "k = ''variables''") auto
  have "list_all ok (source_refs (JObj m))" using Cons.prems e by (auto simp: source_refs_def split: if_splits)
  with Cons.IH [of st1] obtain r where "walk_members on_ref m st1 = Inr r" by blast
  with e y show ?case by (cases r) auto
qed simp

end

definition static_settled :: "ConfLib \<Rightarrow> secret_store \<Rightarrow> secret_store option \<Rightarrow> VariableScope \<Rightarrow> string \<Rightarrow> bool" where
  "static_settled lib secrets vars scope n \<longleftrightarrow>
     (\<exists>sc. map_of scope n = Some sc \<and> \<not> is_dynamic (sv_def sc) \<and>
        (\<exists>v. resolve_value lib secrets vars n (sv_def sc) (sv_scope_id sc) = Inr v))"

interpretation static: sure_walk "resolve_ref lib secrets vars scope" "static_settled lib secrets vars scope"
    for lib secrets vars scope
  by unfold_locales (auto simp: static_settled_def resolve_ref_def)

lemma resolve_refs_sure:
  assumes "list_all (static_settled lib secrets vars scope) (source_refs source)"
  shows "\<exists>r. resolve_refs lib secrets vars scope source = Inr r"
proof (cases "\<exists>m. source = JObj m")
  case True
  then obtain m where m: "source = JObj m" ..
  with assms static.walk_members_sure [of lib secrets vars scope m "([], [])"]
  show ?thesis by (auto simp: resolve_refs_def)
next
  case False
  then have "source_refs source = refs_of source" by (auto simp: source_refs_def split: json.splits)
  with assms static.walk_refs_sure(1) [of lib secrets vars scope source "([], [])"] False
  show ?thesis by (auto simp: resolve_refs_def split: json.splits)
qed

lemma collect_refs_fold:
  "collect_refs on_ref v st = fold on_ref (refs_of v) st"
  "collect_items on_ref xs st = fold on_ref (refs_items xs) st"
  "collect_fields on_ref m st = fold on_ref (refs_fields m) st"
  by (induction v and xs and m arbitrary: st and st and st rule: refs_of_refs_items_refs_fields.induct)
    (auto simp: ref_list_def split: option.split)

lemma collect_static_fold:
  "collect_static_refs lib secrets vars scope source =
     fst (fold (collect_ref lib secrets vars scope) (source_refs source) ([], []))"
proof -
  have "fold (\<lambda>(k, x) st. if k = ''variables'' then st else collect_refs f x st) m st =
      fold f (refs_fields (filter (\<lambda>(k, _). k \<noteq> ''variables'') m)) st" for f :: "string \<Rightarrow> collect_state \<Rightarrow> collect_state" and m st
    by (induction m arbitrary: st) (auto simp: collect_refs_fold)
  then show ?thesis
    by (cases source) (simp_all add: collect_static_refs_def source_refs_def collect_refs_fold)
qed

text \<open>The entry of one static reference.\<close>

definition static_entry ::
  "ConfLib \<Rightarrow> secret_store \<Rightarrow> secret_store option \<Rightarrow> string \<Rightarrow> ScopedVar \<Rightarrow> StaticVarRef" where
  "static_entry lib secrets vars n sc =
     \<lparr>sr_name = n, sr_var_id = var_id (sv_scope_id sc) n, sr_kind = vd_kind (sv_def sc),
      sr_input_key = (case input_key (sv_def sc) of Some k \<Rightarrow> k | None \<Rightarrow> n),
      sr_resolves = (\<exists>v. resolve_value lib secrets vars n (sv_def sc) (sv_scope_id sc) = Inr v)\<rparr>"

lemma collected:
  assumes "set (snd st) = sr_name ` set (fst st)" "distinct (map sr_name (fst st))"
    "fold (collect_ref lib secrets vars scope) ns st = st'"
  shows "set (snd st') = sr_name ` set (fst st') \<and> distinct (map sr_name (fst st')) \<and>
    (set (fst st) \<subseteq> set (fst st')) \<and>
    (\<forall>r\<in>set (fst st'). r \<in> set (fst st) \<or>
       (\<exists>n\<in>set ns. \<exists>sc. map_of scope n = Some sc \<and> \<not> is_dynamic (sv_def sc) \<and> r = static_entry lib secrets vars n sc)) \<and>
    (\<forall>n\<in>set ns. \<forall>sc. map_of scope n = Some sc \<longrightarrow> \<not> is_dynamic (sv_def sc) \<longrightarrow> n \<in> sr_name ` set (fst st'))"
  using assms
proof (induction ns arbitrary: st)
  case (Cons n ns)
  obtain out seen where st: "st = (out, seen)" by (cases st)
  have resolves: "(case r of Inr _ \<Rightarrow> True | Inl _ \<Rightarrow> False) \<longleftrightarrow> (\<exists>v. r = Inr v)" for r :: "ConfigError + json"
    by (cases r) auto
  show ?case
  proof (cases "\<exists>sc. map_of scope n = Some sc \<and> \<not> is_dynamic (sv_def sc) \<and> n \<notin> set seen")
    case True
    then obtain sc where sc: "map_of scope n = Some sc" "\<not> is_dynamic (sv_def sc)" "n \<notin> set seen" by blast
    let ?e = "static_entry lib secrets vars n sc"
    have one: "collect_ref lib secrets vars scope n st = (out @ [?e], n # seen)"
      using sc st by (simp add: collect_ref_def static_entry_def resolves)
    have name: "sr_name ?e = n" by (simp add: static_entry_def)
    have "n \<in> sr_name ` S" if "?e \<in> S" for S using imageI [OF that, of sr_name] name by simp
    with name Cons.prems sc st one Cons.IH [of "(out @ [?e], n # seen)"] show ?thesis by auto
  next
    case False
    then have one: "collect_ref lib secrets vars scope n st = st"
      by (auto simp: collect_ref_def st split: option.splits)
    have "sr_name x \<in> sr_name ` S" if "x \<in> set out" "set out \<subseteq> S" for x S using that by blast
    with one Cons.prems False st Cons.IH [of st] show ?thesis by auto
  qed
qed simp

text \<open>
  What \<open>source connect\<close> lists is what a load needs: for a source whose references are all declared and static,
  the listing has each of them once, and the load succeeds in resolving the source if and only if every listed
  variable is shown as resolving.
\<close>

lemma listing_predicts_load:
  assumes "\<forall>n\<in>set (source_refs source). \<exists>sc. map_of scope n = Some sc \<and> \<not> is_dynamic (sv_def sc)"
  shows "distinct (map sr_name (collect_static_refs lib secrets vars scope source)) \<and>
    sr_name ` set (collect_static_refs lib secrets vars scope source) = set (source_refs source) \<and>
    ((\<exists>r. resolve_refs lib secrets vars scope source = Inr r) \<longleftrightarrow>
     (\<forall>r\<in>set (collect_static_refs lib secrets vars scope source). sr_resolves r))"
proof -
  let ?listed = "collect_static_refs lib secrets vars scope source"
  obtain seen where out: "fold (collect_ref lib secrets vars scope) (source_refs source) ([], []) = (?listed, seen)"
    by (metis collect_static_fold fst_conv surj_pair)
  note c = collected [OF _ _ out, simplified]
  then have entries: "\<And>r. r \<in> set ?listed \<Longrightarrow> \<exists>n\<in>set (source_refs source). \<exists>sc. map_of scope n = Some sc \<and>
      \<not> is_dynamic (sv_def sc) \<and> r = static_entry lib secrets vars n sc" by blast
  then have names: "sr_name ` set ?listed = set (source_refs source)"
    using c assms by (fastforce simp: static_entry_def)
  have resolves: "(\<forall>r\<in>set ?listed. sr_resolves r) \<longleftrightarrow> list_all (static_settled lib secrets vars scope) (source_refs source)"
  proof
    assume all: "\<forall>r\<in>set ?listed. sr_resolves r"
    have "static_settled lib secrets vars scope n" if n: "n \<in> set (source_refs source)" for n
    proof -
      from n [folded names] obtain r where r: "r \<in> set ?listed" "sr_name r = n" by (elim imageE) simp
      with entries obtain sc where "map_of scope n = Some sc" "\<not> is_dynamic (sv_def sc)" "r = static_entry lib secrets vars n sc"
        by (fastforce simp: static_entry_def)
      with all r(1) show ?thesis by (auto simp: static_settled_def static_entry_def)
    qed
    then show "list_all (static_settled lib secrets vars scope) (source_refs source)" by (simp add: list_all_iff)
  next
    assume "list_all (static_settled lib secrets vars scope) (source_refs source)"
    with entries show "\<forall>r\<in>set ?listed. sr_resolves r"
      by (fastforce simp: static_settled_def static_entry_def list_all_iff)
  qed
  have "list_all (static_settled lib secrets vars scope) (source_refs source)"
    if "resolve_refs lib secrets vars scope source = Inr (src', bs)" for src' bs
    using resolve_refs_core [OF that] assms by (fastforce simp: walk_inv_def settled_def static_settled_def list_all_iff)
  with resolve_refs_sure have "(\<exists>r. resolve_refs lib secrets vars scope source = Inr r) \<longleftrightarrow>
      list_all (static_settled lib secrets vars scope) (source_refs source)" by (metis surj_pair)
  with c names resolves show ?thesis by simp
qed

subsection \<open>Examples\<close>

definition demo_lib :: ConfLib where
  "demo_lib = \<lparr>cn_env = map_of [(''region'', ''eu''), (''X'', ''${var:api}'')], cn_read_file = (\<lambda>_. Inl ''absent''), cn_f64 = (\<lambda>_. None), cn_show = (\<lambda>_. []),
     cn_url = (\<lambda>_. Inl ''invalid''), cn_set_port = (\<lambda>_ _. None)\<rparr>"

definition region_def :: VariableDef where
  "region_def = \<lparr>vd_kind = Variable, vd_type = Some VtEnum, vd_default = None, vd_choices = [JStr ''us'', JStr ''eu''],
     vd_required = True, vd_description = None, vd_methods = [], vd_oauth = None, vd_input = None\<rparr>"

definition api_def :: VariableDef where
  "api_def = \<lparr>vd_kind = Secret, vd_type = None, vd_default = None, vd_choices = [],
     vd_required = True, vd_description = None, vd_methods = [], vd_oauth = None, vd_input = None\<rparr>"

definition read_def :: "json \<Rightarrow> string + VariableDef" where
  "read_def v = (if str_at v [''kind''] = Some ''secret'' then Inr api_def else Inr region_def)"

definition demo_block :: json where
  "demo_block = JObj [(''region'', JObj [(''kind'', JStr ''variable'')]), (''api'', JObj [(''kind'', JStr ''secret'')])]"

definition demo_secrets :: secret_store where
  "demo_secrets n = Inr (if n = ''api'' then Some ''k3y'' else None)"

definition demo_scope :: VariableScope where
  "demo_scope = [(''api'', \<lparr>sv_def = api_def, sv_scope_id = ''root''\<rparr>), (''region'', \<lparr>sv_def = region_def, sv_scope_id = ''root''\<rparr>)]"

definition demo_source :: json where
  "demo_source = JObj [(''name'', JStr ''crm''), (''region'', JStr ''${var:region}''), (''keys'', JArr [JStr '' ${var:api} ''])]"

lemma demo_parse: "parse_block demo_lib read_def demo_block ''root'' = Inr demo_scope"
  by code_simp


definition demo_resolved :: json where
  "demo_resolved = JObj [(''name'', JStr ''crm''), (''region'', JStr ''eu''), (''keys'', JArr [JStr ''k3y''])]"

lemma demo_run: "resolve_refs demo_lib demo_secrets None demo_scope demo_source = Inr (demo_resolved, [])"
  by code_simp

theorem resolve_refs_exact_witness:
  "demo_resolved = subst_source (inlined_ref demo_lib demo_secrets None demo_scope) demo_source \<and>
   settled demo_lib demo_secrets None demo_scope ''api''"
proof -
  have "''api'' \<in> set (source_refs demo_source)" by code_simp
  with resolve_refs_exact [OF demo_run] show ?thesis by blast
qed

text \<open>
  The two passes expand twice: a value of the environment that reads like a reference to a variable is
  replaced by the value of that variable.
\<close>

definition echo_source :: json where
  "echo_source = JObj [(''name'', JStr ''crm''), (''note'', JStr ''${env:X}'')]"

lemma values_are_expanded_again:
  "interpolate demo_lib demo_secrets echo_source = Inr (JObj [(''name'', JStr ''crm''), (''note'', JStr ''${var:api}'')])"
  "resolve_refs demo_lib demo_secrets None demo_scope (JObj [(''name'', JStr ''crm''), (''note'', JStr ''${var:api}'')]) =
     Inr (JObj [(''name'', JStr ''crm''), (''note'', JStr ''k3y'')], [])"
  by code_simp+

text \<open>A string with text around a reference is neither expanded nor refused.\<close>

lemma mixed_strings_kept:
  "interpolate demo_lib demo_secrets (JStr ''https://${env:region}.example.com'') = Inr (JStr ''https://${env:region}.example.com'')"
  by code_simp

end
