(* ===== verification/Config_Files.thy ===== *)
theory Config_Files
  imports Config_Refs "HOL-Library.Product_Lexorder"
begin

section \<open>Configurations of several files\<close>

text \<open>
  \<open>assemble.rs\<close> of \<open>pawrly-config/src\<close>: \<open>include:\<close>, \<open>from:\<close> and \<open>semantic.include:\<close>.  The file system is the
  argument \<open>Fs\<close>: a finite map from paths to texts, with the canonical form of a path and the matches of a glob
  as the operating system and the glob library give them; YAML is read by another argument.  Including
  recurses into files, so \<open>collect\<close> has fuel; the error \<open>None\<close> is running out of it, which is shown not to
  happen.  An arrow in a message is written \<open>->\<close>.
\<close>

subsection \<open>Paths and files\<close>

record Fs =
  fs_files :: "(string \<times> string) list"
  fs_absent :: "string \<Rightarrow> string"
  fs_canonicalize :: "string \<Rightarrow> string option"
  fs_glob :: "string \<Rightarrow> string + (string + string) list"
  fs_yaml :: "string \<Rightarrow> string + json"
  fs_lib :: ConfLib

text \<open>\<open>Path::parent\<close>, of a path that does not end in a \<open>.\<close> component.\<close>

definition path_parent :: "string \<Rightarrow> string option" where
  "path_parent p =
     (let q = trim_end_matches (CHR ''/'') p in
      if q = [] then None
      else let r = rev (dropWhile (\<lambda>c. c \<noteq> CHR ''/'') (rev q)) in
           if r = [] then Some []
           else if trim_end_matches (CHR ''/'') r = [] then Some ''/''
           else Some (trim_end_matches (CHR ''/'') r))"

definition base_dir :: "string \<Rightarrow> string" where
  "base_dir p = (case path_parent p of Some d \<Rightarrow> d | None \<Rightarrow> ''.'')"

text \<open>Paths are ordered by their components: the root, then \<open>.\<close>, \<open>..\<close> and names.\<close>

definition path_key :: "string \<Rightarrow> (nat \<times> string) list" where
  "path_key p =
     (if is_absolute p then [(0, [])] else if p = ''.'' \<or> starts_with ''./'' p then [(1, [])] else []) @
     map (\<lambda>c. (if c = ''..'' then 2 else 3, c)) (filter (\<lambda>c. c \<noteq> [] \<and> c \<noteq> ''.'') (split_on (CHR ''/'') p))"

definition canonical :: "Fs \<Rightarrow> string \<Rightarrow> string" where
  "canonical fs p = (case fs_canonicalize fs p of Some c \<Rightarrow> c | None \<Rightarrow> p)"

definition resolve_path :: "Fs \<Rightarrow> string \<Rightarrow> string \<Rightarrow> string" where
  "resolve_path fs base raw =
     (let expanded = expand_tilde (fs_lib fs) raw in if is_absolute expanded then expanded else path_join base expanded)"

definition read_to_string :: "Fs \<Rightarrow> string \<Rightarrow> ConfigError + string" where
  "read_to_string fs p = (case map_of (fs_files fs) p of Some s \<Rightarrow> Inr s | None \<Rightarrow> Inl (ReadFile p (fs_absent fs p)))"

definition yaml_err :: "string \<Rightarrow> string \<Rightarrow> ConfigError" where
  "yaml_err path msg = YamlError (path @ '': '' @ msg)"

definition read_yaml :: "Fs \<Rightarrow> string \<Rightarrow> ConfigError + json" where
  "read_yaml fs p =
     rbind (read_to_string fs p) (\<lambda>raw. case fs_yaml fs raw of Inr v \<Rightarrow> Inr v | Inl e \<Rightarrow> Inl (yaml_err p e))"

definition glob_paths :: "Fs \<Rightarrow> string \<Rightarrow> string \<Rightarrow> ConfigError + string list" where
  "glob_paths fs base pattern =
     (case fs_glob fs (resolve_path fs base pattern) of
        Inl e \<Rightarrow> Inl (ReadFile pattern e)
      | Inr entries \<Rightarrow>
          rbind (rmap (\<lambda>e. case e of Inr p \<Rightarrow> Inr p | Inl m \<Rightarrow> Inl (ReadFile pattern m)) entries) (\<lambda>out.
            if out = [] then Inl (ReadFile pattern ''no files matched'') else Inr (sort_key path_key out)))"

subsection \<open>The content of one file\<close>

record Collected =
  co_sources :: "json list"
  co_origins :: "string list"
  co_chains :: "string list list"
  co_frag_vars :: "(string, json) hmap"
  co_secrets :: "json list"
  co_models :: "json list"
  co_model_origins :: "string list"
  co_functions :: "json list"
  co_function_origins :: "string list"
  co_visited :: "string list"

fun include_entries :: "string \<Rightarrow> json list \<Rightarrow> ConfigError + string list" where
  "include_entries path [] = Inr []"
| "include_entries path (JStr s # xs) = rbind (include_entries path xs) (\<lambda>ps. Inr (s # ps))"
| "include_entries path (_ # xs) = Inl (yaml_err path ''`include` entries must be strings'')"

definition parse_include_patterns :: "json option \<Rightarrow> string \<Rightarrow> ConfigError + string list" where
  "parse_include_patterns incl path =
     (case incl of
        Some (JArr arr) \<Rightarrow> include_entries path arr
      | Some JNull \<Rightarrow> Inr []
      | None \<Rightarrow> Inr []
      | Some _ \<Rightarrow> Inl (yaml_err path ''`include` must be a list of paths''))"

text \<open>\<open>obj.remove(key)\<close> for a key that holds a list, null or nothing.\<close>

definition take_list :: "string \<Rightarrow> string \<Rightarrow> (string \<times> json) list \<Rightarrow> ConfigError + json list \<times> (string \<times> json) list" where
  "take_list path key obj =
     (case map_of obj key of
        Some (JArr arr) \<Rightarrow> Inr (arr, bt_remove key obj)
      | Some JNull \<Rightarrow> Inr ([], bt_remove key obj)
      | None \<Rightarrow> Inr ([], obj)
      | Some _ \<Rightarrow> Inl (yaml_err path (''`'' @ key @ ''` must be a list'')))"

definition root_only_keys :: "string list" where
  "root_only_keys = [''version'', ''name'', ''defaults'']"

definition add_sources :: "string \<Rightarrow> string list \<Rightarrow> json list \<Rightarrow> Collected \<Rightarrow> Collected" where
  "add_sources path incl_chain arr st =
     st\<lparr>co_sources := co_sources st @ arr, co_origins := co_origins st @ map (\<lambda>_. path) arr,
        co_chains := co_chains st @ map (\<lambda>_. incl_chain) arr\<rparr>"

definition take_models :: "string \<Rightarrow> (string \<times> json) list \<Rightarrow> Collected \<Rightarrow> ConfigError + (string \<times> json) list \<times> Collected" where
  "take_models path obj st =
     rbind (take_list path ''models'' obj) (\<lambda>(arr, obj').
       Inr (obj', st\<lparr>co_models := co_models st @ arr, co_model_origins := co_model_origins st @ map (\<lambda>_. path) arr\<rparr>))"

text \<open>What \<open>collect\<close> does before it looks at the included files: the patterns, what is left of the mapping, and the state.\<close>

definition own_content ::
  "string \<Rightarrow> bool \<Rightarrow> string list \<Rightarrow> (string \<times> json) list \<Rightarrow> Collected \<Rightarrow>
   ConfigError + string list \<times> (string \<times> json) list \<times> Collected" where
  "own_content path is_root incl_chain obj st =
     (let is_single_source = (\<not> is_root \<and> map_of obj ''kind'' \<noteq> None);
          root_only = (if is_single_source then [''version'', ''defaults''] else root_only_keys)
      in case (if is_root then None else find (\<lambda>key. map_of obj key \<noteq> None) root_only) of
           Some key \<Rightarrow> Inl (SourceInvalid path (''key `'' @ key @ ''` is only allowed in the root config''))
         | None \<Rightarrow>
             rbind (if is_root then Inr (obj, st) else take_models path obj st) (\<lambda>(obj1, st1).
             if is_single_source then
               rbind (parse_include_patterns (map_of obj1 ''include'') path) (\<lambda>patterns.
                 Inr (patterns, [], add_sources path incl_chain [JObj (bt_remove ''include'' obj1)] st1))
             else
               (let obj2 = (if is_root then obj1 else bt_remove ''variables'' obj1);
                    st2 = (case (is_root, map_of obj1 ''variables'') of
                        (False, Some v) \<Rightarrow> if v = JNull then st1 else st1\<lparr>co_frag_vars := hm_insert path v (co_frag_vars st1)\<rparr>
                      | _ \<Rightarrow> st1)
                in rbind (take_list path ''sources'' obj2) (\<lambda>(srcs, obj3).
                   rbind (take_list path ''secrets'' obj3) (\<lambda>(secs, obj4).
                   rbind (take_list path ''functions'' obj4) (\<lambda>(funs, obj5).
                   rbind (parse_include_patterns (map_of obj5 ''include'') path) (\<lambda>patterns.
                     Inr (patterns, bt_remove ''include'' obj5,
                       (add_sources path incl_chain srcs st2)\<lparr>co_secrets := co_secrets st2 @ secs,
                         co_functions := co_functions st2 @ funs,
                         co_function_origins := co_function_origins st2 @ map (\<lambda>_. path) funs\<rparr>))))))))"

subsection \<open>Including\<close>

definition fail :: "ConfigError \<Rightarrow> ConfigError option + 'a" where
  "fail e = Inl (Some e)"

definition lift :: "ConfigError + 'a \<Rightarrow> ConfigError option + 'a" where
  "lift r = (case r of Inl e \<Rightarrow> fail e | Inr a \<Rightarrow> Inr a)"

function collect ::
    "nat \<Rightarrow> Fs \<Rightarrow> json \<Rightarrow> string \<Rightarrow> bool \<Rightarrow> string list \<Rightarrow> Collected \<Rightarrow> ConfigError option + json \<times> Collected"
  and collect_patterns ::
    "nat \<Rightarrow> Fs \<Rightarrow> string \<Rightarrow> string list \<Rightarrow> string list \<Rightarrow> Collected \<Rightarrow> ConfigError option + Collected"
  and collect_files ::
    "nat \<Rightarrow> Fs \<Rightarrow> string list \<Rightarrow> string list \<Rightarrow> Collected \<Rightarrow> ConfigError option + Collected" where
  "collect 0 fs tree path is_root incl_chain st = Inl None"
| "collect (Suc n) fs tree path is_root incl_chain st =
     (case tree of
        JObj obj \<Rightarrow>
          rbind (lift (own_content path is_root incl_chain obj st)) (\<lambda>(patterns, obj', st1).
          rbind (collect_patterns n fs (base_dir path) incl_chain patterns st1) (\<lambda>st2. Inr (JObj obj', st2)))
      | _ \<Rightarrow> fail (yaml_err path ''top-level config must be a mapping''))"
| "collect_patterns n fs base incl_chain [] st = Inr st"
| "collect_patterns n fs base incl_chain (pattern # ps) st =
     rbind (lift (glob_paths fs base pattern)) (\<lambda>files.
     rbind (collect_files n fs incl_chain files st) (\<lambda>st1. collect_patterns n fs base incl_chain ps st1))"
| "collect_files n fs incl_chain [] st = Inr st"
| "collect_files n fs incl_chain (file # files) st =
     (if canonical fs file \<in> set (co_visited st)
      then fail (IncludeCycle (join '' -> '' (incl_chain @ [file])))
      else
        rbind (lift (read_yaml fs file)) (\<lambda>sub.
        rbind (collect n fs sub file False (incl_chain @ [file])
          (st\<lparr>co_visited := canonical fs file # co_visited st\<rparr>)) (\<lambda>(_, st1).
          collect_files n fs incl_chain files st1)))"
  by pat_completeness auto
termination
  by (relation "inv_image (less_than <*lex*> less_than <*lex*> less_than) (\<lambda>x. case x of
      Inl (n, _) \<Rightarrow> (n, 0, 0)
    | Inr (Inl (n, fs, base, ch, ps, st)) \<Rightarrow> (n, 2, length ps)
    | Inr (Inr (n, fs, ch, files, st)) \<Rightarrow> (n, 1, length files))") auto

declare collect.simps [simp del] collect_patterns.simps [simp del] collect_files.simps [simp del]

subsection \<open>The body of a source from another file\<close>

definition source_name_of :: "json \<Rightarrow> string" where
  "source_name_of src = (case str_at src [''name''] of Some n \<Rightarrow> n | None \<Rightarrow> ''<unnamed>'')"

function deep_merge :: "json \<Rightarrow> json \<Rightarrow> json" and merge_entries :: "json bmap \<Rightarrow> (string \<times> json) list \<Rightarrow> json bmap" where
  "deep_merge base overlay =
     (case (base, overlay) of (JObj b, JObj over_obj) \<Rightarrow> JObj (merge_entries b over_obj) | _ \<Rightarrow> overlay)"
| "merge_entries b [] = b"
| "merge_entries b ((k, ov) # over_obj) =
     merge_entries (case map_of b k of Some bv \<Rightarrow> bt_insert k (deep_merge bv ov) b | None \<Rightarrow> bt_insert k ov b) over_obj"
  by pat_completeness auto
termination
  by (relation "measure (\<lambda>x. case x of Inl (b, ov) \<Rightarrow> size ov
    | Inr (b, over_obj) \<Rightarrow> size_list (size_prod (\<lambda>_. 0) size) over_obj)") auto

declare deep_merge.simps [simp del]

definition set_opt :: "string \<Rightarrow> json option \<Rightarrow> json bmap \<Rightarrow> json bmap" where
  "set_opt k v m = (case v of Some x \<Rightarrow> bt_insert k x m | None \<Rightarrow> m)"

definition expand_from :: "Fs \<Rightarrow> json \<Rightarrow> string \<Rightarrow> ConfigError + json" where
  "expand_from fs src origin =
     (case get_key src ''from'' of
        None \<Rightarrow> Inr src
      | Some (JStr from_str) \<Rightarrow>
          (let name = source_name_of src; frag_path = resolve_path fs (base_dir origin) from_str in
           rbind (read_yaml fs frag_path) (\<lambda>fragment.
           case fragment of
             JObj frag_obj \<Rightarrow>
               if map_of frag_obj ''name'' \<noteq> None \<or> map_of frag_obj ''kind'' \<noteq> None
               then Inl (SourceInvalid name ''`from:` target must not set `name` or `kind`'')
               else if map_of frag_obj ''from'' \<noteq> None
               then Inl (SourceInvalid name ''`from:` is not transitive: the target file may not itself contain `from:`'')
               else
                 (let src_obj = (case src of JObj m \<Rightarrow> m | _ \<Rightarrow> []);
                      overlay = bt_remove ''kind'' (bt_remove ''name'' (bt_remove ''from'' src_obj))
                  in case deep_merge fragment (JObj overlay) of
                       JObj merged \<Rightarrow>
                         Inr (JObj (set_opt ''kind'' (map_of src_obj ''kind'') (set_opt ''name'' (map_of src_obj ''name'') merged)))
                     | _ \<Rightarrow> Inl (YamlError ''`from:` merge produced a non-mapping''))
           | _ \<Rightarrow> Inl (yaml_err frag_path ''`from:` target must be a mapping'')))
      | Some _ \<Rightarrow> Inl (SourceInvalid (source_name_of src) ''`from:` must be a string path''))"

subsection \<open>Assembling\<close>

text \<open>The checks for duplicates: the first value whose key was seen, with both its files.\<close>

fun first_duplicate :: "('a \<Rightarrow> string option) \<Rightarrow> (string, string) hmap \<Rightarrow> ('a \<times> string) list \<Rightarrow> ('a \<times> string \<times> string) option" where
  "first_duplicate key seen [] = None"
| "first_duplicate key seen ((x, origin) # xs) =
     (case key x of
        None \<Rightarrow> first_duplicate key seen xs
      | Some k \<Rightarrow>
          (case hm_get seen k of
             Some prev \<Rightarrow> Some (x, prev, origin)
           | None \<Rightarrow> first_duplicate key (hm_insert k origin seen) xs))"

definition declared_in :: "string \<Rightarrow> string \<Rightarrow> string \<Rightarrow> string" where
  "declared_in what prev origin = ''duplicate '' @ what @ '' (declared in `'' @ prev @ ''` and `'' @ origin @ ''`)''"

definition name_key :: "json \<Rightarrow> string option" where
  "name_key v = str_at v [''name'']"

definition function_key :: "json \<Rightarrow> string option" where
  "function_key f =
     (case (str_at f [''namespace''], str_at f [''name'']) of
        (Some ns, Some name) \<Rightarrow> Some (ns @ ''.'' @ name)
      | _ \<Rightarrow> None)"

definition load_model_file :: "Fs \<Rightarrow> string \<Rightarrow> ConfigError + json list" where
  "load_model_file fs path =
     rbind (read_yaml fs path) (\<lambda>v.
       case v of
         JArr arr \<Rightarrow> Inr arr
       | JObj m \<Rightarrow>
           (let extra = bt_remove ''models'' m in
            if extra \<noteq> []
            then Inl (yaml_err path (''a semantic include file may contain only models; unexpected key(s): '' @
                   join '', '' (sort (map fst extra))))
            else case map_of m ''models'' of
                Some (JArr arr) \<Rightarrow> Inr arr
              | Some JNull \<Rightarrow> Inr []
              | None \<Rightarrow> Inr []
              | Some _ \<Rightarrow> Inl (yaml_err path ''`models` must be a list''))
       | _ \<Rightarrow> Inl (yaml_err path ''a semantic include file must be a list of models or a mapping with `models:`''))"

definition load_models :: "Fs \<Rightarrow> string \<Rightarrow> string list \<Rightarrow> ConfigError + (json \<times> string) list" where
  "load_models fs base patterns =
     rbind (rmap (\<lambda>pattern. rbind (glob_paths fs base pattern)
         (rmap (\<lambda>file. rbind (load_model_file fs file) (\<lambda>ms. Inr (map (\<lambda>m. (m, file)) ms))))) patterns) (\<lambda>loaded.
       Inr (concat (concat loaded)))"

definition assemble_semantic_models ::
  "Fs \<Rightarrow> json bmap \<Rightarrow> string \<Rightarrow> (json \<times> string) list \<Rightarrow> ConfigError + json bmap" where
  "assemble_semantic_models fs obj root_path fragment_models =
     rbind (case map_of obj ''semantic'' of
              Some (JObj sem) \<Rightarrow>
                rbind (parse_include_patterns (map_of sem ''include'') root_path) (\<lambda>p.
                  Inr (p, bt_insert ''semantic'' (JObj (bt_remove ''include'' sem)) obj))
            | _ \<Rightarrow> Inr ([], obj)) (\<lambda>(patterns, obj').
     if patterns = [] \<and> fragment_models = [] then Inr obj'
     else
       (let inline = (case Option.bind (map_of obj' ''semantic'') (\<lambda>s. get_key s ''models'') of
                        Some (JArr ms) \<Rightarrow> map (\<lambda>m. (m, root_path)) ms | _ \<Rightarrow> [])
        in rbind (load_models fs (base_dir root_path) patterns) (\<lambda>included.
           let models = inline @ included @ fragment_models in
           case first_duplicate name_key [] models of
             Some (m, prev, origin) \<Rightarrow>
               Inl (SemanticInvalid (the (name_key m)) (declared_in ''model name'' prev origin))
           | None \<Rightarrow>
               (case (case map_of obj' ''semantic'' of Some s \<Rightarrow> s | None \<Rightarrow> JObj []) of
                  JObj sem \<Rightarrow> Inr (bt_insert ''semantic'' (JObj (bt_insert ''models'' (JArr (map fst models)) sem)) obj')
                | _ \<Rightarrow> Inl (YamlError ''`semantic` must be a mapping'')))))"

record Assembled =
  as_origins :: "string list"
  as_source_chains :: "string list list"
  as_frag_vars :: "(string, json) hmap"

definition nothing_collected :: "string list \<Rightarrow> Collected" where
  "nothing_collected visited =
     \<lparr>co_sources = [], co_origins = [], co_chains = [], co_frag_vars = [], co_secrets = [], co_models = [],
      co_model_origins = [], co_functions = [], co_function_origins = [], co_visited = visited\<rparr>"

definition set_or_remove :: "string \<Rightarrow> json list \<Rightarrow> json bmap \<Rightarrow> json bmap" where
  "set_or_remove k xs m = (if xs = [] then bt_remove k m else bt_insert k (JArr xs) m)"

definition assemble_fuel :: "Fs \<Rightarrow> nat" where
  "assemble_fuel fs = Suc (length (fs_files fs))"

definition assemble :: "Fs \<Rightarrow> json \<Rightarrow> string \<Rightarrow> ConfigError option + json \<times> Assembled" where
  "assemble fs tree root_path =
     rbind (collect (assemble_fuel fs) fs tree root_path True [root_path] (nothing_collected [canonical fs root_path]))
       (\<lambda>(tree', st).
     rbind (lift (rmap (\<lambda>(src, origin). expand_from fs src origin) (zip (co_sources st) (co_origins st)))) (\<lambda>sources.
     case first_duplicate name_key [] (zip sources (co_origins st)) of
       Some (src, prev, origin) \<Rightarrow> fail (SourceInvalid (the (name_key src)) (declared_in ''source name'' prev origin))
     | None \<Rightarrow>
         (case first_duplicate function_key [] (zip (co_functions st) (co_function_origins st)) of
            Some (f, prev, origin) \<Rightarrow>
              fail (FunctionInvalid (the (str_at f [''namespace''])) (the (str_at f [''name''])) (declared_in ''function'' prev origin))
          | None \<Rightarrow>
              (case tree' of
                 JObj obj \<Rightarrow>
                   (let obj' = set_or_remove ''functions'' (co_functions st) (set_or_remove ''secrets'' (co_secrets st)
                          (bt_remove ''include'' (bt_insert ''sources'' (JArr sources) obj)))
                    in rbind (lift (assemble_semantic_models fs obj' root_path (zip (co_models st) (co_model_origins st)))) (\<lambda>obj''.
                         Inr (JObj obj'', \<lparr>as_origins = co_origins st, as_source_chains = co_chains st,
                           as_frag_vars = co_frag_vars st\<rparr>)))
               | _ \<Rightarrow> fail (YamlError ''top-level config must be a mapping'')))))"

subsection \<open>The graph of includes\<close>

datatype IncludeNode = IncludeNode (in_path: string) (in_children: "IncludeNode list")

function build_include_node ::
    "nat \<Rightarrow> Fs \<Rightarrow> string \<Rightarrow> string list \<Rightarrow> string list \<Rightarrow> ConfigError option + IncludeNode \<times> string list"
  and build_patterns ::
    "nat \<Rightarrow> Fs \<Rightarrow> string \<Rightarrow> string list \<Rightarrow> string list \<Rightarrow> string list \<Rightarrow>
     ConfigError option + IncludeNode list \<times> string list"
  and build_children ::
    "nat \<Rightarrow> Fs \<Rightarrow> string list \<Rightarrow> string list \<Rightarrow> string list \<Rightarrow> ConfigError option + IncludeNode list \<times> string list" where
  "build_include_node 0 fs path visited incl_chain = Inl None"
| "build_include_node (Suc n) fs path visited incl_chain =
     rbind (lift (read_yaml fs path)) (\<lambda>tree.
     rbind (lift (parse_include_patterns (get_key tree ''include'') path)) (\<lambda>patterns.
     rbind (build_patterns n fs (base_dir path) patterns visited incl_chain) (\<lambda>(children, visited').
       Inr (IncludeNode path children, visited'))))"
| "build_patterns n fs base [] visited incl_chain = Inr ([], visited)"
| "build_patterns n fs base (pattern # ps) visited incl_chain =
     rbind (lift (glob_paths fs base pattern)) (\<lambda>files.
     rbind (build_children n fs files visited incl_chain) (\<lambda>(nodes, visited1).
     rbind (build_patterns n fs base ps visited1 incl_chain) (\<lambda>(more, visited2). Inr (nodes @ more, visited2))))"
| "build_children n fs [] visited incl_chain = Inr ([], visited)"
| "build_children n fs (file # files) visited incl_chain =
     (if canonical fs file \<in> set visited then fail (IncludeCycle (join '' -> '' (incl_chain @ [file])))
      else
        rbind (build_include_node n fs file (canonical fs file # visited) (incl_chain @ [file])) (\<lambda>(node, visited1).
        rbind (build_children n fs files visited1 incl_chain) (\<lambda>(nodes, visited2). Inr (node # nodes, visited2))))"
  by pat_completeness auto
termination
  by (relation "inv_image (less_than <*lex*> less_than <*lex*> less_than) (\<lambda>x. case x of
      Inl (n, _) \<Rightarrow> (n, 0, 0)
    | Inr (Inl (n, fs, base, ps, _)) \<Rightarrow> (n, 2, length ps)
    | Inr (Inr (n, fs, files, _)) \<Rightarrow> (n, 1, length files))") auto

declare build_include_node.simps [simp del] build_patterns.simps [simp del] build_children.simps [simp del]

definition include_tree :: "Fs \<Rightarrow> string \<Rightarrow> ConfigError option + IncludeNode" where
  "include_tree fs path =
     rbind (build_include_node (assemble_fuel fs) fs path [canonical fs path] [path]) (\<lambda>(node, _). Inr node)"

definition uses_file_primitives :: "json \<Rightarrow> bool" where
  "uses_file_primitives tree =
     (case tree of
        JObj obj \<Rightarrow>
          (let some_list = (\<lambda>v. case v of Some (JArr a) \<Rightarrow> a \<noteq> [] | _ \<Rightarrow> False)
           in some_list (map_of obj ''include'') \<or>
              (case Option.bind (map_of obj ''sources'') as_list of
                 Some arr \<Rightarrow> list_ex (\<lambda>s. case get_key s ''from'' of Some v \<Rightarrow> v \<noteq> JNull | None \<Rightarrow> False) arr
               | None \<Rightarrow> False) \<or>
              (case map_of obj ''semantic'' of Some (JObj s) \<Rightarrow> some_list (map_of s ''include'') | _ \<Rightarrow> False))
      | _ \<Rightarrow> False)"

subsection \<open>Including always ends\<close>

lemma lift_eq [simp]:
  "lift r = Inr a \<longleftrightarrow> r = Inr a" "lift r = Inl (Some e) \<longleftrightarrow> r = Inl e" "lift r \<noteq> Inl None" "fail e \<noteq> Inl None" "fail e \<noteq> Inr a"
  by (auto simp: lift_def fail_def split: sum.splits)

lemma lift_simps [simp]: "lift (Inr a) = Inr a" "lift (Inl e) = fail e"
  by (simp_all add: lift_def)

lemma take_list_Inr: "take_list path key obj = Inr (xs, obj') \<Longrightarrow> obj' = bt_remove key obj"
  by (auto simp: take_list_def bt_remove_def map_of_eq_None_iff split: option.splits json.splits)
    (metis (mono_tags, lifting) filter_True image_eqI)

lemma rbind_InrE: "rbind m f = Inr b \<Longrightarrow> (\<And>a. m = Inr a \<Longrightarrow> f a = Inr b \<Longrightarrow> P) \<Longrightarrow> P"
  by (auto simp: rbind_eq_Inr)

text \<open>
  What collecting one file has to promise: an invariant of the state survives its own content (given what holds
  of its path and chain) and the marking of a file as visited.  Then it survives the whole recursion.
\<close>

locale collect_rule =
  fixes inv :: "Collected \<Rightarrow> bool" and good :: "string \<Rightarrow> string list \<Rightarrow> bool"
  assumes own: "good path ch \<Longrightarrow> inv st \<Longrightarrow> own_content path r ch obj st = Inr (ps, obj', st') \<Longrightarrow> inv st'"
    and mark: "inv st \<Longrightarrow> inv (st\<lparr>co_visited := c # co_visited st\<rparr>)"
    and enter: "good path ch \<Longrightarrow> good fl (ch @ [fl])"
begin

lemma collect_keeps:
  "collect n fs tree path r ch st = Inr (tree', st') \<Longrightarrow> good path ch \<Longrightarrow> inv st \<Longrightarrow> inv st'"
  "collect_patterns n fs base ch ps st = Inr st' \<Longrightarrow> good path ch \<Longrightarrow> inv st \<Longrightarrow> inv st'"
  "collect_files n fs ch files st = Inr st' \<Longrightarrow> good path ch \<Longrightarrow> inv st \<Longrightarrow> inv st'"
proof (induction n fs tree path r ch st and n fs base ch ps st and n fs ch files st
    arbitrary: tree' st' and st' path and st' path rule: collect_collect_patterns_collect_files.induct)
  case (1 fs tree path r ch st)
  then show ?case by (simp add: collect.simps)
next
  case (2 n fs tree path r ch st)
  from 2(2) obtain obj where obj: "tree = JObj obj" by (auto simp: collect.simps split: json.splits)
  with 2(2) obtain ps obj' st1 where own_step: "own_content path r ch obj st = Inr (ps, obj', st1)"
    and rest: "collect_patterns n fs (base_dir path) ch ps st1 = Inr st'"
    by (auto simp: collect.simps rbind_eq_Inr)
  have l: "lift (own_content path r ch obj st) = Inr (ps, obj', st1)" using own_step by simp
  from 2(1) [OF obj l refl refl rest 2(3)] own [OF 2(3,4) own_step] show ?case by blast
next
  case (4 n fs base ch p ps st)
  then show ?case by (auto simp: collect_patterns.simps rbind_eq_Inr)
next
  case (6 n fs ch fl files st)
  from 6(3) have new: "canonical fs fl \<notin> set (co_visited st)" by (auto simp: collect_files.simps)
  with 6(3) obtain sub t st1 where sub: "read_yaml fs fl = Inr sub"
    and inner: "collect n fs sub fl False (ch @ [fl]) (st\<lparr>co_visited := canonical fs fl # co_visited st\<rparr>) = Inr (t, st1)"
    and rest: "collect_files n fs ch files st1 = Inr st'"
    by (auto simp: collect_files.simps rbind_eq_Inr)
  have l: "lift (read_yaml fs fl) = Inr sub" using sub by simp
  from 6(1) [OF new l inner enter [OF 6(4)] mark [OF 6(5)]] have "inv st1" .
  with 6(2) [OF new l inner refl rest 6(4)] show ?case .
qed (simp_all add: collect_patterns.simps collect_files.simps)

end

lemma own_content_visited:
  "own_content path r ch obj st = Inr (ps, obj', st') \<Longrightarrow> co_visited st' = co_visited st"
  by (auto simp: own_content_def take_models_def add_sources_def Let_def rbind_eq_Inr split: option.splits if_splits)

interpretation visited: collect_rule "\<lambda>st. V \<subseteq> set (co_visited st)" "\<lambda>_ _. True" for V
  by unfold_locales (auto simp: own_content_visited)

text \<open>The files that can still be entered: their canonical names that are not visited.\<close>

definition unread :: "Fs \<Rightarrow> Collected \<Rightarrow> nat" where
  "unread fs st = card (canonical fs ` fst ` set (fs_files fs) - set (co_visited st))"

lemma unread_mono: "set (co_visited st) \<subseteq> set (co_visited st') \<Longrightarrow> unread fs st' \<le> unread fs st"
  unfolding unread_def by (intro card_mono) auto

lemma unread_enter:
  assumes "read_yaml fs fl = Inr sub" "canonical fs fl \<notin> set (co_visited st)"
  shows "unread fs (st\<lparr>co_visited := canonical fs fl # co_visited st\<rparr>) < unread fs st"
proof -
  from assms(1) obtain body where "map_of (fs_files fs) fl = Some body"
    by (auto simp: read_yaml_def read_to_string_def rbind_eq_Inr split: option.splits)
  then have "fl \<in> fst ` set (fs_files fs)" by (auto dest: map_of_SomeD intro: rev_image_eqI)
  then have "canonical fs fl \<in> canonical fs ` fst ` set (fs_files fs)" by (rule imageI)
  with assms(2) show ?thesis unfolding unread_def by (intro psubset_card_mono) auto
qed

lemma collect_needs_fuel:
  "collect n fs tree path r ch st = Inl None \<Longrightarrow> n \<le> unread fs st"
  "collect_patterns n fs base ch ps st = Inl None \<Longrightarrow> n < unread fs st"
  "collect_files n fs ch files st = Inl None \<Longrightarrow> n < unread fs st"
proof (induction n fs tree path r ch st and n fs base ch ps st and n fs ch files st
    rule: collect_collect_patterns_collect_files.induct)
  case (2 n fs tree path r ch st)
  from 2(2) obtain obj ps obj' st1 where obj: "tree = JObj obj" and own: "own_content path r ch obj st = Inr (ps, obj', st1)"
    and rest: "collect_patterns n fs (base_dir path) ch ps st1 = Inl None"
    by (auto simp: collect.simps rbind_eq_Inl split: json.splits)
  have l: "lift (own_content path r ch obj st) = Inr (ps, obj', st1)" using own by simp
  from 2(1) [OF obj l refl refl rest] own_content_visited [OF own] show ?case by (simp add: unread_def)
next
  case (4 n fs base ch p ps st)
  from 4(3) obtain files where files: "glob_paths fs base p = Inr files"
    by (auto simp: collect_patterns.simps rbind_eq_Inl)
  have l: "lift (glob_paths fs base p) = Inr files" using files by simp
  show ?case
  proof (cases "collect_files n fs ch files st")
    case (Inl e)
    with 4(3) files 4(1) [OF l] show ?thesis by (auto simp: collect_patterns.simps)
  next
    case (Inr st1)
    with 4(3) files 4(2) [OF l Inr] have "n < unread fs st1" by (auto simp: collect_patterns.simps)
    also have "unread fs st1 \<le> unread fs st"
      by (rule unread_mono) (use visited.collect_keeps(3) [OF Inr, of "set (co_visited st)"] in simp)
    finally show ?thesis .
  qed
next
  case (6 n fs ch fl files st)
  let ?st = "st\<lparr>co_visited := canonical fs fl # co_visited st\<rparr>"
  from 6(3) have new: "canonical fs fl \<notin> set (co_visited st)" by (auto simp: collect_files.simps)
  with 6(3) obtain sub where sub: "read_yaml fs fl = Inr sub" by (auto simp: collect_files.simps rbind_eq_Inl)
  have l: "lift (read_yaml fs fl) = Inr sub" using sub by simp
  note enter = unread_enter [OF sub new]
  show ?case
  proof (cases "collect n fs sub fl False (ch @ [fl]) ?st")
    case (Inl e)
    with 6(3) sub new 6(1) [OF new l] enter show ?thesis by (auto simp: collect_files.simps)
  next
    case (Inr res)
    then obtain t st1 where inner: "collect n fs sub fl False (ch @ [fl]) ?st = Inr (t, st1)" by (cases res) auto
    with 6(3) sub new 6(2) [OF new l inner refl] have "n < unread fs st1" by (auto simp: collect_files.simps)
    also have "unread fs st1 \<le> unread fs ?st"
      by (rule unread_mono) (use visited.collect_keeps(1) [OF inner, of "set (co_visited ?st)"] in simp)
    finally show ?thesis using enter by simp
  qed
qed (simp_all add: collect.simps collect_patterns.simps collect_files.simps)

lemma unread_le: "unread fs st \<le> length (fs_files fs)"
proof -
  have "unread fs st \<le> card (canonical fs ` fst ` set (fs_files fs))" unfolding unread_def by (intro card_mono) auto
  also have "\<dots> \<le> card (set (fs_files fs))" by (meson card_image_le finite_set finite_imageI le_trans)
  also have "\<dots> \<le> length (fs_files fs)" by (rule card_length)
  finally show ?thesis .
qed

text \<open>The same for the graph of includes, whose state is the list of visited files.\<close>

lemma tree_visited:
  "build_include_node n fs path visited ch = Inr (node, visited') \<Longrightarrow> set visited \<subseteq> set visited'"
  "build_patterns n fs base ps visited ch = Inr (nodes, visited') \<Longrightarrow> set visited \<subseteq> set visited'"
  "build_children n fs files visited ch = Inr (nodes, visited') \<Longrightarrow> set visited \<subseteq> set visited'"
proof (induction n fs path visited ch and n fs base ps visited ch and n fs files visited ch
    arbitrary: node visited' and nodes visited' and nodes visited'
    rule: build_include_node_build_patterns_build_children.induct)
  case (2 n fs path visited ch)
  from 2(2) obtain t ps children where "read_yaml fs path = Inr t" "parse_include_patterns (get_key t ''include'') path = Inr ps"
    "build_patterns n fs (base_dir path) ps visited ch = Inr (children, visited')"
    by (auto simp: build_include_node.simps rbind_eq_Inr)
  with 2(1) show ?case by simp
next
  case (4 n fs base p ps visited ch)
  from 4(3) obtain files nodes1 visited1 nodes2 where "glob_paths fs base p = Inr files"
    "build_children n fs files visited ch = Inr (nodes1, visited1)" "build_patterns n fs base ps visited1 ch = Inr (nodes2, visited')"
    by (auto simp: build_patterns.simps rbind_eq_Inr)
  with 4(1,2) show ?case by fastforce
next
  case (6 n fs fl files visited ch)
  from 6(3) obtain node1 visited1 nodes2 where "canonical fs fl \<notin> set visited"
    "build_include_node n fs fl (canonical fs fl # visited) (ch @ [fl]) = Inr (node1, visited1)"
    "build_children n fs files visited1 ch = Inr (nodes2, visited')"
    by (auto simp: build_children.simps rbind_eq_Inr split: if_splits)
  with 6(1,2) show ?case by fastforce
qed (simp_all add: build_include_node.simps build_patterns.simps build_children.simps)

abbreviation unread_of :: "Fs \<Rightarrow> string list \<Rightarrow> nat" where
  "unread_of fs visited \<equiv> unread fs (nothing_collected visited)"

lemma tree_needs_fuel:
  "build_include_node n fs path visited ch = Inl None \<Longrightarrow> n \<le> Suc (unread_of fs visited)"
  "build_patterns n fs base ps visited ch = Inl None \<Longrightarrow> n \<le> unread_of fs visited"
  "build_children n fs files visited ch = Inl None \<Longrightarrow> n \<le> unread_of fs visited"
proof (induction n fs path visited ch and n fs base ps visited ch and n fs files visited ch
    rule: build_include_node_build_patterns_build_children.induct)
  case (2 n fs path visited ch)
  from 2(2) obtain t ps where t: "read_yaml fs path = Inr t" "parse_include_patterns (get_key t ''include'') path = Inr ps"
    "build_patterns n fs (base_dir path) ps visited ch = Inl None"
    by (auto simp: build_include_node.simps rbind_eq_Inl)
  have l: "lift (read_yaml fs path) = Inr t" "lift (parse_include_patterns (get_key t ''include'') path) = Inr ps"
    using t by simp_all
  from 2(1) [OF l t(3)] show ?case by simp
next
  case (4 n fs base p ps visited ch)
  from 4(3) obtain files where files: "glob_paths fs base p = Inr files"
    by (auto simp: build_patterns.simps rbind_eq_Inl)
  have l: "lift (glob_paths fs base p) = Inr files" using files by simp
  show ?case
  proof (cases "build_children n fs files visited ch")
    case (Inl e)
    with 4(3) files 4(1) [OF l] show ?thesis by (auto simp: build_patterns.simps)
  next
    case (Inr res)
    then obtain nodes visited1 where inner: "build_children n fs files visited ch = Inr (nodes, visited1)" by (cases res) auto
    with 4(3) files 4(2) [OF l inner refl] have "n \<le> unread_of fs visited1"
      by (auto simp: build_patterns.simps rbind_eq_Inl)
    also have "\<dots> \<le> unread_of fs visited"
      by (rule unread_mono) (use tree_visited(3) [OF inner] in \<open>simp add: nothing_collected_def\<close>)
    finally show ?thesis .
  qed
next
  case (6 n fs fl files visited ch)
  let ?v = "canonical fs fl # visited"
  from 6(3) have new: "canonical fs fl \<notin> set visited" by (auto simp: build_children.simps)
  show ?case
  proof (cases "n = 0")
    case False
    then obtain k where k: "n = Suc k" by (cases n) auto
    from 6(3) new obtain sub where sub: "read_yaml fs fl = Inr sub"
      by (auto simp: build_children.simps rbind_eq_Inl rbind_eq_Inr build_include_node.simps k)
    have enter: "unread_of fs ?v < unread_of fs visited"
      using unread_enter [OF sub, of "nothing_collected visited"] new by (simp add: nothing_collected_def)
    show ?thesis
    proof (cases "build_include_node n fs fl ?v (ch @ [fl])")
      case (Inl e)
      with 6(3) new 6(1) [OF new] enter show ?thesis by (auto simp: build_children.simps)
    next
      case (Inr res)
      then obtain node visited1 where inner: "build_include_node n fs fl ?v (ch @ [fl]) = Inr (node, visited1)" by (cases res) auto
      with 6(3) new 6(2) [OF new inner refl] have "n \<le> unread_of fs visited1"
        by (auto simp: build_children.simps rbind_eq_Inl)
      also have "\<dots> \<le> unread_of fs ?v"
        by (rule unread_mono) (use tree_visited(1) [OF inner] in \<open>simp add: nothing_collected_def\<close>)
      finally show ?thesis using enter by simp
    qed
  qed simp
qed (simp_all add: build_include_node.simps build_patterns.simps build_children.simps)

lemma root_read:
  assumes "read_yaml fs path = Inr t"
  shows "unread_of fs [canonical fs path] < length (fs_files fs)"
proof -
  have "unread_of fs [canonical fs path] < unread_of fs []"
    using unread_enter [OF assms, of "nothing_collected []"] by (simp add: nothing_collected_def)
  with unread_le [of fs "nothing_collected []"] show ?thesis by simp
qed

text \<open>
  C25. Assembling a configuration always ends: however the files include each other, the fuel given to the two
  recursions (one more than there are files) is never used up, because a file is entered at most once.
\<close>

theorem assembling_ends:
  "assemble fs tree root_path \<noteq> Inl None \<and> include_tree fs root_path \<noteq> Inl None"
proof
  have "collect (assemble_fuel fs) fs tree root_path True [root_path] (nothing_collected [canonical fs root_path]) \<noteq> Inl None"
    using collect_needs_fuel(1) unread_le assemble_fuel_def by (metis Suc_n_not_le_n le_trans)
  then show "assemble fs tree root_path \<noteq> Inl None"
    by (auto simp: assemble_def rbind_eq_Inl split: option.splits json.splits)
  have "build_include_node (assemble_fuel fs) fs root_path [canonical fs root_path] [root_path] \<noteq> Inl None"
  proof
    assume run: "build_include_node (assemble_fuel fs) fs root_path [canonical fs root_path] [root_path] = Inl None"
    then obtain t where "read_yaml fs root_path = Inr t"
      by (auto simp: build_include_node.simps assemble_fuel_def rbind_eq_Inl)
    from root_read [OF this] tree_needs_fuel(1) [OF run] show False by (simp add: assemble_fuel_def)
  qed
  then show "include_tree fs root_path \<noteq> Inl None"
    by (auto simp: include_tree_def rbind_eq_Inl)
qed

subsection \<open>Where a source comes from\<close>

definition chain_of :: "string \<Rightarrow> string \<Rightarrow> string list \<Rightarrow> bool" where
  "chain_of root_path path ch \<longleftrightarrow> ch \<noteq> [] \<and> hd ch = root_path \<and> last ch = path"

definition provenance :: "string \<Rightarrow> Collected \<Rightarrow> bool" where
  "provenance root_path st \<longleftrightarrow>
     length (co_origins st) = length (co_sources st) \<and> list_all2 (chain_of root_path) (co_origins st) (co_chains st) \<and>
     length (co_model_origins st) = length (co_models st) \<and> length (co_function_origins st) = length (co_functions st)"

lemma provenance_sources:
  "provenance root_path st \<Longrightarrow> chain_of root_path path ch \<Longrightarrow> provenance root_path (add_sources path ch arr st)"
  by (auto simp: provenance_def add_sources_def list_all2_map1 list_all2_map2 intro!: list_all2_appendI list.rel_refl_strong)

lemma provenance_models:
  "take_models path obj st = Inr (obj', st') \<Longrightarrow> provenance root_path st \<Longrightarrow> provenance root_path st'"
  by (auto simp: take_models_def rbind_eq_Inr provenance_def)

lemma provenance_frame:
  "provenance root_path st \<Longrightarrow> provenance root_path (st\<lparr>co_frag_vars := v\<rparr>)"
  "provenance root_path st \<Longrightarrow> provenance root_path (st\<lparr>co_visited := vs\<rparr>)"
  "provenance root_path st \<Longrightarrow> provenance root_path (st\<lparr>co_secrets := s, co_functions := co_functions st @ fs,
     co_function_origins := co_function_origins st @ map (\<lambda>_. p) fs\<rparr>)"
  by (auto simp: provenance_def)

lemma provenance_own:
  assumes "own_content path r ch obj st = Inr (ps, obj', st')" "provenance root_path st" "chain_of root_path path ch"
  shows "provenance root_path st'"
proof -
  have step: "provenance root_path st1 \<Longrightarrow> st2 = (add_sources path ch srcs st1)\<lparr>co_secrets := co_secrets st1 @ secs,
      co_functions := co_functions st1 @ funs, co_function_origins := co_function_origins st1 @ map (\<lambda>_. path) funs\<rparr> \<Longrightarrow>
      provenance root_path st2" for st1 st2 srcs secs funs
    using provenance_frame(3) [where s = "co_secrets st1 @ secs" and fs = funs and p = path,
      OF provenance_sources [OF _ assms(3), of st1 srcs]]
    by (simp add: add_sources_def)
  from assms(1) obtain obj1 st1 where first: "(if r then Inr (obj, st) else take_models path obj st) = Inr (obj1, st1)"
    by (auto simp: own_content_def Let_def rbind_eq_Inr split: option.splits)
  with assms(2) provenance_models have st1: "provenance root_path st1" by (auto split: if_splits)
  show ?thesis
  proof (cases "\<not> r \<and> map_of obj ''kind'' \<noteq> None")
    case True
    with assms(1) first have "\<exists>arr. st' = add_sources path ch arr st1"
      by (auto simp: own_content_def Let_def rbind_eq_Inr split: option.splits)
    with provenance_sources [OF st1 assms(3)] show ?thesis by blast
  next
    case False
    define st2 where "st2 = (case (r, map_of obj1 ''variables'') of
        (False, Some v) \<Rightarrow> if v = JNull then st1 else st1\<lparr>co_frag_vars := hm_insert path v (co_frag_vars st1)\<rparr>
      | _ \<Rightarrow> st1)"
    have "provenance root_path st2" using st1 provenance_frame(1) by (auto simp: st2_def split: option.split bool.split)
    moreover have "\<exists>srcs secs funs. st' = (add_sources path ch srcs st2)\<lparr>co_secrets := co_secrets st2 @ secs,
          co_functions := co_functions st2 @ funs, co_function_origins := co_function_origins st2 @ map (\<lambda>_. path) funs\<rparr>"
    proof (cases "if r then None else find (\<lambda>key. map_of obj key \<noteq> None) root_only_keys")
      case None
      from assms(1) show ?thesis
        unfolding own_content_def Let_def if_not_P [OF False] None option.case first rbind_simps prod.case st2_def [symmetric]
        by (elim rbind_InrE) (auto simp: split_beta rbind_eq_Inr st2_def)
    next
      case (Some key)
      with assms(1) show ?thesis unfolding own_content_def Let_def if_not_P [OF False] by simp
    qed
    ultimately show ?thesis using step by blast
  qed
qed

interpretation parallel: collect_rule "provenance root_path" "chain_of root_path" for root_path
  by unfold_locales (auto intro: provenance_own provenance_frame(2) simp: chain_of_def)

lemma first_duplicate_None:
  "first_duplicate key seen xs = None \<Longrightarrow>
     distinct (List.map_filter (\<lambda>e. key (fst e)) xs) \<and> (\<forall>k\<in>set (List.map_filter (\<lambda>e. key (fst e)) xs). hm_get seen k = None)"
proof (induction key seen xs rule: first_duplicate.induct)
  case (2 key seen x origin xs)
  then show ?case
    by (cases "key x") (auto simp: List.map_filter_simps split: option.splits if_splits)
qed (simp add: List.map_filter_simps)

lemma map_filter_zip:
  "length xs = length ys \<Longrightarrow> List.map_filter (\<lambda>e. f (fst e)) (zip xs ys) = List.map_filter f xs"
  by (induction xs ys rule: list_induct2) (auto simp: List.map_filter_simps split: option.split)

lemma map_of_bt_remove [simp]: "map_of (bt_remove k m) k' = (if k' = k then None else map_of m k')"
  by (induction m) (auto simp: bt_remove_def)

lemma models_keep_sources:
  assumes "assemble_semantic_models fs obj root_path ms = Inr obj'"
  shows "map_of obj' ''sources'' = map_of obj ''sources'' \<and> map_of obj' ''include'' = map_of obj ''include''"
proof -
  from assms obtain ps obj1 where first: "(case map_of obj ''semantic'' of
        Some (JObj sem) \<Rightarrow>
          rbind (parse_include_patterns (map_of sem ''include'') root_path) (\<lambda>p.
            Inr (p, bt_insert ''semantic'' (JObj (bt_remove ''include'' sem)) obj))
      | _ \<Rightarrow> Inr ([], obj)) = Inr (ps, obj1)"
    by (auto simp: assemble_semantic_models_def rbind_eq_Inr)
  then have same: "map_of obj1 ''sources'' = map_of obj ''sources'' \<and> map_of obj1 ''include'' = map_of obj ''include''"
    by (auto simp: rbind_eq_Inr split: option.splits json.splits)
  have step: "(if ps = [] \<and> ms = [] then Inr obj1 else rest) = Inr obj' \<Longrightarrow>
      (rest = Inr obj' \<Longrightarrow> \<exists>v. obj' = bt_insert ''semantic'' v obj1) \<Longrightarrow> ?thesis" for rest
    using same by (auto split: if_splits)
  from assms show ?thesis
    unfolding assemble_semantic_models_def first rbind_simps prod.case
  proof (rule step)
    assume "(let inline = case Option.bind (map_of obj1 ''semantic'') (\<lambda>s. get_key s ''models'') of
            Some (JArr ms) \<Rightarrow> map (\<lambda>m. (m, root_path)) ms | _ \<Rightarrow> [] in
        rbind (load_models fs (base_dir root_path) ps) (\<lambda>included.
          let models = inline @ included @ ms in
          case first_duplicate name_key [] models of
            Some (m, prev, origin) \<Rightarrow> Inl (SemanticInvalid (the (name_key m)) (declared_in ''model name'' prev origin))
          | None \<Rightarrow>
              (case (case map_of obj1 ''semantic'' of Some s \<Rightarrow> s | None \<Rightarrow> JObj []) of
                 JObj sem \<Rightarrow> Inr (bt_insert ''semantic'' (JObj (bt_insert ''models'' (JArr (map fst models)) sem)) obj1)
               | _ \<Rightarrow> Inl (YamlError ''`semantic` must be a mapping'')))) = Inr obj'"
    then show "\<exists>v. obj' = bt_insert ''semantic'' v obj1"
      unfolding Let_def
      by (elim rbind_InrE) (simp split: option.split_asm prod.split_asm json.split_asm; blast)
  qed
qed

lemma assemble_steps:
  assumes "assemble fs tree root_path = Inr (tree', asm)"
  obtains t st sources obj obj' where
    "collect (assemble_fuel fs) fs tree root_path True [root_path] (nothing_collected [canonical fs root_path]) = Inr (t, st)"
    "rmap (\<lambda>(src, origin). expand_from fs src origin) (zip (co_sources st) (co_origins st)) = Inr sources"
    "first_duplicate name_key [] (zip sources (co_origins st)) = None"
    "assemble_semantic_models fs (set_or_remove ''functions'' (co_functions st) (set_or_remove ''secrets'' (co_secrets st)
       (bt_remove ''include'' (bt_insert ''sources'' (JArr sources) obj)))) root_path
       (zip (co_models st) (co_model_origins st)) = Inr obj'"
    "tree' = JObj obj'" "asm = \<lparr>as_origins = co_origins st, as_source_chains = co_chains st, as_frag_vars = co_frag_vars st\<rparr>"
proof -
  note run = assms [unfolded assemble_def]
  from run obtain t st where run1: "collect (assemble_fuel fs) fs tree root_path True [root_path]
      (nothing_collected [canonical fs root_path]) = Inr (t, st)"
    by (elim rbind_InrE) auto
  note run = run [unfolded run1 rbind_simps prod.case]
  from run obtain sources where run2: "rmap (\<lambda>(src, origin). expand_from fs src origin)
      (zip (co_sources st) (co_origins st)) = Inr sources"
    by (elim rbind_InrE) auto
  note run = run [unfolded run2 lift_simps rbind_simps]
  have none: "first_duplicate name_key [] (zip sources (co_origins st)) = None"
    using run by (cases "first_duplicate name_key [] (zip sources (co_origins st))") auto
  note run = run [unfolded none option.case]
  have none2: "first_duplicate function_key [] (zip (co_functions st) (co_function_origins st)) = None"
    using run by (cases "first_duplicate function_key [] (zip (co_functions st) (co_function_origins st))") auto
  note run = run [unfolded none2 option.case]
  then obtain obj where "t = JObj obj" by (cases t) auto
  with run that [OF run1 run2 none] show thesis by (auto simp: Let_def rbind_eq_Inr)
qed


subsection \<open>Overriding the body of a source\<close>

lemma merge_entries_get:
  "distinct (map fst over_obj) \<Longrightarrow> map_of (merge_entries b over_obj) k =
     (case (map_of b k, map_of over_obj k) of
        (Some bv, Some ov) \<Rightarrow> Some (deep_merge bv ov) | (None, Some ov) \<Rightarrow> Some ov | (bv, None) \<Rightarrow> bv)"
proof (induction over_obj arbitrary: b)
  case (Cons e over_obj)
  obtain k' ov where e: "e = (k', ov)" by (cases e)
  with Cons.prems have "k' \<notin> fst ` set over_obj" by simp
  then have "map_of over_obj k' = None" by (simp add: map_of_eq_None_iff)
  with Cons.IH Cons.prems e show ?case by (auto split: option.splits)
qed (auto split: option.splits)

text \<open>
  \<open>from:\<close> loads only the body of a source: the identity (\<open>name\<close>, \<open>kind\<close>) is the inline one, no \<open>from:\<close> is left,
  and every other field is the inline one merged over the loaded one, where mappings merge field by field and
  anything else replaces.
\<close>

lemma from_overrides:
  assumes "expand_from fs (JObj m) origin = Inr src'" "map_of m ''from'' = Some f" "distinct (map fst m)"
  shows "\<exists>path frag. f = JStr path \<and> read_yaml fs (resolve_path fs (base_dir origin) path) = Inr (JObj frag) \<and>
    get_key src' ''name'' = map_of m ''name'' \<and> get_key src' ''kind'' = map_of m ''kind'' \<and> get_key src' ''from'' = None \<and>
    (\<forall>k. k \<notin> {''name'', ''kind'', ''from''} \<longrightarrow> get_key src' k =
       (case (map_of frag k, map_of m k) of
          (Some (JObj b), Some (JObj over_obj)) \<Rightarrow> Some (JObj (merge_entries b over_obj))
        | (_, Some ov) \<Rightarrow> Some ov | (bv, None) \<Rightarrow> bv))"
proof -
  from assms(1,2) obtain path where f: "f = JStr path" by (auto simp: expand_from_def split: json.splits)
  with assms(1,2) obtain v where v: "read_yaml fs (resolve_path fs (base_dir origin) path) = Inr v"
    by (auto simp: expand_from_def Let_def rbind_eq_Inr)
  with assms(1,2) f obtain frag where "v = JObj frag" by (cases v) (auto simp: expand_from_def Let_def)
  with v have frag: "read_yaml fs (resolve_path fs (base_dir origin) path) = Inr (JObj frag)" by simp
  let ?over = "bt_remove ''kind'' (bt_remove ''name'' (bt_remove ''from'' m))"
  from assms(1,2) f frag have clean: "map_of frag ''name'' = None" "map_of frag ''kind'' = None" "map_of frag ''from'' = None"
    and src': "src' = JObj (set_opt ''kind'' (map_of m ''kind'') (set_opt ''name'' (map_of m ''name'') (merge_entries frag ?over)))"
    by (auto simp: expand_from_def Let_def deep_merge.simps split: if_splits)
  have "distinct (map fst (bt_remove k l))" if "distinct (map fst l)" for k and l :: "json bmap"
    using that by (simp add: bt_remove_def distinct_map_filter)
  with assms(3) have get: "map_of (merge_entries frag ?over) k = (case (map_of frag k, map_of ?over k) of
        (Some bv, Some ov) \<Rightarrow> Some (deep_merge bv ov) | (None, Some ov) \<Rightarrow> Some ov | (bv, None) \<Rightarrow> bv)" for k
    by (intro merge_entries_get) blast
  have set: "map_of (set_opt k' v l) k = (if k = k' \<and> v \<noteq> None then v else map_of l k)" for k k' v l
    by (auto simp: set_opt_def split: option.split)
  have name: "get_key src' ''name'' = map_of m ''name''" "get_key src' ''kind'' = map_of m ''kind''" "get_key src' ''from'' = None"
    by (simp_all add: src' set get clean)
  have rest: "get_key src' k = (case (map_of frag k, map_of m k) of
          (Some (JObj b), Some (JObj over_obj)) \<Rightarrow> Some (JObj (merge_entries b over_obj))
        | (_, Some ov) \<Rightarrow> Some ov | (bv, None) \<Rightarrow> bv)" if "k \<notin> {''name'', ''kind'', ''from''}" for k
    using that by (auto simp: src' set get deep_merge.simps split: option.splits json.splits)
  show ?thesis using f frag name rest by blast
qed

subsection \<open>Examples\<close>

definition disk_of :: "(string \<times> json) list \<Rightarrow> Fs" where
  "disk_of files =
     \<lparr>fs_files = map (\<lambda>(p, _). (p, p)) files, fs_absent = (\<lambda>_. ''No such file''), fs_canonicalize = (\<lambda>_. None),
      fs_glob = (\<lambda>p. Inr (if map_of files p = None then [] else [Inr p])),
      fs_yaml = (\<lambda>s. case map_of files s of Some v \<Rightarrow> Inr v | None \<Rightarrow> Inl ''empty''), fs_lib = demo_lib\<rparr>"

definition include_list :: "string list \<Rightarrow> string \<times> json" where
  "include_list ps = (''include'', JArr (map JStr ps))"

definition source_file :: "string \<Rightarrow> json" where
  "source_file name = JObj [(''kind'', JStr ''http''), (''name'', JStr name)]"

definition split_disk :: Fs where
  "split_disk = disk_of [(''/w/crm.yaml'', source_file ''crm''), (''/w/body.yaml'', JObj [(''url'', JStr ''a''), (''wiki'', JStr ''w'')])]"

definition split_root :: json where
  "split_root = JObj [include_list [''crm.yaml''],
     (''sources'', JArr [JObj [(''from'', JStr ''body.yaml''), (''kind'', JStr ''http''), (''name'', JStr ''erp''), (''url'', JStr ''b'')]]),
     (''version'', JNum ''1'')]"

lemma split_assembled:
  "\<exists>tree'. assemble split_disk split_root ''/w/pawrly.yaml'' =
     Inr (tree', \<lparr>as_origins = [''/w/pawrly.yaml'', ''/w/crm.yaml''],
       as_source_chains = [[''/w/pawrly.yaml''], [''/w/pawrly.yaml'', ''/w/crm.yaml'']], as_frag_vars = []\<rparr>)"
  by (rule exI, code_simp)


text \<open>The files that a file includes.\<close>

definition included_by :: "Fs \<Rightarrow> string \<Rightarrow> string list" where
  "included_by fs p =
     (case rbind (read_yaml fs p) (\<lambda>t. parse_include_patterns (get_key t ''include'') p) of
        Inl _ \<Rightarrow> []
      | Inr ps \<Rightarrow> concat (map (\<lambda>pattern. case glob_paths fs (base_dir p) pattern of Inl _ \<Rightarrow> [] | Inr qs \<Rightarrow> qs) ps))"

definition file_includes :: "Fs \<Rightarrow> string \<Rightarrow> string \<Rightarrow> bool" where
  "file_includes fs p q \<longleftrightarrow> q \<in> set (included_by fs p)"

definition diamond_disk :: Fs where
  "diamond_disk = disk_of [(''/r'', JObj [include_list [''/a'', ''/b'']]), (''/a'', JObj [include_list [''/c'']]),
     (''/b'', JObj [include_list [''/c'']]), (''/c'', JObj [])]"

lemma diamond_includes:
  "file_includes diamond_disk p q \<Longrightarrow> (p, q) \<in> {(''/r'', ''/a''), (''/r'', ''/b''), (''/a'', ''/c''), (''/b'', ''/c'')}"
proof -
  have known: "included_by diamond_disk ''/r'' = [''/a'', ''/b'']" "included_by diamond_disk ''/a'' = [''/c'']"
    "included_by diamond_disk ''/b'' = [''/c'']" "included_by diamond_disk ''/c'' = []" by code_simp+
  have other: "included_by diamond_disk p = []" if "p \<notin> {''/r'', ''/a'', ''/b'', ''/c''}"
    using that by (auto simp: included_by_def read_yaml_def read_to_string_def diamond_disk_def disk_of_def)
  assume "file_includes diamond_disk p q"
  then have q: "q \<in> set (included_by diamond_disk p)" by (simp add: file_includes_def)
  with other have "p \<in> {''/r'', ''/a'', ''/b'', ''/c''}" by force
  with q known show ?thesis by auto
qed

text \<open>
  A file that is included twice is refused as a cycle although no file includes itself, directly or through
  others: the files on the way are never taken out of the visited set, so a fragment shared by two includes
  cannot be assembled.
\<close>

lemma shared_include_is_called_a_cycle:
  "include_tree diamond_disk ''/r'' = Inl (Some (IncludeCycle ''/r -> /b -> /c'')) \<and>
   (\<nexists>p. (file_includes diamond_disk)\<^sup>+\<^sup>+ p p)"
proof
  show "include_tree diamond_disk ''/r'' = Inl (Some (IncludeCycle ''/r -> /b -> /c''))" by code_simp
  define rank :: "string \<Rightarrow> nat" where "rank p = (if p = ''/r'' then 0 else if p = ''/c'' then 2 else 1)" for p
  have "rank p < rank q" if "(file_includes diamond_disk)\<^sup>+\<^sup>+ p q" for p q
    using that by (induction rule: tranclp_induct) (auto simp: rank_def dest!: diamond_includes)
  then show "\<nexists>p. (file_includes diamond_disk)\<^sup>+\<^sup>+ p p" by blast
qed

end
