(* ===== verification/Json_Schema.thy ===== *)
theory Json_Schema
  imports Http_Scan
begin

section \<open>JSON-Schema primitives\<close>

text \<open>
  \<open>pawrly-schema/src/lib.rs\<close>: the types of the nodes of a JSON schema, local references, the rows array of a response
  and the merging of declarations.  A reference is followed at most 32 times, as in the code, so \<open>deref_n\<close>
  recurses on that number.
\<close>

definition schema_type :: "json \<Rightarrow> string option" where
  "schema_type schema =
     (case get_key schema ''type'' of
        Some (JStr s) \<Rightarrow> Some s
      | Some (JArr arr) \<Rightarrow> find (\<lambda>s. s \<noteq> ''null'') (List.map_filter as_str arr)
      | _ \<Rightarrow> None)"

definition schema_format :: "json \<Rightarrow> string option" where
  "schema_format schema = Option.bind (get_key schema ''format'') as_str"

definition is_object :: "json \<Rightarrow> bool" where
  "is_object schema =
     (case schema_type schema of Some t \<Rightarrow> t = ''object'' | None \<Rightarrow> get_key schema ''properties'' \<noteq> None)"

definition int_type :: "json \<Rightarrow> string" where
  "int_type schema = (if schema_format schema = Some ''int32'' then ''int'' else ''bigint'')"

definition number_type :: "json \<Rightarrow> string" where
  "number_type schema = (if schema_format schema = Some ''float'' then ''float'' else ''double'')"

definition column_type :: "json \<Rightarrow> string" where
  "column_type schema =
     (case schema_type schema of
        None \<Rightarrow> ''json''
      | Some t \<Rightarrow>
          if t = ''integer'' then int_type schema
          else if t = ''number'' then number_type schema
          else if t = ''boolean'' then ''bool''
          else if t = ''string'' then
            (if schema_format schema = Some ''date'' then ''date''
             else if schema_format schema = Some ''date-time'' then ''timestamp'' else ''varchar'')
          else ''json'')"

definition param_type :: "json \<Rightarrow> string" where
  "param_type schema =
     (case schema_type schema of
        None \<Rightarrow> ''varchar''
      | Some t \<Rightarrow>
          if t = ''integer'' then int_type schema
          else if t = ''number'' then number_type schema
          else if t = ''boolean'' then ''bool'' else ''varchar'')"

subsection \<open>References\<close>

text \<open>\<open>Value::pointer\<close>: the tokens between slashes, with \<open>~1\<close> a slash and \<open>~0\<close> a tilde.\<close>

definition pointer_token :: "string \<Rightarrow> string" where
  "pointer_token t = replace_sub ''~0'' ''~'' (replace_sub ''~1'' ''/'' t)"

definition pointer_index :: "string \<Rightarrow> nat option" where
  "pointer_index t =
     (if starts_with ''+'' t \<or> (starts_with ''0'' t \<and> length t \<noteq> 1) then None else parse_uint (2 ^ 64 - 1) t)"

definition pointer_step :: "json option \<Rightarrow> string \<Rightarrow> json option" where
  "pointer_step cur t =
     Option.bind cur (\<lambda>v.
       case v of
         JObj _ \<Rightarrow> get_key v (pointer_token t)
       | JArr _ \<Rightarrow> Option.bind (pointer_index (pointer_token t)) (get_index v)
       | _ \<Rightarrow> None)"

definition pointer :: "json \<Rightarrow> string \<Rightarrow> json option" where
  "pointer doc p =
     (if p = [] then Some doc
      else if \<not> starts_with ''/'' p then None
      else foldl pointer_step (Some doc) (tl (split_on (CHR ''/'') p)))"

fun deref_n :: "nat \<Rightarrow> json \<Rightarrow> json \<Rightarrow> json" where
  "deref_n 0 doc cur = cur"
| "deref_n (Suc n) doc cur =
     (case Option.bind (get_key cur ''$ref'') as_str of
        None \<Rightarrow> cur
      | Some reference \<Rightarrow>
          (case Option.bind (strip_prefix ''#'' reference) (pointer doc) of
             None \<Rightarrow> cur
           | Some target \<Rightarrow> deref_n n doc target))"

definition deref :: "json \<Rightarrow> json \<Rightarrow> json" where
  "deref doc v = deref_n 32 doc v"

subsection \<open>The rows of a response\<close>

definition is_metadata_field :: "string \<Rightarrow> bool" where
  "is_metadata_field name \<longleftrightarrow> name \<in> {''total_count'', ''incomplete_results'', ''has_more'', ''next'', ''previous''}"

definition is_array_schema :: "json \<Rightarrow> json \<Rightarrow> bool" where
  "is_array_schema doc prop \<longleftrightarrow> schema_type (deref doc prop) = Some ''array''"

definition rows_array :: "json \<Rightarrow> json bmap \<Rightarrow> (string \<times> json) option" where
  "rows_array doc props =
     (case find (\<lambda>name. case map_of props name of Some prop \<Rightarrow> is_array_schema doc prop | None \<Rightarrow> False)
         [''items'', ''data'', ''results'', ''rows''] of
        Some name \<Rightarrow> Some (name, deref doc (the (map_of props name)))
      | None \<Rightarrow>
          (case filter (\<lambda>(name, prop). \<not> is_metadata_field name \<and> is_array_schema doc prop) props of
             [(name, prop)] \<Rightarrow> Some (name, deref doc prop)
           | _ \<Rightarrow> None))"

subsection \<open>Merging\<close>

function schema_merge :: "json \<Rightarrow> json \<Rightarrow> json" and schema_merge_entries :: "json bmap \<Rightarrow> (string \<times> json) list \<Rightarrow> json bmap" where
  "schema_merge base patch =
     (case (base, patch) of
        (JObj b, JObj p) \<Rightarrow> if map_of p ''type'' = None then JObj (schema_merge_entries b p) else patch
      | _ \<Rightarrow> patch)"
| "schema_merge_entries b [] = b"
| "schema_merge_entries b ((k, v) # p) =
     schema_merge_entries (bt_insert k (schema_merge (case map_of b k of Some x \<Rightarrow> x | None \<Rightarrow> JNull) v) b) p"
  by pat_completeness auto
termination
  by (relation "measure (\<lambda>x. case x of Inl (b, p) \<Rightarrow> size p | Inr (b, p) \<Rightarrow> size_list (size_prod (\<lambda>_. 0) size) p)") auto

declare schema_merge.simps [simp del]

end
