(* ===== verification/Mcp_Session.thy ===== *)
theory Mcp_Session
  imports Json_Schema
begin

section \<open>Sessions with MCP servers\<close>

text \<open>
  \<open>transport.rs\<close>, \<open>http.rs\<close>, \<open>stdio.rs\<close> and \<open>session.rs\<close> of \<open>pawrly-sources/mcp/src\<close>.  A transport is a record of its two
  operations on a state; the session is written against it.  The HTTP transport is one; the stdio transport is a
  step relation, because its reader runs beside the requests.  The JSON parser and the network are arguments.
  Request identifiers, which only count up, are integers.
\<close>

datatype McpError = McpTransportError string | McpRpc int string | McpProtocol string

definition as_i64 :: "json \<Rightarrow> int option" where
  "as_i64 v = (case v of JNum n \<Rightarrow> parse_sint 64 n | _ \<Rightarrow> None)"

definition as_bool :: "json \<Rightarrow> bool option" where
  "as_bool v = (case v of JBool b \<Rightarrow> Some b | _ \<Rightarrow> None)"

subsection \<open>JSON-RPC\<close>

definition rpc_request :: "int \<Rightarrow> string \<Rightarrow> json \<Rightarrow> json" where
  "rpc_request rid method params =
     JObj [(''id'', JNum (show_int rid)), (''jsonrpc'', JStr ''2.0''), (''method'', JStr method), (''params'', params)]"

definition rpc_notification :: "string \<Rightarrow> json \<Rightarrow> json" where
  "rpc_notification method params = JObj [(''jsonrpc'', JStr ''2.0''), (''method'', JStr method), (''params'', params)]"

definition rpc_result :: "json \<Rightarrow> McpError + json" where
  "rpc_result response =
     (case get_key response ''error'' of
        Some error \<Rightarrow>
          Inl (McpRpc (case Option.bind (get_key error ''code'') as_i64 of Some c \<Rightarrow> c | None \<Rightarrow> 0)
                 (case Option.bind (get_key error ''message'') as_str of Some m \<Rightarrow> m | None \<Rightarrow> ''unknown error''))
      | None \<Rightarrow> Inr (case get_key response ''result'' of Some r \<Rightarrow> r | None \<Rightarrow> JNull))"

record 't McpTransport =
  tr_request :: "'t \<Rightarrow> string \<Rightarrow> json \<Rightarrow> (McpError + json) \<times> 't"
  tr_notify :: "'t \<Rightarrow> string \<Rightarrow> json \<Rightarrow> (McpError + unit) \<times> 't"

subsection \<open>Streamable HTTP\<close>

record HttpTransport =
  ht_url :: string
  ht_auth :: "(string \<times> string) list"
  ht_session :: "string option"
  ht_next_id :: int

definition HttpTransport_new :: "string \<Rightarrow> (string \<times> string) list \<Rightarrow> HttpTransport" where
  "HttpTransport_new url auth = \<lparr>ht_url = url, ht_auth = auth, ht_session = None, ht_next_id = 1\<rparr>"

record McpPost =
  mp_url :: string
  mp_headers :: "(string \<times> string) list"
  mp_body :: json

record McpReply =
  mr_status :: nat
  mr_session :: "string option"
  mr_content_type :: "string option"
  mr_text :: "string + string"

definition protocol_version :: string where
  "protocol_version = ''2025-06-18''"

definition session_header :: string where
  "session_header = ''mcp-session-rid''"

definition post_headers :: "HttpTransport \<Rightarrow> (string \<times> string) list" where
  "post_headers t =
     ht_auth t @ [(''content-type'', ''application/json''), (''accept'', ''application/json, text/event-stream''),
       (''MCP-Protocol-Version'', protocol_version)] @
     (case ht_session t of Some rid \<Rightarrow> [(session_header, rid)] | None \<Rightarrow> [])"

definition post :: "(McpPost \<Rightarrow> string + McpReply) \<Rightarrow> HttpTransport \<Rightarrow> json \<Rightarrow> (McpError + McpReply) \<times> HttpTransport" where
  "post net t body =
     (case net \<lparr>mp_url = ht_url t, mp_headers = post_headers t, mp_body = body\<rparr> of
        Inl e \<Rightarrow> (Inl (McpTransportError e), t)
      | Inr resp \<Rightarrow>
          let t' = (case mr_session resp of Some rid \<Rightarrow> t\<lparr>ht_session := Some rid\<rparr> | None \<Rightarrow> t) in
          if \<not> (200 \<le> mr_status resp \<and> mr_status resp < 300)
          then (Inl (McpTransportError (''HTTP '' @ show_nat (mr_status resp))), t')
          else (Inr resp, t'))"

text \<open>\<open>str::lines\<close>: a line ends with a line feed, or with a carriage return and a line feed.\<close>

abbreviation LF :: char where "LF \<equiv> CHR 0x0A"
abbreviation CR :: char where "CR \<equiv> CHR 0x0D"

definition drop_cr :: "string \<Rightarrow> string" where
  "drop_cr s = (case strip_suffix [CR] s of Some r \<Rightarrow> r | None \<Rightarrow> s)"

definition str_lines :: "string \<Rightarrow> string list" where
  "str_lines s =
     (let ls = split_on LF s in map drop_cr (butlast ls) @ (if last ls = [] then [] else [last ls]))"

definition sse_messages :: "(string \<Rightarrow> json option) \<Rightarrow> string \<Rightarrow> json list" where
  "sse_messages parse body =
     List.map_filter parse (List.map_filter (\<lambda>line. map_option trim (strip_prefix ''data:'' line)) (str_lines body))"

definition sse_response_for :: "(string \<Rightarrow> json option) \<Rightarrow> string \<Rightarrow> int \<Rightarrow> json option" where
  "sse_response_for parse body rid =
     find (\<lambda>msg. Option.bind (get_key msg ''id'') as_i64 = Some rid) (sse_messages parse body)"

definition http_request ::
  "(string \<Rightarrow> json option) \<Rightarrow> (McpPost \<Rightarrow> string + McpReply) \<Rightarrow> HttpTransport \<Rightarrow> string \<Rightarrow> json \<Rightarrow> (McpError + json) \<times> HttpTransport" where
  "http_request parse net t method params =
     (let rid = ht_next_id t in
      case post net (t\<lparr>ht_next_id := rid + 1\<rparr>) (rpc_request rid method params) of
        (Inl e, t') \<Rightarrow> (Inl e, t')
      | (Inr resp, t') \<Rightarrow>
          (rbind (case mr_text resp of Inl e \<Rightarrow> Inl (McpTransportError e) | Inr s \<Rightarrow> Inr s) (\<lambda>body.
           rbind (if (case mr_content_type resp of Some ct \<Rightarrow> has_sub ''text/event-stream'' ct | None \<Rightarrow> False)
                  then ok_or (McpProtocol ''no matching JSON-RPC message in SSE stream'') (sse_response_for parse body rid)
                  else ok_or (McpProtocol ''invalid JSON'') (parse body)) rpc_result), t'))"

definition http_notify ::
  "(McpPost \<Rightarrow> string + McpReply) \<Rightarrow> HttpTransport \<Rightarrow> string \<Rightarrow> json \<Rightarrow> (McpError + unit) \<times> HttpTransport" where
  "http_notify net t method params =
     (case post net t (rpc_notification method params) of (r, t') \<Rightarrow> (rbind r (\<lambda>_. Inr ()), t'))"

definition http_transport ::
  "(string \<Rightarrow> json option) \<Rightarrow> (McpPost \<Rightarrow> string + McpReply) \<Rightarrow> HttpTransport McpTransport" where
  "http_transport parse net = \<lparr>tr_request = http_request parse net, tr_notify = http_notify net\<rparr>"

text \<open>
  The headers of a \<open>config.auth\<close> block.  \<open>header_ok\<close> says which names and values the HTTP library accepts;
  inserting replaces a header of the same name.
\<close>

definition insert_header ::
  "(string \<Rightarrow> bool) \<Rightarrow> (string \<Rightarrow> bool) \<Rightarrow> string \<Rightarrow> string \<Rightarrow> (string \<times> string) list \<Rightarrow> (string \<times> string) list" where
  "insert_header name_ok value_ok name v headers =
     (if name_ok name \<and> value_ok v then hm_insert (to_ascii_lowercase name) v headers else headers)"

definition auth_header ::
  "(string \<Rightarrow> bool) \<Rightarrow> (string \<Rightarrow> bool) \<Rightarrow> json \<Rightarrow> (string \<times> string) list \<Rightarrow> (string \<times> string) list" where
  "auth_header name_ok value_ok header headers =
     (case Option.bind (get_key header ''name'') as_str of
        None \<Rightarrow> headers
      | Some name \<Rightarrow>
          (case Option.bind (get_key header ''bearer'') as_str of
             Some bearer \<Rightarrow> insert_header name_ok value_ok name (''Bearer '' @ bearer) headers
           | None \<Rightarrow>
               (case Option.bind (get_key header ''value'') as_str of
                  Some v \<Rightarrow> insert_header name_ok value_ok name v headers
                | None \<Rightarrow> headers)))"

definition auth_headers :: "(string \<Rightarrow> bool) \<Rightarrow> (string \<Rightarrow> bool) \<Rightarrow> json \<Rightarrow> (string \<times> string) list" where
  "auth_headers name_ok value_ok auth =
     (let ty = Option.bind (get_key auth ''type'') as_str in
      if ty = Some ''header'' then
        fold (auth_header name_ok value_ok)
          (case Option.bind (get_key auth ''headers'') as_list of Some hs \<Rightarrow> hs | None \<Rightarrow> []) []
      else if ty = Some ''bearer'' then
        (case Option.bind (get_key auth ''token'') as_str of
           Some token \<Rightarrow> insert_header name_ok value_ok ''Authorization'' (''Bearer '' @ token) []
         | None \<Rightarrow> [])
      else [])"

subsection \<open>The session\<close>

record Tool =
  tl_name :: string
  tl_description :: "string option"
  tl_input_schema :: json
  tl_output_schema :: "json option"
  tl_read_only :: "bool option"
  tl_destructive :: "bool option"

definition parse_tool :: "json \<Rightarrow> Tool option" where
  "parse_tool v =
     map_option (\<lambda>name.
       let hint = (\<lambda>key. Option.bind (get_key v ''annotations'') (\<lambda>a. Option.bind (get_key a key) as_bool)) in
       \<lparr>tl_name = name, tl_description = Option.bind (get_key v ''description'') as_str,
        tl_input_schema = (case get_key v ''inputSchema'' of Some s \<Rightarrow> s | None \<Rightarrow> JObj []),
        tl_output_schema = get_key v ''outputSchema'', tl_read_only = hint ''readOnlyHint'',
        tl_destructive = hint ''destructiveHint''\<rparr>)
       (Option.bind (get_key v ''name'') as_str)"

definition initialize :: "'t McpTransport \<Rightarrow> string \<Rightarrow> 't \<Rightarrow> (McpError + unit) \<times> 't" where
  "initialize tr version t =
     (case tr_request tr t ''initialize'' (JObj [(''capabilities'', JObj []),
        (''clientInfo'', JObj [(''name'', JStr ''pawrly''), (''version'', JStr version)]),
        (''protocolVersion'', JStr protocol_version)]) of
        (Inl e, t') \<Rightarrow> (Inl e, t')
      | (Inr _, t') \<Rightarrow> tr_notify tr t' ''notifications/initialized'' (JObj []))"

definition tools_of :: "json \<Rightarrow> Tool list" where
  "tools_of result =
     (case Option.bind (get_key result ''tools'') as_list of Some arr \<Rightarrow> List.map_filter parse_tool arr | None \<Rightarrow> [])"

definition next_cursor :: "json \<Rightarrow> string option" where
  "next_cursor result =
     (case Option.bind (get_key result ''nextCursor'') as_str of
        Some s \<Rightarrow> if s \<noteq> [] then Some s else None
      | None \<Rightarrow> None)"

definition list_params :: "string option \<Rightarrow> json" where
  "list_params cursor = (case cursor of Some c \<Rightarrow> JObj [(''cursor'', JStr c)] | None \<Rightarrow> JObj [])"

text \<open>Nothing bounds this loop, so not returning is a value of it.\<close>

partial_function (option) list_loop ::
  "'t McpTransport \<Rightarrow> 't \<Rightarrow> string option \<Rightarrow> Tool list \<Rightarrow> ((McpError + Tool list) \<times> 't) option" where
  "list_loop tr t cursor tools =
     (case tr_request tr t ''tools/list'' (list_params cursor) of
        (Inl e, t') \<Rightarrow> Some (Inl e, t')
      | (Inr result, t') \<Rightarrow>
          (case next_cursor result of
             Some c \<Rightarrow> list_loop tr t' (Some c) (tools @ tools_of result)
           | None \<Rightarrow> Some (Inr (tools @ tools_of result), t')))"

definition list_tools :: "'t McpTransport \<Rightarrow> 't \<Rightarrow> ((McpError + Tool list) \<times> 't) option" where
  "list_tools tr t = list_loop tr t None []"

definition tool_error_text :: "json \<Rightarrow> string" where
  "tool_error_text result =
     (case Option.bind (get_key result ''content'') as_list of
        Some (item # _) \<Rightarrow>
          (case Option.bind (get_key item ''text'') as_str of Some s \<Rightarrow> s | None \<Rightarrow> ''tool returned an error'')
      | _ \<Rightarrow> ''tool returned an error'')"

definition call_tool :: "'t McpTransport \<Rightarrow> 't \<Rightarrow> string \<Rightarrow> json \<Rightarrow> (McpError + json) \<times> 't" where
  "call_tool tr t name arguments =
     (case tr_request tr t ''tools/call'' (JObj [(''arguments'', arguments), (''name'', JStr name)]) of
        (Inl e, t') \<Rightarrow> (Inl e, t')
      | (Inr result, t') \<Rightarrow>
          if Option.bind (get_key result ''isError'') as_bool = Some True
          then (Inl (McpRpc 0 (tool_error_text result)), t') else (Inr result, t'))"

subsection \<open>Listing tools ends with the cursors\<close>

text \<open>One of the first \<open>n\<close> answers to \<open>tools/list\<close> is an error or has no cursor.\<close>

fun listing_stops :: "nat \<Rightarrow> 't McpTransport \<Rightarrow> 't \<Rightarrow> string option \<Rightarrow> bool" where
  "listing_stops 0 tr t cursor = False"
| "listing_stops (Suc n) tr t cursor =
     (case tr_request tr t ''tools/list'' (list_params cursor) of
        (Inl e, t') \<Rightarrow> True
      | (Inr result, t') \<Rightarrow>
          (case next_cursor result of None \<Rightarrow> True | Some c \<Rightarrow> listing_stops n tr t' (Some c)))"

lemma list_loop_stops:
  assumes "list_loop tr t cursor tools = Some r"
  shows "\<exists>n. listing_stops n tr t cursor"
proof (rule list_loop.raw_induct [OF _ assms, where P = "\<lambda>tr t cursor tools r. \<exists>n. listing_stops n tr t cursor"])
  fix loop tr t cursor tools r
  assume IH: "\<And>tr t cursor tools r. loop tr t cursor tools = Some r \<Longrightarrow> \<exists>n. listing_stops n tr (t :: 'a) cursor"
    and run: "(case tr_request tr t ''tools/list'' (list_params cursor) of
        (Inl e, t') \<Rightarrow> Some (Inl e, t')
      | (Inr result, t') \<Rightarrow>
          (case next_cursor result of
             Some c \<Rightarrow> loop tr t' (Some c) (tools @ tools_of result)
           | None \<Rightarrow> Some (Inr (tools @ tools_of result), t'))) = Some r"
  show "\<exists>n. listing_stops n tr t cursor"
  proof (cases "\<exists>n result t' c. tr_request tr t ''tools/list'' (list_params cursor) = (Inr result, t') \<and>
      next_cursor result = Some c \<and> listing_stops n tr t' (Some c)")
    case True
    then obtain n where "listing_stops (Suc n) tr t cursor" by fastforce
    then show ?thesis by blast
  next
    case False
    with run have "listing_stops (Suc 0) tr t cursor"
      by (fastforce dest: IH split: prod.splits sum.splits option.splits)
    then show ?thesis by blast
  qed
qed

lemma stops_list_loop: "listing_stops n tr t cursor \<Longrightarrow> list_loop tr t cursor tools \<noteq> None"
proof (induction n arbitrary: t cursor tools)
  case (Suc n)
  then show ?case
    by (subst list_loop.simps) (auto split: prod.splits sum.splits option.splits)
qed simp


text \<open>A server that always answers with the same page and cursor.\<close>

definition stuck_server :: "unit McpTransport" where
  "stuck_server =
     \<lparr>tr_request = (\<lambda>t method params. (Inr (JObj [(''nextCursor'', JStr ''p2''), (''tools'', JArr [])]), t)),
      tr_notify = (\<lambda>t method params. (Inr (), t))\<rparr>"

lemma stuck_server_never_stops: "\<not> listing_stops n stuck_server t cursor"
  by (induction n arbitrary: t cursor) (simp_all add: stuck_server_def next_cursor_def)

lemma stuck_server_is_listed_forever: "list_tools stuck_server t = None"
proof (rule ccontr)
  assume "list_tools stuck_server t \<noteq> None"
  then obtain r where "list_loop stuck_server t None [] = Some r" by (auto simp: list_tools_def)
  from list_loop_stops [OF this] show False by (simp add: stuck_server_never_stops)
qed

subsection \<open>The stdio transport\<close>

text \<open>
  The requests whose senders wait in the map, the answers handed to them, and whether the reader still runs.  A
  request takes the next identifier and registers itself; the reader hands each line to the request it answers and
  ends at the end of the output.
\<close>

record Stdio =
  sd_next :: int
  sd_pending :: "int list"
  sd_answers :: "(int \<times> json) list"
  sd_reader :: bool

definition Stdio_spawn :: Stdio where
  "Stdio_spawn = \<lparr>sd_next = 1, sd_pending = [], sd_answers = [], sd_reader = True\<rparr>"

definition stdio_ask :: "Stdio \<Rightarrow> Stdio" where
  "stdio_ask s = s\<lparr>sd_next := sd_next s + 1, sd_pending := sd_next s # sd_pending s\<rparr>"

definition stdio_line :: "(string \<Rightarrow> json option) \<Rightarrow> string \<Rightarrow> Stdio \<Rightarrow> Stdio" where
  "stdio_line parse line s =
     (case parse line of
        None \<Rightarrow> s
      | Some message \<Rightarrow>
          (case Option.bind (get_key message ''id'') as_i64 of
             None \<Rightarrow> s
           | Some rid \<Rightarrow>
               if rid \<in> set (sd_pending s)
               then s\<lparr>sd_pending := removeAll rid (sd_pending s), sd_answers := (rid, message) # sd_answers s\<rparr>
               else s))"

text \<open>What \<open>rx.await\<close> gives for a request: nothing yet, the answer, or an error when its sender is gone.\<close>

definition stdio_outcome :: "Stdio \<Rightarrow> int \<Rightarrow> (McpError + json) option" where
  "stdio_outcome s rid =
     (case map_of (sd_answers s) rid of
        Some message \<Rightarrow> Some (rpc_result message)
      | None \<Rightarrow> if rid \<in> set (sd_pending s) then None
                else Some (Inl (McpTransportError ''server closed the connection'')))"

inductive io_step :: "(string \<Rightarrow> json option) \<Rightarrow> Stdio \<Rightarrow> Stdio \<Rightarrow> bool" for parse where
  ask: "io_step parse s (stdio_ask s)"
| line: "sd_reader s \<Longrightarrow> io_step parse s (stdio_line parse l s)"
| eof: "sd_reader s \<Longrightarrow> io_step parse s (s\<lparr>sd_reader := False\<rparr>)"

inductive_cases io_stepE: "io_step parse s s'"

definition answers_id :: "int \<times> json \<Rightarrow> bool" where
  "answers_id a \<longleftrightarrow> Option.bind (get_key (snd a) ''id'') as_i64 = Some (fst a)"

definition stdio_ok :: "Stdio \<Rightarrow> bool" where
  "stdio_ok s \<longleftrightarrow>
     distinct (sd_pending s @ map fst (sd_answers s)) \<and> list_all answers_id (sd_answers s) \<and>
     set (sd_pending s @ map fst (sd_answers s)) = {rid. 1 \<le> rid \<and> rid < sd_next s} \<and> 1 \<le> sd_next s"

lemma stdio_line_cases:
  "stdio_line parse l s = s \<or>
   (\<exists>rid message. rid \<in> set (sd_pending s) \<and> answers_id (rid, message) \<and>
      stdio_line parse l s = s\<lparr>sd_pending := removeAll rid (sd_pending s), sd_answers := (rid, message) # sd_answers s\<rparr>)"
  by (auto simp: stdio_line_def answers_id_def split: option.splits)

lemma stdio_ask_ok: "stdio_ok s \<Longrightarrow> stdio_ok (stdio_ask s)"
  by (auto simp: stdio_ok_def stdio_ask_def set_eq_iff)

lemma stdio_line_ok:
  assumes "stdio_ok s"
  shows "stdio_ok (stdio_line parse l s)"
  using stdio_line_cases [of parse l s]
proof
  assume "\<exists>rid message. rid \<in> set (sd_pending s) \<and> answers_id (rid, message) \<and>
      stdio_line parse l s = s\<lparr>sd_pending := removeAll rid (sd_pending s), sd_answers := (rid, message) # sd_answers s\<rparr>"
  then obtain rid message where rid: "rid \<in> set (sd_pending s)" "answers_id (rid, message)"
    and eq: "stdio_line parse l s = s\<lparr>sd_pending := removeAll rid (sd_pending s), sd_answers := (rid, message) # sd_answers s\<rparr>"
    by blast
  from assms rid have ids: "set (removeAll rid (sd_pending s) @ map fst ((rid, message) # sd_answers s)) = set (sd_pending s @ map fst (sd_answers s))"
    "distinct (removeAll rid (sd_pending s) @ map fst ((rid, message) # sd_answers s))"
    by (auto simp: stdio_ok_def distinct_removeAll)
  with assms rid(2) show ?thesis unfolding stdio_ok_def eq
    by (simp del: set_append distinct_append set_map set_removeAll map_append list.map)
qed (use assms in simp)

lemma io_step_ok: "io_step parse s s' \<Longrightarrow> stdio_ok s \<Longrightarrow> stdio_ok s'"
  by (induction rule: io_step.induct) (simp_all add: stdio_ask_ok stdio_line_ok, simp add: stdio_ok_def)

lemma io_reachable_ok: "(io_step parse)\<^sup>*\<^sup>* Stdio_spawn s \<Longrightarrow> stdio_ok s"
proof (induction rule: rtranclp_induct)
  case base
  show ?case by (auto simp: Stdio_spawn_def stdio_ok_def)
qed (rule io_step_ok)

lemma io_reachable_answered:
  assumes "(io_step parse)\<^sup>*\<^sup>* Stdio_spawn s" "1 \<le> rid" "rid < sd_next s"
  shows "rid \<in> set (sd_pending s) \<and> map_of (sd_answers s) rid = None \<or>
    (\<exists>message. map_of (sd_answers s) rid = Some message \<and> answers_id (rid, message))"
proof -
  from io_reachable_ok [OF assms(1)] assms(2,3)
  have ids: "rid \<in> set (sd_pending s @ map fst (sd_answers s))" "list_all answers_id (sd_answers s)"
    by (simp_all only: stdio_ok_def mem_Collect_eq simp_thms)
  show ?thesis
  proof (cases "map_of (sd_answers s) rid")
    case None
    with ids(1) show ?thesis by (auto simp: map_of_eq_None_iff)
  next
    case (Some message)
    with ids(2) show ?thesis by (auto simp: list_all_iff dest: map_of_SomeD)
  qed
qed


lemma ended_keeps:
  assumes "(io_step parse)\<^sup>*\<^sup>* s s'" "\<not> sd_reader s"
  shows "\<not> sd_reader s' \<and> set (sd_pending s) \<subseteq> set (sd_pending s') \<and> sd_answers s' = sd_answers s"
  using assms by (induction rule: rtranclp_induct) (auto elim!: io_stepE simp: stdio_ask_def)


lemma one_request_then_eof:
  "(io_step parse)\<^sup>*\<^sup>* Stdio_spawn ((stdio_ask Stdio_spawn)\<lparr>sd_reader := False\<rparr>)"
proof -
  have "io_step parse Stdio_spawn (stdio_ask Stdio_spawn)" by (rule io_step.ask)
  moreover have "io_step parse (stdio_ask Stdio_spawn) ((stdio_ask Stdio_spawn)\<lparr>sd_reader := False\<rparr>)"
    by (rule io_step.eof) (simp add: stdio_ask_def Stdio_spawn_def)
  ultimately show ?thesis by (meson r_into_rtranclp rtranclp.rtrancl_into_rtrancl)
qed



subsection \<open>Events of several lines\<close>

text \<open>
  The event-stream format joins the \<open>data:\<close> lines of an event; here each is parsed alone, so an answer spread over
  two lines, neither of which is JSON by itself, is lost.
\<close>

lemma multi_line_event_lost:
  "parse ''{'' = None \<Longrightarrow> parse ''}'' = None \<Longrightarrow>
     sse_response_for parse (''data: {'' @ [LF] @ ''data: }'' @ [LF]) rid = None"
proof -
  assume none: "parse ''{'' = None" "parse ''}'' = None"
  have "List.map_filter (\<lambda>line. map_option trim (strip_prefix ''data:'' line))
      (str_lines (''data: {'' @ [LF] @ ''data: }'' @ [LF])) = [''{'', ''}'']"
    by code_simp
  with none show ?thesis by (simp add: sse_response_for_def sse_messages_def List.map_filter_simps)
qed

end
