(* ===== verification/Sources.thy ===== *)
theory Sources
  imports Semantic_Types Cache_Policy Http_Scan
begin

section \<open>Sources and functions as the engine sees them\<close>

text \<open>
  \<open>model.rs\<close>, \<open>source.rs\<close> and the data types of \<open>function.rs\<close> in \<open>pawrly-core/src\<close>.
\<close>

subsection \<open>Kinds\<close>

datatype SourceKind =
    KHttp | KFile | KMcp | KSqlite | KPostgres | KMysql | KDuckdb | KSnowflake | KIceberg | KDucklake | KDelta

fun kind_as_str :: "SourceKind \<Rightarrow> string" where
  "kind_as_str KHttp = ''http''"
| "kind_as_str KFile = ''file''"
| "kind_as_str KMcp = ''mcp''"
| "kind_as_str KSqlite = ''sqlite''"
| "kind_as_str KPostgres = ''postgres''"
| "kind_as_str KMysql = ''mysql''"
| "kind_as_str KDuckdb = ''duckdb''"
| "kind_as_str KSnowflake = ''snowflake''"
| "kind_as_str KIceberg = ''iceberg''"
| "kind_as_str KDucklake = ''ducklake''"
| "kind_as_str KDelta = ''delta''"

definition is_http_shaped :: "SourceKind \<Rightarrow> bool" where
  "is_http_shaped k \<longleftrightarrow> k = KHttp"

definition is_duckdb_backed :: "SourceKind \<Rightarrow> bool" where
  "is_duckdb_backed k \<longleftrightarrow>
     k \<in> {KSqlite, KPostgres, KMysql, KDuckdb, KSnowflake, KIceberg, KDucklake, KDelta}"

definition kind_from_str :: "string \<Rightarrow> string + SourceKind" where
  "kind_from_str s =
     (let t = to_ascii_lowercase s in
      if t = ''http'' then Inr KHttp
      else if t = ''file'' then Inr KFile
      else if t = ''mcp'' then Inr KMcp
      else if t = ''sqlite'' then Inr KSqlite
      else if t \<in> {''postgres'', ''pg'', ''postgresql''} then Inr KPostgres
      else if t = ''mysql'' then Inr KMysql
      else if t = ''duckdb'' then Inr KDuckdb
      else if t = ''snowflake'' then Inr KSnowflake
      else if t = ''iceberg'' then Inr KIceberg
      else if t = ''ducklake'' then Inr KDucklake
      else if t \<in> {''delta'', ''deltalake''} then Inr KDelta
      else Inl (''unknown source kind `'' @ t @ ''`''))"

lemma kind_reads_back: "kind_from_str (kind_as_str k) = Inr k"
  by (cases k; hypsubst; code_simp)

datatype FunctionKind = FnHttp | FnMcp | FnFile

fun fn_kind_as_str :: "FunctionKind \<Rightarrow> string" where
  "fn_kind_as_str FnHttp = ''http''"
| "fn_kind_as_str FnMcp = ''mcp''"
| "fn_kind_as_str FnFile = ''file''"

fun for_source :: "SourceKind \<Rightarrow> FunctionKind option" where
  "for_source KHttp = Some FnHttp"
| "for_source KMcp = Some FnMcp"
| "for_source KFile = Some FnFile"
| "for_source _ = None"

subsection \<open>Sources\<close>

record TableDef =
  td_name :: string
  td_description :: "string option"
  td_wiki :: "string option"
  td_config :: json
  td_cache :: "CachePolicy option"
  td_safety :: "SafetyPolicy option"

record SourceDef =
  so_name :: string
  so_kind :: SourceKind
  so_description :: "string option"
  so_wiki :: "string option"
  so_examples :: "string list"
  so_config :: json
  so_cache :: CachePolicy
  so_safety :: "SafetyPolicy option"
  so_tables :: "TableDef list"
  so_raw_table :: bool
  so_raw_table_safety :: "SafetyPolicy option"

subsection \<open>Functions\<close>

record FunctionArg =
  fa_name :: string
  fa_type :: string
  fa_required :: bool
  fa_default :: "string option"
  fa_description :: "string option"
  fa_tool_arg :: "string option"

record FunctionColumn =
  fc_name :: string
  fc_type :: string
  fc_source :: "string option"
  fc_description :: "string option"

record FunctionDef =
  fd_namespace :: string
  fd_name :: string
  fd_kind :: FunctionKind
  fd_description :: "string option"
  fd_wiki :: "string option"
  fd_examples :: "string list"
  fd_args :: "FunctionArg list"
  fd_returns :: "FunctionColumn list"
  fd_connection :: json
  fd_body :: json
  fd_source :: "string option"
  fd_builtin :: bool
  fd_cache :: CachePolicy
  fd_safety :: "SafetyPolicy option"

definition qualified_name :: "FunctionDef \<Rightarrow> string" where
  "qualified_name f = fd_namespace f @ ''.'' @ fd_name f"

definition arg_signature :: "FunctionArg \<Rightarrow> string" where
  "arg_signature a =
     fa_name a @ '' '' @ fa_type a @ (case fa_default a of Some d \<Rightarrow> '' = '' @ d | None \<Rightarrow> [])"

definition signature :: "FunctionDef \<Rightarrow> string" where
  "signature f = qualified_name f @ ''('' @ join '', '' (map arg_signature (fd_args f)) @ '')''"

record FunctionInfo =
  fi_namespace :: string
  fi_name :: string
  fi_kind :: FunctionKind
  fi_builtin :: bool
  fi_signature :: string
  fi_description :: "string option"

definition fn_info :: "FunctionDef \<Rightarrow> FunctionInfo" where
  "fn_info f =
     \<lparr>fi_namespace = fd_namespace f, fi_name = fd_name f, fi_kind = fd_kind f, fi_builtin = fd_builtin f,
      fi_signature = signature f, fi_description = fd_description f\<rparr>"

record FunctionDescription = FunctionInfo +
  fi_wiki :: "string option"
  fi_examples :: "string list"
  fi_args :: "FunctionArg list"
  fi_returns :: "FunctionColumn list"

definition fn_describe :: "FunctionDef \<Rightarrow> FunctionDescription" where
  "fn_describe f =
     \<lparr>fi_namespace = fd_namespace f, fi_name = fd_name f, fi_kind = fd_kind f, fi_builtin = fd_builtin f,
      fi_signature = signature f, fi_description = fd_description f, fi_wiki = fd_wiki f,
      fi_examples = fd_examples f, fi_args = fd_args f, fi_returns = fd_returns f\<rparr>"

definition fn_col :: "string \<Rightarrow> string \<Rightarrow> FunctionColumn" where
  "fn_col name ty = \<lparr>fc_name = name, fc_type = ty, fc_source = None, fc_description = None\<rparr>"

definition required_arg :: "string \<Rightarrow> string \<Rightarrow> string \<Rightarrow> FunctionArg" where
  "required_arg name ty description =
     \<lparr>fa_name = name, fa_type = ty, fa_required = True, fa_default = None, fa_description = Some description,
      fa_tool_arg = None\<rparr>"

definition http_get :: FunctionDef where
  "http_get =
     \<lparr>fd_namespace = ''http'', fd_name = ''get'', fd_kind = FnHttp,
      fd_description = Some (''Generic HTTP GET; `path` is a JSONPath into the response body. Each matched '' @
        ''element is returned as JSON in the `body` column.''),
      fd_wiki = None,
      fd_examples = [''SELECT body FROM http.get('' @ [CHR 0x27] @ ''https://api.example.com/items'' @ [CHR 0x27] @ '', '' @
        [CHR 0x27] @ ''$.items'' @ [CHR 0x27] @ '')''],
      fd_args = [required_arg ''url'' ''varchar'' ''Absolute URL to GET.'',
        \<lparr>fa_name = ''path'', fa_type = ''varchar'', fa_required = False, fa_default = Some ''$'',
         fa_description = Some ''JSONPath into the response body (default `$`).'', fa_tool_arg = None\<rparr>],
      fd_returns = [\<lparr>fc_name = ''body'', fc_type = ''varchar'', fc_source = Some ''$'',
        fc_description = Some ''The matched element, as a JSON string.''\<rparr>],
      fd_connection = JNull,
      fd_body = JObj [(''endpoint'', JStr ''{url}''), (''response'', JObj [(''path'', JStr ''{path}'')])],
      fd_source = None, fd_builtin = True, fd_cache = NoCache, fd_safety = None\<rparr>"

definition file_glob :: FunctionDef where
  "file_glob =
     \<lparr>fd_namespace = ''file'', fd_name = ''glob'', fd_kind = FnFile,
      fd_description = Some ''List files matching a glob pattern, one row per file.'', fd_wiki = None,
      fd_examples = [''SELECT file_name, size_bytes FROM file.glob('' @ [CHR 0x27] @ ''./data/*.parquet'' @ [CHR 0x27] @
        '') ORDER BY 1''],
      fd_args = [required_arg ''pattern'' ''varchar'' ''Glob pattern, resolved against the workspace dir when relative.''],
      fd_returns = [fn_col ''path'' ''varchar'', fn_col ''file_name'' ''varchar'', fn_col ''size_bytes'' ''bigint'',
        fn_col ''modified'' ''timestamp''],
      fd_connection = JNull, fd_body = JObj [(''path'', JStr ''{pattern}'')], fd_source = None, fd_builtin = True, fd_cache = NoCache, fd_safety = None\<rparr>"

definition file_grep :: FunctionDef where
  "file_grep =
     \<lparr>fd_namespace = ''file'', fd_name = ''grep'', fd_kind = FnFile,
      fd_description = Some ''Search file contents with a regex, one row per matching line.'', fd_wiki = None,
      fd_examples = [''SELECT path, line_number, line FROM file.grep('' @ [CHR 0x27] @ ''ERROR'' @ [CHR 0x27] @ '', '' @
        [CHR 0x27] @ ''./logs/*.log'' @ [CHR 0x27] @ '')''],
      fd_args = [required_arg ''pattern'' ''varchar'' ''Regular expression matched against each line.'',
        required_arg ''glob'' ''varchar'' ''Glob of files to search, resolved against the workspace dir when relative.''],
      fd_returns = [fn_col ''path'' ''varchar'', fn_col ''line_number'' ''bigint'', fn_col ''line'' ''varchar''],
      fd_connection = JNull, fd_body = JObj [(''grep'', JStr ''{pattern}''), (''path'', JStr ''{glob}'')],
      fd_source = None, fd_builtin = True, fd_cache = NoCache, fd_safety = None\<rparr>"

definition builtins :: "FunctionDef list" where
  "builtins = [http_get, file_glob, file_grep]"

definition reserved_function_namespaces :: "string list" where
  "reserved_function_namespaces = [''http'', ''file'', ''mcp'', ''materialized'']"

end
