(* ===== verification/Mcp_Source.thy ===== *)
theory Mcp_Source
  imports Mcp_Session Sources
begin

section \<open>Tables and functions over the tools of an MCP server\<close>

text \<open>
  \<open>synth.rs\<close>, \<open>provider.rs\<close>, \<open>function.rs\<close> and \<open>register.rs\<close> of \<open>pawrly-sources/mcp/src\<close>: which tools become tables, the calls
  a scan makes, and the batches it returns.  The server is a transport as in \<open>Mcp_Session\<close>.  Serde's writing and
  reading of a table specification, the JSON parser and the JSON number of a float are arguments.
\<close>

subsection \<open>Table specifications\<close>

record Arg =
  ag_name :: string
  ag_type :: string
  ag_required :: bool
  ag_tool_arg :: "string option"

definition wire_name :: "Arg \<Rightarrow> string" where
  "wire_name a = (case ag_tool_arg a of Some t \<Rightarrow> t | None \<Rightarrow> ag_name a)"

record OutColumn =
  oc_name :: string
  oc_type :: string
  oc_path :: "string list"

record LimitBinding =
  lb_tool_arg :: string
  lb_max :: "nat option"

record McpPagination =
  pg_cursor_arg :: string
  pg_response_cursor_path :: "string list"

record McpTableSpec =
  mt_name :: string
  mt_tool :: string
  mt_description :: "string option"
  mt_args :: "Arg list"
  mt_columns :: "OutColumn list"
  mt_tool_args :: "json bmap"
  mt_limit_binding :: "LimitBinding option"
  mt_pagination :: "McpPagination option"
  mt_rows_path :: "string list"

datatype Expose = ReadOnly | ExposeAll | Listed

record SynthOptions =
  sy_expose :: Expose
  sy_include :: "string list"
  sy_exclude :: "string list"

record Diagnostic =
  dg_code :: string
  dg_message :: string
  dg_table :: "string option"

definition as_object :: "json \<Rightarrow> json bmap option" where
  "as_object v = (case v of JObj m \<Rightarrow> Some m | _ \<Rightarrow> None)"

definition result_column :: OutColumn where
  "result_column = \<lparr>oc_name = ''result'', oc_type = ''json'', oc_path = []\<rparr>"

definition deref_field :: "json \<Rightarrow> json \<Rightarrow> string \<Rightarrow> json" where
  "deref_field doc schema field =
     (case get_key schema field of Some v \<Rightarrow> deref doc v | None \<Rightarrow> JNull)"

definition columns_of :: "json \<Rightarrow> json \<Rightarrow> OutColumn list" where
  "columns_of doc item =
     (case Option.bind (get_key item ''properties'') as_object of
        None \<Rightarrow> [result_column]
      | Some props \<Rightarrow>
          sort_key oc_name (map (\<lambda>(name, schema).
            \<lparr>oc_name = name, oc_type = column_type (deref doc schema), oc_path = [name]\<rparr>) props))"

definition output_columns :: "json \<Rightarrow> string list \<times> OutColumn list" where
  "output_columns doc =
     (let schema = deref doc doc in
      if schema_type schema = Some ''array'' then ([], columns_of doc (deref_field doc schema ''items''))
      else case (if is_object schema then Option.bind (get_key schema ''properties'') as_object else None) of
        Some props \<Rightarrow>
          (case rows_array doc props of
             Some (prop, array) \<Rightarrow> ([prop], columns_of doc (deref_field doc array ''items''))
           | None \<Rightarrow> ([], columns_of doc schema))
      | None \<Rightarrow> ([], [result_column]))"

definition tool_args :: "json \<Rightarrow> Arg list" where
  "tool_args input_schema =
     (case Option.bind (get_key input_schema ''properties'') as_object of
        None \<Rightarrow> []
      | Some props \<Rightarrow>
          (let required = (case Option.bind (get_key input_schema ''required'') as_list of
                             Some a \<Rightarrow> List.map_filter as_str a | None \<Rightarrow> [])
           in sort_key ag_name (map (\<lambda>(name, schema).
                \<lparr>ag_name = name, ag_type = param_type schema, ag_required = (name \<in> set required), ag_tool_arg = None\<rparr>) props)))"

definition infer_limit_binding :: "Arg list \<Rightarrow> LimitBinding option" where
  "infer_limit_binding args =
     map_option (\<lambda>name. \<lparr>lb_tool_arg = name, lb_max = None\<rparr>)
       (find (\<lambda>n. list_ex (\<lambda>a. ag_name a = n) args) [''limit'', ''first'', ''page_size'', ''pageSize'', ''maxResults''])"

definition infer_pagination :: "Arg list \<Rightarrow> McpPagination option" where
  "infer_pagination args =
     map_option (\<lambda>name. \<lparr>pg_cursor_arg = name, pg_response_cursor_path = [''nextCursor'']\<rparr>)
       (find (\<lambda>n. list_ex (\<lambda>a. ag_name a = n) args) [''cursor'', ''after'', ''startCursor'', ''page_token''])"

definition sanitize_char :: "char \<Rightarrow> string \<Rightarrow> string" where
  "sanitize_char c out =
     (if is_ascii_alphanumeric c then out @ [ascii_lower c]
      else if out \<noteq> [] \<and> last out = CHR ''_'' then out else out @ ''_'')"

definition sanitize :: "string \<Rightarrow> string" where
  "sanitize name =
     (let trimmed = trim_matches [CHR ''_''] (fold sanitize_char name []) in
      if trimmed = [] then ''tool'' else trimmed)"

definition admit :: "Tool \<Rightarrow> Expose \<Rightarrow> bool" where
  "admit tool expose \<longleftrightarrow>
     tl_destructive tool \<noteq> Some True \<and>
     (case expose of ReadOnly \<Rightarrow> tl_read_only tool = Some True | ExposeAll \<Rightarrow> True | Listed \<Rightarrow> False)"

definition table_from_tool :: "Tool \<Rightarrow> McpTableSpec" where
  "table_from_tool tool =
     (let args = tool_args (tl_input_schema tool);
          (rows_path, columns) = (case tl_output_schema tool of Some schema \<Rightarrow> output_columns schema
                                  | None \<Rightarrow> ([], [result_column]))
      in \<lparr>mt_name = sanitize (tl_name tool), mt_tool = tl_name tool, mt_description = tl_description tool,
          mt_args = args, mt_columns = columns, mt_tool_args = [], mt_limit_binding = infer_limit_binding args,
          mt_pagination = infer_pagination args, mt_rows_path = rows_path\<rparr>)"

definition selected :: "SynthOptions \<Rightarrow> Tool \<Rightarrow> bool" where
  "selected opts tool \<longleftrightarrow>
     tl_name tool \<notin> set (sy_exclude opts) \<and> (sy_include opts = [] \<or> tl_name tool \<in> set (sy_include opts))"

definition held_back :: "Tool \<Rightarrow> Diagnostic" where
  "held_back tool =
     \<lparr>dg_code = ''MCP_TOOL_HELD_BACK'',
      dg_message = ''tool `'' @ tl_name tool @ ''` is not read-only; set `expose: all` or list it under `include`'',
      dg_table = Some (tl_name tool)\<rparr>"

definition synthesize_tools :: "Tool list \<Rightarrow> SynthOptions \<Rightarrow> McpTableSpec list \<times> Diagnostic list" where
  "synthesize_tools tools opts =
     (let chosen = filter (selected opts) tools in
      (sort_key mt_name (map table_from_tool (filter (\<lambda>t. admit t (sy_expose opts)) chosen)),
       map held_back (filter (\<lambda>t. \<not> admit t (sy_expose opts)) chosen)))"

text \<open>A \<open>tables:\<close> entry patches the table of its name or defines one.\<close>

definition table_patch :: "string option \<Rightarrow> json \<Rightarrow> json" where
  "table_patch description body =
     (case body of
        JObj m \<Rightarrow>
          (let m' = bt_remove ''name'' m in
           JObj (case description of Some d \<Rightarrow> bt_or_insert ''description'' (JStr d) m' | None \<Rightarrow> m'))
      | _ \<Rightarrow> body)"

fun replace_first :: "('a \<Rightarrow> bool) \<Rightarrow> 'a \<Rightarrow> 'a list \<Rightarrow> 'a list" where
  "replace_first P y [] = []"
| "replace_first P y (x # xs) = (if P x then y # xs else x # replace_first P y xs)"

definition apply_table_def ::
  "(McpTableSpec \<Rightarrow> json) \<Rightarrow> (json \<Rightarrow> string + McpTableSpec) \<Rightarrow> string list \<Rightarrow> string \<Rightarrow> string option \<Rightarrow> json \<Rightarrow>
   McpTableSpec list \<times> Diagnostic list \<Rightarrow> string + McpTableSpec list \<times> Diagnostic list" where
  "apply_table_def to_value from_value tool_names name description body st =
     (let (tables, diagnostics) = st; patch = table_patch description body in
      case find (\<lambda>t. mt_name t = name) tables of
        Some existing \<Rightarrow>
          rbind (from_value (schema_merge (to_value existing) patch)) (\<lambda>spec.
            Inr (replace_first (\<lambda>t. mt_name t = name) spec tables, diagnostics))
      | None \<Rightarrow>
          (let v = schema_merge (JObj [(''name'', JStr name)]) patch in
           if Option.bind (get_key v ''tool'') as_str = None
           then Inl (''table `'' @ name @ ''` does not match a synthesized tool and declares no `tool:`'')
           else rbind (from_value v) (\<lambda>spec.
             Inr (tables @ [spec],
               if mt_tool spec \<in> set tool_names then diagnostics
               else diagnostics @ [\<lparr>dg_code = ''MCP_DECLARED_TOOL_ABSENT'',
                 dg_message = ''declared tool `'' @ mt_tool spec @ ''` is not advertised by the server'',
                 dg_table = Some name\<rparr>]))))"

fun apply_table_defs ::
  "(McpTableSpec \<Rightarrow> json) \<Rightarrow> (json \<Rightarrow> string + McpTableSpec) \<Rightarrow> string list \<Rightarrow> TableDef list \<Rightarrow>
   McpTableSpec list \<times> Diagnostic list \<Rightarrow> string + McpTableSpec list \<times> Diagnostic list" where
  "apply_table_defs to_value from_value tool_names [] st = Inr st"
| "apply_table_defs to_value from_value tool_names (t # ts) st =
     (case apply_table_def to_value from_value tool_names (td_name t) (td_description t) (td_config t) st of
        Inl e \<Rightarrow> Inl (''table `'' @ td_name t @ ''`: '' @ e)
      | Inr st' \<Rightarrow> apply_table_defs to_value from_value tool_names ts st')"

subsection \<open>Fetching rows\<close>

definition default_mcp_pages :: nat where
  "default_mcp_pages = 50"

record McpLib =
  ml_cell :: CellLib
  ml_parse :: "string \<Rightarrow> json option"
  ml_float :: "64 word \<Rightarrow> json"

definition mcp_arrow_type :: "string \<Rightarrow> DataType" where
  "mcp_arrow_type t =
     (let s = to_ascii_lowercase t in
      if s \<in> {''bool'', ''boolean''} then TBoolean
      else if s \<in> {''int'', ''int32'', ''bigint'', ''int64'', ''long''} then TInt64
      else if s \<in> {''float'', ''float32'', ''double'', ''float64''} then TFloat64
      else TUtf8)"

definition arg_is_shadowed :: "McpTableSpec \<Rightarrow> string \<Rightarrow> bool" where
  "arg_is_shadowed spec arg = list_ex (\<lambda>c. oc_name c = arg) (mt_columns spec)"

definition shown_args :: "McpTableSpec \<Rightarrow> Arg list" where
  "shown_args spec = filter (\<lambda>a. \<not> arg_is_shadowed spec (ag_name a)) (mt_args spec)"

definition mcp_schema :: "McpTableSpec \<Rightarrow> Schema" where
  "mcp_schema spec =
     map (\<lambda>a. (ag_name a, mcp_arrow_type (ag_type a))) (shown_args spec) @
     map (\<lambda>c. (oc_name c, mcp_arrow_type (oc_type c))) (mt_columns spec)"

record McpToolTableProvider =
  mp_spec :: McpTableSpec
  mp_schema :: Schema
  mp_max_pages :: nat

definition mcp_provider :: "McpTableSpec \<Rightarrow> nat option \<Rightarrow> McpToolTableProvider" where
  "mcp_provider spec max_pages =
     \<lparr>mp_spec = spec, mp_schema = mcp_schema spec,
      mp_max_pages = (case max_pages of Some n \<Rightarrow> n | None \<Rightarrow> default_mcp_pages)\<rparr>"

definition scalar_to_json :: "McpLib \<Rightarrow> ScalarValue \<Rightarrow> json" where
  "scalar_to_json lib s =
     (case s of
        SUtf8 (Some t) \<Rightarrow> JStr t
      | SLargeUtf8 (Some t) \<Rightarrow> JStr t
      | SInt32 (Some n) \<Rightarrow> JNum (show_int n)
      | SInt64 (Some n) \<Rightarrow> JNum (show_int n)
      | SUInt64 (Some n) \<Rightarrow> JNum (show_nat n)
      | SBoolean (Some b) \<Rightarrow> JBool b
      | SFloat64 (Some f) \<Rightarrow> ml_float lib f
      | _ \<Rightarrow> JNull)"

fun extract_eq :: "McpLib \<Rightarrow> Expr \<Rightarrow> (string \<times> json) option" where
  "extract_eq lib (EBinary (EColumn c) op (ELiteral s)) = (if op = OpEq then Some (c, scalar_to_json lib s) else None)"
| "extract_eq lib (EBinary (ELiteral s) op (EColumn c)) = (if op = OpEq then Some (c, scalar_to_json lib s) else None)"
| "extract_eq lib _ = None"

datatype McpPushDown = McpInexact | McpUnsupported

definition mcp_pushdown :: "McpLib \<Rightarrow> McpTableSpec \<Rightarrow> Expr list \<Rightarrow> McpPushDown list" where
  "mcp_pushdown lib spec filters =
     map (\<lambda>f. case extract_eq lib f of
         Some (col, _) \<Rightarrow> if list_ex (\<lambda>a. ag_name a = col) (mt_args spec) then McpInexact else McpUnsupported
       | None \<Rightarrow> McpUnsupported) filters"

definition bind_eq :: "McpLib \<Rightarrow> McpTableSpec \<Rightarrow> Expr \<Rightarrow> json bmap \<Rightarrow> json bmap" where
  "bind_eq lib spec f bound =
     (case extract_eq lib f of
        Some (col, v) \<Rightarrow> if list_ex (\<lambda>a. ag_name a = col) (mt_args spec) then bt_insert col v bound else bound
      | None \<Rightarrow> bound)"

definition bound_args :: "McpLib \<Rightarrow> McpTableSpec \<Rightarrow> Expr list \<Rightarrow> json bmap" where
  "bound_args lib spec filters = fold (bind_eq lib spec) filters []"

definition structured_result :: "McpLib \<Rightarrow> json \<Rightarrow> json" where
  "structured_result lib result =
     (case get_key result ''structuredContent'' of
        Some structured \<Rightarrow> structured
      | None \<Rightarrow>
          (case Option.bind (get_key result ''content'') as_list of
             None \<Rightarrow> JNull
           | Some items \<Rightarrow>
               (case List.map_filter (\<lambda>i. Option.bind (get_key i ''text'') as_str)
                       (filter (\<lambda>i. Option.bind (get_key i ''type'') as_str = Some ''text'') items) of
                  [only] \<Rightarrow> (case ml_parse lib only of Some v \<Rightarrow> v | None \<Rightarrow> JStr only)
                | [] \<Rightarrow> (case get_key result ''content'' of Some c \<Rightarrow> c | None \<Rightarrow> JNull)
                | many \<Rightarrow> JStr (join [LF] many))))"

definition rows_from :: "json \<Rightarrow> string list \<Rightarrow> json list" where
  "rows_from structured path =
     (case walk structured path of
        None \<Rightarrow> []
      | Some (JArr rows) \<Rightarrow> rows
      | Some (JObj m) \<Rightarrow>
          (case filter is_array (map snd m) of
             [only] \<Rightarrow> (case as_list only of Some rows \<Rightarrow> rows | None \<Rightarrow> [])
           | _ \<Rightarrow> [JObj m])
      | Some JNull \<Rightarrow> []
      | Some other \<Rightarrow> [other])"

definition base_args :: "McpTableSpec \<Rightarrow> json bmap \<Rightarrow> nat option \<Rightarrow> json bmap" where
  "base_args spec bound limit =
     (let static = fold (\<lambda>(k, v). bt_insert k v) (mt_tool_args spec) [];
          named = fold (\<lambda>a m. case map_of bound (ag_name a) of Some v \<Rightarrow> bt_insert (wire_name a) v m | None \<Rightarrow> m)
                    (mt_args spec) static
      in case (mt_limit_binding spec, limit) of
           (Some binding, Some l) \<Rightarrow>
             bt_insert (lb_tool_arg binding)
               (JNum (show_nat (case lb_max binding of Some m \<Rightarrow> min l m | None \<Rightarrow> l))) named
         | _ \<Rightarrow> named)"

definition page_args :: "McpTableSpec \<Rightarrow> json bmap \<Rightarrow> string option \<Rightarrow> json bmap" where
  "page_args spec base cursor =
     (case (mt_pagination spec, cursor) of
        (Some pagination, Some c) \<Rightarrow> bt_insert (pg_cursor_arg pagination) (JStr c) base
      | _ \<Rightarrow> base)"

definition mcp_next_cursor :: "McpTableSpec \<Rightarrow> json \<Rightarrow> string option" where
  "mcp_next_cursor spec result =
     Option.bind (mt_pagination spec) (\<lambda>pagination.
       case Option.bind (walk result (pg_response_cursor_path pagination)) as_str of
         Some s \<Rightarrow> if s \<noteq> [] then Some s else None
       | None \<Rightarrow> None)"

text \<open>The loop over the pages; the last component is the list of the arguments sent.\<close>

fun mcp_pages ::
  "nat \<Rightarrow> McpLib \<Rightarrow> 't McpTransport \<Rightarrow> McpTableSpec \<Rightarrow> json bmap \<Rightarrow> nat option \<Rightarrow> 't \<Rightarrow> string option \<Rightarrow> json list \<Rightarrow>
   ((McpError + json list) \<times> 't) \<times> json list" where
  "mcp_pages 0 lib tr spec base limit t cursor rows = ((Inr rows, t), [])"
| "mcp_pages (Suc n) lib tr spec base limit t cursor rows =
     (let args = JObj (page_args spec base cursor) in
      case call_tool tr t (mt_tool spec) args of
        (Inl e, t') \<Rightarrow> ((Inl e, t'), [args])
      | (Inr result, t') \<Rightarrow>
          let rows' = rows @ rows_from (structured_result lib result) (mt_rows_path spec) in
          if (case limit of Some l \<Rightarrow> l \<le> length rows' | None \<Rightarrow> False) then ((Inr rows', t'), [args])
          else case mcp_next_cursor spec result of
            None \<Rightarrow> ((Inr rows', t'), [args])
          | Some c \<Rightarrow> (case mcp_pages n lib tr spec base limit t' (Some c) rows' of (r, calls) \<Rightarrow> (r, args # calls)))"

definition mcp_fetch ::
  "McpLib \<Rightarrow> 't McpTransport \<Rightarrow> McpToolTableProvider \<Rightarrow> json bmap \<Rightarrow> nat option \<Rightarrow> 't \<Rightarrow>
   ((McpError + json list) \<times> 't) \<times> json list" where
  "mcp_fetch lib tr p bound limit t =
     (case mcp_pages (mp_max_pages p) lib tr (mp_spec p) (base_args (mp_spec p) bound limit) limit t None [] of
        ((r, t'), calls) \<Rightarrow>
          ((rbind r (\<lambda>rows. Inr (case limit of Some l \<Rightarrow> take l rows | None \<Rightarrow> rows)), t'), calls))"

subsection \<open>Batches\<close>

definition text_of :: "McpLib \<Rightarrow> json \<Rightarrow> string option" where
  "text_of lib v =
     (case v of JNull \<Rightarrow> None | JStr s \<Rightarrow> Some s | other \<Rightarrow> Some (lib_show (cl_expr (ml_cell lib)) other))"

definition column_array :: "McpLib \<Rightarrow> DataType \<Rightarrow> json list \<Rightarrow> ArrowArray" where
  "column_array lib ty vals =
     (case ty of
        TInt64 \<Rightarrow> AInt64 (map (\<lambda>v. case v of JNum n \<Rightarrow> parse_sint 64 n | JStr s \<Rightarrow> parse_sint 64 s | _ \<Rightarrow> None) vals)
      | TFloat64 \<Rightarrow> AFloat64 (map (\<lambda>v. case v of JNum n \<Rightarrow> cl_f64 (ml_cell lib) n | JStr s \<Rightarrow> cl_f64 (ml_cell lib) s | _ \<Rightarrow> None) vals)
      | TBoolean \<Rightarrow> ABoolean (map as_bool vals)
      | _ \<Rightarrow> AUtf8 (map (text_of lib) vals))"

definition field_array :: "McpLib \<Rightarrow> Schema \<Rightarrow> string \<Rightarrow> json list \<Rightarrow> string + ArrowArray" where
  "field_array lib schema name vals =
     rbind (ok_or (''no field named '' @ name) (map_of schema name)) (\<lambda>ty. Inr (column_array lib ty vals))"

definition row_values :: "string list \<Rightarrow> json list \<Rightarrow> json list" where
  "row_values path rows = map (\<lambda>row. case walk row path of Some v \<Rightarrow> v | None \<Rightarrow> JNull) rows"

definition bound_values :: "json bmap \<Rightarrow> string \<Rightarrow> nat \<Rightarrow> json list" where
  "bound_values bound name n = replicate n (case map_of bound name of Some v \<Rightarrow> v | None \<Rightarrow> JNull)"

definition mcp_build_batch ::
  "McpLib \<Rightarrow> Schema \<Rightarrow> McpTableSpec \<Rightarrow> json bmap \<Rightarrow> json list \<Rightarrow> string + RecordBatch" where
  "mcp_build_batch lib schema spec bound rows =
     rbind (rmap (\<lambda>a. field_array lib schema (ag_name a) (bound_values bound (ag_name a) (length rows))) (shown_args spec)) (\<lambda>args.
     rbind (rmap (\<lambda>c. field_array lib schema (oc_name c) (row_values (oc_path c) rows)) (mt_columns spec)) (\<lambda>cols.
       try_new_with_rows schema (args @ cols) None))"

datatype McpScanError = McpExecution McpError | McpArrow string | McpIndexPanic

definition mcp_arrow :: "string + 'a \<Rightarrow> McpScanError + 'a" where
  "mcp_arrow r = (case r of Inl e \<Rightarrow> Inl (McpArrow e) | Inr a \<Rightarrow> Inr a)"

definition mcp_project :: "nat list option \<Rightarrow> Schema \<Rightarrow> RecordBatch \<Rightarrow> McpScanError + Schema \<times> RecordBatch" where
  "mcp_project projection schema b =
     (case projection of
        None \<Rightarrow> Inr (schema, b)
      | Some idx \<Rightarrow>
          rbind (ok_or McpIndexPanic (project_columns idx schema)) (\<lambda>fields.
          rbind (ok_or McpIndexPanic (project_columns idx (ba_columns b))) (\<lambda>cols.
          rbind (mcp_arrow (try_new_with_rows fields cols (Some (ba_rows b)))) (\<lambda>projected. Inr (fields, projected)))))"

definition mcp_scan ::
  "McpLib \<Rightarrow> 't McpTransport \<Rightarrow> McpToolTableProvider \<Rightarrow> nat list option \<Rightarrow> Expr list \<Rightarrow> nat option \<Rightarrow> 't \<Rightarrow>
   (McpScanError + Schema \<times> RecordBatch) \<times> json list" where
  "mcp_scan lib tr p projection filters limit t =
     (let bound = bound_args lib (mp_spec p) filters in
      case mcp_fetch lib tr p bound limit t of
        ((Inl e, _), calls) \<Rightarrow> (Inl (McpExecution e), calls)
      | ((Inr rows, _), calls) \<Rightarrow>
          (rbind (mcp_arrow (mcp_build_batch lib (mp_schema p) (mp_spec p) bound rows)) (mcp_project projection (mp_schema p)), calls))"

subsection \<open>Functions over tools\<close>

definition typed_json :: "McpLib \<Rightarrow> string \<Rightarrow> string \<Rightarrow> json" where
  "typed_json lib ty v =
     (let t = to_ascii_lowercase (trim ty) in
      if t \<in> {''int'', ''integer'', ''int32'', ''int64'', ''bigint'', ''long'', ''smallint''}
      then (case parse_sint 64 v of Some n \<Rightarrow> JNum (show_int n) | None \<Rightarrow> JStr v)
      else if t \<in> {''double'', ''float'', ''float32'', ''float64'', ''real'', ''decimal'', ''numeric''}
      then (case cl_f64 (ml_cell lib) v of Some f \<Rightarrow> ml_float lib f | None \<Rightarrow> JStr v)
      else if t \<in> {''bool'', ''boolean''}
      then (if v = ''true'' then JBool True else if v = ''false'' then JBool False else JStr v)
      else JStr v)"

definition mcp_bind_args :: "McpLib \<Rightarrow> FunctionArg list \<Rightarrow> string bmap \<Rightarrow> json bmap" where
  "mcp_bind_args lib args params =
     fold (\<lambda>a bound. case map_of params (fa_name a) of
         Some v \<Rightarrow> bt_insert (fa_name a) (typed_json lib (fa_type a) v) bound | None \<Rightarrow> bound) args []"

definition mcp_arg_json :: "FunctionArg \<Rightarrow> json" where
  "mcp_arg_json a =
     JObj ([(''name'', JStr (fa_name a))] @ (if fa_required a then [(''required'', JBool True)] else []) @
       (case fa_tool_arg a of Some t \<Rightarrow> [(''tool_arg'', JStr t)] | None \<Rightarrow> []) @ [(''type'', JStr (fa_type a))])"

definition fn_invalid :: "FunctionDef \<Rightarrow> string \<Rightarrow> string" where
  "fn_invalid def msg = ''function `'' @ fd_namespace def @ ''.'' @ fd_name def @ ''`: '' @ msg"

definition mcp_function_spec :: "(json \<Rightarrow> string + McpTableSpec) \<Rightarrow> FunctionDef \<Rightarrow> string + McpTableSpec" where
  "mcp_function_spec from_value def =
     rbind (case fd_body def of JObj m \<Rightarrow> Inr m | JNull \<Rightarrow> Inr []
            | _ \<Rightarrow> Inl (fn_invalid def ''mcp function `body` must be a mapping'')) (\<lambda>m.
       let m1 = bt_insert ''name'' (JStr (fd_name def)) m;
           m2 = (case fd_description def of Some d \<Rightarrow> bt_or_insert ''description'' (JStr d) m1 | None \<Rightarrow> m1);
           m3 = bt_insert ''columns'' (JArr []) (bt_insert ''args'' (JArr (map mcp_arg_json (fd_args def))) m2)
       in case from_value (JObj m3) of
            Inl e \<Rightarrow> Inl (fn_invalid def (''invalid mcp function body: '' @ e))
          | Inr spec \<Rightarrow> Inr spec)"

definition function_schema :: "FunctionColumn list \<Rightarrow> Schema" where
  "function_schema returns = map (\<lambda>c. (fc_name c, mcp_arrow_type (fc_type c))) returns"

definition path_segments :: "string option \<Rightarrow> string \<Rightarrow> string list" where
  "path_segments src default_name =
     (case src of
        None \<Rightarrow> [default_name]
      | Some s \<Rightarrow>
          (let trimmed = dropWhile (\<lambda>c. c = CHR ''.'') (dropWhile (\<lambda>c. c = CHR ''$'') s) in
           if trimmed = [] then [] else split_on (CHR ''.'') trimmed))"

definition build_function_batch ::
  "McpLib \<Rightarrow> Schema \<Rightarrow> FunctionColumn list \<Rightarrow> json bmap \<Rightarrow> json list \<Rightarrow> string + RecordBatch" where
  "build_function_batch lib schema returns bound rows =
     rbind (rmap (\<lambda>c. field_array lib schema (fc_name c)
         (if fc_source c = Some ''arg'' then bound_values bound (fc_name c) (length rows)
          else row_values (path_segments (fc_source c) (fc_name c)) rows)) returns) (\<lambda>arrays.
       try_new_with_rows schema arrays None)"

record McpFunctionExecutor =
  mf_provider :: McpToolTableProvider
  mf_args :: "FunctionArg list"
  mf_returns :: "FunctionColumn list"
  mf_schema :: Schema

definition McpFunctionExecutor_new ::
  "(json \<Rightarrow> string + McpTableSpec) \<Rightarrow> FunctionDef \<Rightarrow> nat option \<Rightarrow> string + McpFunctionExecutor" where
  "McpFunctionExecutor_new from_value def max_pages =
     rbind (mcp_function_spec from_value def) (\<lambda>spec.
       Inr \<lparr>mf_provider = mcp_provider spec max_pages, mf_args = fd_args def, mf_returns = fd_returns def,
            mf_schema = function_schema (fd_returns def)\<rparr>)"

definition mcp_invoke ::
  "McpLib \<Rightarrow> 't McpTransport \<Rightarrow> McpFunctionExecutor \<Rightarrow> string bmap \<Rightarrow> nat option \<Rightarrow> 't \<Rightarrow> (McpScanError + RecordBatch) \<times> json list" where
  "mcp_invoke lib tr ex params limit t =
     (let bound = mcp_bind_args lib (mf_args ex) params in
      case mcp_fetch lib tr (mf_provider ex) bound limit t of
        ((Inl e, _), calls) \<Rightarrow> (Inl (McpExecution e), calls)
      | ((Inr rows, _), calls) \<Rightarrow>
          (mcp_arrow (build_function_batch lib (mf_schema ex) (mf_returns ex) bound rows), calls))"

subsection \<open>Registration\<close>

definition strings_at :: "json option \<Rightarrow> string list" where
  "strings_at v = (case Option.bind v as_list of Some a \<Rightarrow> List.map_filter as_str a | None \<Rightarrow> [])"

definition synth_options :: "json \<Rightarrow> SynthOptions" where
  "synth_options cfg =
     (let expose = Option.bind (get_key cfg ''expose'') as_str;
          tools = (\<lambda>key. strings_at (Option.bind (get_key cfg key) (\<lambda>v. get_key v ''tools'')))
      in \<lparr>sy_expose = (if expose = Some ''all'' then ExposeAll else if expose = Some ''listed'' then Listed else ReadOnly),
          sy_include = tools ''include'', sy_exclude = tools ''exclude''\<rparr>)"

datatype McpBuildError = McpConfig string | McpConnect string | McpDataFusion string

definition parse_command :: "json \<Rightarrow> McpBuildError + string \<times> string list" where
  "parse_command cfg =
     (case get_key cfg ''command'' of
        Some (JArr parts) \<Rightarrow>
          (case List.map_filter as_str parts of
             program # args \<Rightarrow> Inr (program, args)
           | [] \<Rightarrow> Inl (McpConfig ''`config.command` array is empty''))
      | Some (JStr program) \<Rightarrow> Inr (program, strings_at (get_key cfg ''args''))
      | _ \<Rightarrow> Inl (McpConfig ''`transport: stdio` requires `config.command`''))"

definition parse_env :: "json \<Rightarrow> (string \<times> string) list" where
  "parse_env cfg =
     (case Option.bind (get_key cfg ''env'') as_object of
        Some m \<Rightarrow> List.map_filter (\<lambda>(k, v). map_option (Pair k) (as_str v)) m
      | None \<Rightarrow> [])"

text \<open>What \<open>build_transport\<close> starts: a child process or an HTTP transport.\<close>

datatype TransportPlan =
    SpawnStdio string "string list" "(string \<times> string) list"
  | OpenHttp HttpTransport

definition build_transport ::
  "(string \<Rightarrow> bool) \<Rightarrow> (string \<Rightarrow> bool) \<Rightarrow> json \<Rightarrow> McpBuildError + TransportPlan" where
  "build_transport name_ok value_ok cfg =
     (let transport = Option.bind (get_key cfg ''transport'') as_str in
      if transport = Some ''stdio'' then
        rbind (parse_command cfg) (\<lambda>(command, args). Inr (SpawnStdio command args (parse_env cfg)))
      else if transport = Some ''streamable_http'' then
        rbind (ok_or (McpConfig ''`streamable_http` requires `config.url`'') (Option.bind (get_key cfg ''url'') as_str)) (\<lambda>url.
          Inr (OpenHttp (HttpTransport_new url
            (case get_key cfg ''auth'' of Some auth \<Rightarrow> auth_headers name_ok value_ok auth | None \<Rightarrow> []))))
      else Inl (McpConfig (''`kind: mcp` requires `config.transport` of `stdio` or `streamable_http` (got '' @
        (case transport of Some t \<Rightarrow> ''Some('' @ quoted t @ '')'' | None \<Rightarrow> ''None'') @ '')'')))"

text \<open>\<open>MemorySchemaProvider::register_table\<close> refuses a name that is taken.\<close>

fun register_tables :: "string list \<Rightarrow> nat option \<Rightarrow> McpTableSpec list \<Rightarrow> McpBuildError + (string \<times> McpToolTableProvider) list" where
  "register_tables taken max_pages [] = Inr []"
| "register_tables taken max_pages (spec # specs) =
     (if mt_name spec \<in> set taken
      then Inl (McpDataFusion (''register table: The table '' @ mt_name spec @ '' already exists''))
      else rbind (register_tables (mt_name spec # taken) max_pages specs) (\<lambda>ps.
        Inr ((mt_name spec, mcp_provider spec max_pages) # ps)))"

definition show_mcp_error :: "McpError \<Rightarrow> string" where
  "show_mcp_error e =
     (case e of
        McpTransportError m \<Rightarrow> ''transport: '' @ m
      | McpRpc code m \<Rightarrow> ''mcp error '' @ show_int code @ '': '' @ m
      | McpProtocol m \<Rightarrow> ''protocol: '' @ m)"

definition mcp_tables ::
  "(McpTableSpec \<Rightarrow> json) \<Rightarrow> (json \<Rightarrow> string + McpTableSpec) \<Rightarrow> SourceDef \<Rightarrow> Tool list \<Rightarrow>
   McpBuildError + McpTableSpec list \<times> Diagnostic list" where
  "mcp_tables to_value from_value def tools =
     (case apply_table_defs to_value from_value (map tl_name tools) (so_tables def)
             (synthesize_tools tools (synth_options (so_config def))) of
        Inl e \<Rightarrow> Inl (McpConfig e)
      | Inr st \<Rightarrow> Inr st)"

text \<open>Registering starts the transport, shakes hands and lists the tools; \<open>open_plan\<close> is the operating system's part.\<close>

definition register_mcp_source ::
  "(McpTableSpec \<Rightarrow> json) \<Rightarrow> (json \<Rightarrow> string + McpTableSpec) \<Rightarrow> (string \<Rightarrow> bool) \<Rightarrow> (string \<Rightarrow> bool) \<Rightarrow>
   (TransportPlan \<Rightarrow> McpError + 't McpTransport \<times> 't) \<Rightarrow> string \<Rightarrow> string list \<Rightarrow> SourceDef \<Rightarrow>
   (McpBuildError + (string \<times> McpToolTableProvider) list) option" where
  "register_mcp_source to_value from_value name_ok value_ok open_plan version taken def =
     (let fails = (\<lambda>e. Some (Inl (McpConnect (show_mcp_error e)))) in
      case build_transport name_ok value_ok (so_config def) of
        Inl e \<Rightarrow> Some (Inl e)
      | Inr plan \<Rightarrow>
          (case open_plan plan of
             Inl e \<Rightarrow> fails e
           | Inr (tr, t) \<Rightarrow>
               (case initialize tr version t of
                  (Inl e, _) \<Rightarrow> fails e
                | (Inr _, t') \<Rightarrow>
                    (case list_tools tr t' of
                       None \<Rightarrow> None
                     | Some (Inl e, _) \<Rightarrow> fails e
                     | Some (Inr tools, _) \<Rightarrow>
                         Some (rbind (mcp_tables to_value from_value def tools) (\<lambda>(specs, _).
                           register_tables taken (Option.bind (so_safety def) sp_max_pages) specs))))))"

subsection \<open>A scan is bounded and complete up to the page cap\<close>

definition cut :: "nat option \<Rightarrow> 'a list \<Rightarrow> 'a list" where
  "cut limit xs = (case limit of Some l \<Rightarrow> take l xs | None \<Rightarrow> xs)"

lemma mcp_pages_step:
  "\<exists>rest. snd (mcp_pages (Suc n) lib tr spec base limit t cursor rows) = JObj (page_args spec base cursor) # rest \<and>
    (rest = [] \<or> (\<exists>t' c rows'. rest = snd (mcp_pages n lib tr spec base limit t' (Some c) rows')))"
  by (auto simp: Let_def split_beta split: sum.split option.split)

lemma mcp_pages_calls:
  "length (snd (mcp_pages n lib tr spec base limit t cursor rows)) \<le> n \<and>
   list_all (\<lambda>args. \<exists>c. args = JObj (page_args spec base c)) (snd (mcp_pages n lib tr spec base limit t cursor rows))"
proof (induction n arbitrary: t cursor rows)
  case (Suc n)
  from mcp_pages_step [of n lib tr spec base limit t cursor rows] obtain rest where
    "snd (mcp_pages (Suc n) lib tr spec base limit t cursor rows) = JObj (page_args spec base cursor) # rest"
    "rest = [] \<or> (\<exists>t' c rows'. rest = snd (mcp_pages n lib tr spec base limit t' (Some c) rows'))" by blast
  with Suc show ?case by (auto simp del: mcp_pages.simps)
qed simp

text \<open>
  Whatever the server answers, a scan of a tool calls it at most \<open>max_pages\<close> times (50 by default); the calls differ
  in the cursor only, so each sends the static arguments, the bound filters and the limit; and no more rows than the
  limit come back.
\<close>

lemma mcp_fetch_bounded:
  "length (snd (mcp_fetch lib tr p bound limit t)) \<le> mp_max_pages p \<and>
   list_all (\<lambda>args. \<exists>c. args = JObj (page_args (mp_spec p) (base_args (mp_spec p) bound limit) c))
     (snd (mcp_fetch lib tr p bound limit t)) \<and>
   (case fst (fst (mcp_fetch lib tr p bound limit t)) of
      Inr rows \<Rightarrow> (case limit of Some l \<Rightarrow> length rows \<le> l | None \<Rightarrow> True) | Inl _ \<Rightarrow> True)"
proof -
  obtain r t' calls where run: "mcp_pages (mp_max_pages p) lib tr (mp_spec p) (base_args (mp_spec p) bound limit) limit t None [] =
      ((r, t'), calls)" by (metis prod.exhaust)
  with mcp_pages_calls [of "mp_max_pages p" lib tr "mp_spec p" "base_args (mp_spec p) bound limit" limit t None "[]"]
  show ?thesis by (auto simp: mcp_fetch_def list_all_iff rbind_def split: option.splits sum.splits)
qed

text \<open>A server that has the pages \<open>pages\<close>: asked with the cursor of a page it answers with it and the next cursor.\<close>

definition serves_pages ::
  "McpLib \<Rightarrow> 't McpTransport \<Rightarrow> McpTableSpec \<Rightarrow> json bmap \<Rightarrow> (nat \<Rightarrow> string) \<Rightarrow> json list list \<Rightarrow> bool" where
  "serves_pages lib tr spec base cursor_of pages \<longleftrightarrow>
     (\<forall>i t. i < length pages \<longrightarrow>
        (\<exists>result t'. call_tool tr t (mt_tool spec) (JObj (page_args spec base (if i = 0 then None else Some (cursor_of i)))) = (Inr result, t') \<and>
           rows_from (structured_result lib result) (mt_rows_path spec) = pages ! i \<and>
           mcp_next_cursor spec result = (if Suc i < length pages then Some (cursor_of (Suc i)) else None)))"

lemma cut_cases: "limit = Some l \<Longrightarrow> l \<le> length xs \<Longrightarrow> cut limit (xs @ ys) = cut limit xs"
  by (simp add: cut_def)

lemma mcp_pages_served:
  assumes "serves_pages lib tr spec base cursor_of pages" "i < length pages"
  shows "\<exists>rows' t'. fst (mcp_pages n lib tr spec base limit t (if i = 0 then None else Some (cursor_of i)) rows) = (Inr rows', t') \<and>
    cut limit rows' = cut limit (rows @ concat (take n (drop i pages)))"
  using assms(2)
proof (induction n arbitrary: i t rows)
  case (Suc n)
  let ?cursor = "if i = 0 then None else Some (cursor_of i)"
  from assms(1) Suc.prems obtain result t' where
    call: "call_tool tr t (mt_tool spec) (JObj (page_args spec base ?cursor)) = (Inr result, t')" and
    page: "rows_from (structured_result lib result) (mt_rows_path spec) = pages ! i" and
    "next": "mcp_next_cursor spec result = (if Suc i < length pages then Some (cursor_of (Suc i)) else None)"
    unfolding serves_pages_def by blast
  from Suc.prems have split: "take (Suc n) (drop i pages) = pages ! i # take n (drop (Suc i) pages)"
    by (simp add: Cons_nth_drop_Suc [symmetric])
  show ?case
  proof (cases "(case limit of Some l \<Rightarrow> l \<le> length (rows @ pages ! i) | None \<Rightarrow> False)")
    case True
    then show ?thesis by (auto simp: call page split cut_def Let_def split: option.splits)
  next
    case stop: False
    show ?thesis
    proof (cases "Suc i < length pages")
      case True
      from Suc.IH [OF True, of t' "rows @ pages ! i"] obtain rows' t'' where
        rest: "fst (mcp_pages n lib tr spec base limit t' (Some (cursor_of (Suc i))) (rows @ pages ! i)) = (Inr rows', t'')"
        "cut limit rows' = cut limit ((rows @ pages ! i) @ concat (take n (drop (Suc i) pages)))" by auto
      from rest(1) obtain calls where "mcp_pages n lib tr spec base limit t' (Some (cursor_of (Suc i))) (rows @ pages ! i) = ((Inr rows', t''), calls)"
        by (metis prod.collapse)
      then have "fst (mcp_pages (Suc n) lib tr spec base limit t ?cursor rows) = (Inr rows', t'')"
        using stop True by (simp add: call page "next" Let_def)
      with rest(2) show ?thesis by (simp add: split)
    next
      case False
      with stop show ?thesis by (auto simp: call page "next" split Let_def)
    qed
  qed
qed auto

text \<open>
  C29. From a server with pages of rows a scan collects the rows of the first \<open>max_pages\<close> pages in order, cut at the limit,
  each once.  So the answer is complete when the pages fit under the cap, and otherwise misses the rest without an error.
\<close>

theorem mcp_pagination_exact:
  assumes "serves_pages lib tr (mp_spec p) (base_args (mp_spec p) bound limit) cursor_of pages" "pages \<noteq> []"
  shows "fst (fst (mcp_fetch lib tr p bound limit t)) = Inr (cut limit (concat (take (mp_max_pages p) pages)))"
proof -
  from mcp_pages_served [OF assms(1), of 0 "mp_max_pages p" limit t "[]"] assms(2) obtain rows' t' calls where
    "mcp_pages (mp_max_pages p) lib tr (mp_spec p) (base_args (mp_spec p) bound limit) limit t None [] = ((Inr rows', t'), calls)"
    "cut limit rows' = cut limit (concat (take (mp_max_pages p) pages))"
    by (auto simp: prod_eq_iff)
  then show ?thesis by (simp add: mcp_fetch_def cut_def)
qed

definition paged_spec :: McpTableSpec where
  "paged_spec = \<lparr>mt_name = ''items'', mt_tool = ''items'', mt_description = None, mt_args = [],
     mt_columns = [\<lparr>oc_name = ''n'', oc_type = ''int'', oc_path = [''n'']\<rparr>], mt_tool_args = [], mt_limit_binding = None,
     mt_pagination = Some \<lparr>pg_cursor_arg = ''cursor'', pg_response_cursor_path = [''nextCursor'']\<rparr>, mt_rows_path = [''items'']\<rparr>"

definition item_row :: "string \<Rightarrow> json" where
  "item_row n = JObj [(''n'', JNum n)]"

definition item_page :: "string \<Rightarrow> json" where
  "item_page n = JArr [item_row n]"

definition paged_server :: "unit McpTransport" where
  "paged_server =
     \<lparr>tr_request = (\<lambda>_ _ params.
        (Inr (case Option.bind (get_key params ''arguments'') (\<lambda>a. get_key a ''cursor'') of
           None \<Rightarrow> JObj [(''nextCursor'', JStr ''b''), (''structuredContent'', JObj [(''items'', item_page ''1'')])]
         | Some _ \<Rightarrow> JObj [(''structuredContent'', JObj [(''items'', item_page ''2'')])]), ())),
      tr_notify = (\<lambda>_ _ _. (Inr (), ()))\<rparr>"

definition mcp_lib :: McpLib where
  "mcp_lib = \<lparr>ml_cell = cell_lib, ml_parse = (\<lambda>_. None), ml_float = (\<lambda>_. JNull)\<rparr>"

lemma paged_server_serves:
  "serves_pages mcp_lib paged_server paged_spec [] (\<lambda>_. ''b'') [[item_row ''1''], [item_row ''2'']]"
  by (simp add: serves_pages_def paged_server_def paged_spec_def item_page_def page_args_def call_tool_def less_Suc_eq numeral_2_eq_2
      structured_result_def rows_from_def mcp_next_cursor_def)

theorem mcp_pagination_exact_witness:
  "fst (fst (mcp_fetch mcp_lib paged_server (mcp_provider paged_spec None) [] None ())) = Inr [item_row ''1'', item_row ''2''] \<and>
   fst (fst (mcp_fetch mcp_lib paged_server (mcp_provider paged_spec (Some 1)) [] None ())) = Inr [item_row ''1'']"
proof -
  have base: "base_args paged_spec [] None = []" by code_simp
  have "serves_pages mcp_lib paged_server (mp_spec (mcp_provider paged_spec m)) (base_args (mp_spec (mcp_provider paged_spec m)) [] None)
      (\<lambda>_. ''b'') [[item_row ''1''], [item_row ''2'']]" for m
    using paged_server_serves by (simp add: mcp_provider_def base)
  note served = mcp_pagination_exact [OF this, where t = "()"]
  show ?thesis using served [of None] served [of "Some 1"]
    by (simp add: mcp_provider_def cut_def default_mcp_pages_def)
qed

subsection \<open>What is exposed\<close>

text \<open>Serde reads the tool of a specification from its member \<open>tool\<close>, and writes it there.\<close>

definition serde_tool :: "(McpTableSpec \<Rightarrow> json) \<Rightarrow> (json \<Rightarrow> string + McpTableSpec) \<Rightarrow> bool" where
  "serde_tool to_value from_value \<longleftrightarrow>
     (\<forall>v spec. from_value v = Inr spec \<longrightarrow> Option.bind (get_key v ''tool'') as_str = Some (mt_tool spec)) \<and>
     (\<forall>spec. Option.bind (get_key (to_value spec) ''tool'') as_str = Some (mt_tool spec))"

definition exposes :: "SynthOptions \<Rightarrow> Tool list \<Rightarrow> string \<Rightarrow> bool" where
  "exposes opts tools name \<longleftrightarrow>
     name \<notin> set (sy_exclude opts) \<and> (sy_include opts = [] \<or> name \<in> set (sy_include opts)) \<and>
     (\<exists>tool\<in>set tools. tl_name tool = name \<and> tl_destructive tool \<noteq> Some True \<and>
        (sy_expose opts = ExposeAll \<or> sy_expose opts = ReadOnly \<and> tl_read_only tool = Some True))"

definition declares_tool :: "TableDef \<Rightarrow> string \<Rightarrow> bool" where
  "declares_tool t name \<longleftrightarrow> Option.bind (get_key (td_config t) ''tool'') as_str = Some name"

lemma table_from_tool_tool [simp]: "mt_tool (table_from_tool tool) = tl_name tool"
  by (simp add: table_from_tool_def Let_def split: prod.split)

lemma synthesized_exposed: "spec \<in> set (fst (synthesize_tools tools opts)) \<Longrightarrow> exposes opts tools (mt_tool spec)"
  by (cases "sy_expose opts") (auto simp: synthesize_tools_def exposes_def selected_def admit_def Let_def)

lemma schema_merge_entries_other:
  "k \<notin> fst ` set p \<Longrightarrow> map_of (schema_merge_entries b p) k = map_of b k"
  by (induction p arbitrary: b) auto

lemma schema_merge_entries_str:
  "distinct (map fst p) \<Longrightarrow> map_of (schema_merge_entries b p) k = Some (JStr s) \<Longrightarrow>
     map_of p k = Some (JStr s) \<or> (map_of p k = None \<and> map_of b k = Some (JStr s))"
proof (induction p arbitrary: b)
  case (Cons e p)
  obtain k' v where e: "e = (k', v)" by (cases e)
  show ?case
  proof (cases "k = k'")
    case True
    with Cons.prems e have "schema_merge (case map_of b k of Some x \<Rightarrow> x | None \<Rightarrow> JNull) v = JStr s"
      by (simp add: schema_merge_entries_other)
    with True e show ?thesis by (auto simp: schema_merge.simps split: json.splits if_splits)
  next
    case False
    with Cons e show ?thesis by fastforce
  qed
qed simp

lemma bt_ok_remove: "bt_ok m \<Longrightarrow> bt_ok (bt_remove k m)"
  by (induction m) (auto simp: bt_ok_def bt_remove_def)

lemma bt_remove_other: "k \<noteq> k' \<Longrightarrow> map_of (bt_remove k m) k' = map_of m k'"
  by (induction m) (auto simp: bt_remove_def)

lemma table_patch_obj:
  assumes "bt_ok m"
  obtains p where "table_patch description (JObj m) = JObj p" "distinct (map fst p)" "map_of p ''tool'' = map_of m ''tool''"
proof
  let ?m = "bt_remove ''name'' m"
  let ?p = "case description of Some d \<Rightarrow> bt_or_insert ''description'' (JStr d) ?m | None \<Rightarrow> ?m"
  show "table_patch description (JObj m) = JObj ?p" by (simp add: table_patch_def Let_def)
  have ok: "bt_ok ?m" using assms by (rule bt_ok_remove)
  then have "bt_ok ?p" by (auto simp: bt_or_insert_def intro: bt_ok_insert split: option.split)
  then show "distinct (map fst ?p)" by (simp add: bt_ok_def strict_sorted_iff)
  show "map_of ?p ''tool'' = map_of m ''tool''"
    using ok by (auto simp: bt_or_insert_def bt_remove_other split: option.split)
qed

lemma merged_tool:
  assumes "json_ok body" "Option.bind (get_key (schema_merge base (table_patch description body)) ''tool'') as_str = Some s"
  shows "Option.bind (get_key body ''tool'') as_str = Some s \<or> Option.bind (get_key base ''tool'') as_str = Some s"
proof (cases body)
  case (JObj m)
  with assms(1) have "bt_ok m" by simp
  then obtain p where p: "table_patch description body = JObj p" "distinct (map fst p)" "map_of p ''tool'' = map_of m ''tool''"
    by (auto simp: JObj elim: table_patch_obj)
  show ?thesis
  proof (cases "\<exists>b. base = JObj b \<and> map_of p ''type'' = None")
    case True
    then obtain b where b: "base = JObj b" "map_of p ''type'' = None" by blast
    with assms(2) p have "map_of (schema_merge_entries b p) ''tool'' = Some (JStr s)"
      by (auto simp: schema_merge.simps bind_eq_Some_conv elim!: as_str.elims)
    from schema_merge_entries_str [OF p(2) this] p(3) b JObj show ?thesis by auto
  next
    case False
    with p have "schema_merge base (table_patch description body) = JObj p"
      by (auto simp: schema_merge.simps split: json.splits)
    with assms(2) p(3) JObj show ?thesis by simp
  qed
qed (use assms(2) in \<open>auto simp: table_patch_def schema_merge.simps split: json.splits\<close>)

lemma replace_first_mem: "x \<in> set (replace_first P y xs) \<Longrightarrow> x = y \<or> x \<in> set xs"
  by (induction xs) (auto split: if_splits)

lemma apply_table_defs_tools:
  assumes serde: "serde_tool to_value from_value"
    and "apply_table_defs to_value from_value names ts st = Inr st'" "list_all (\<lambda>t. json_ok (td_config t)) ts"
    and "\<forall>spec\<in>set (fst st). P (mt_tool spec)" "\<forall>t\<in>set ts. \<forall>n. declares_tool t n \<longrightarrow> P n"
  shows "\<forall>spec\<in>set (fst st'). P (mt_tool spec)"
  using assms(2-)
proof (induction ts arbitrary: st)
  case (Cons t ts)
  from Cons.prems(1) obtain st1 where
    one: "apply_table_def to_value from_value names (td_name t) (td_description t) (td_config t) st = Inr st1" and
    rest: "apply_table_defs to_value from_value names ts st1 = Inr st'" by (auto split: sum.splits)
  obtain tables ds where st: "st = (tables, ds)" by (cases st)
  have tool: "P (mt_tool spec)" if "from_value (schema_merge base (table_patch (td_description t) (td_config t))) = Inr spec"
    "\<And>n. Option.bind (get_key base ''tool'') as_str = Some n \<Longrightarrow> P n" for base spec
    using that serde Cons.prems(2,4) merged_tool [of "td_config t" base "td_description t" "mt_tool spec"]
    by (auto simp: serde_tool_def declares_tool_def)
  have "\<forall>spec\<in>set (fst st1). P (mt_tool spec)"
  proof (cases "find (\<lambda>x. mt_name x = td_name t) tables")
    case (Some existing)
    with one st obtain spec where spec: "from_value (schema_merge (to_value existing) (table_patch (td_description t) (td_config t))) = Inr spec"
      and st1: "fst st1 = replace_first (\<lambda>x. mt_name x = td_name t) spec tables"
      by (auto simp: apply_table_def_def Let_def rbind_eq_Inr)
    have "P (mt_tool existing)" using Some Cons.prems(3) st by (auto simp: find_Some_iff)
    with serde have "P (mt_tool spec)" by (intro tool [OF spec]) (auto simp: serde_tool_def)
    with st1 Cons.prems(3) st show ?thesis by (auto dest: replace_first_mem)
  next
    case None
    with one st obtain spec where spec: "from_value (schema_merge (JObj [(''name'', JStr (td_name t))]) (table_patch (td_description t) (td_config t))) = Inr spec"
      and st1: "fst st1 = tables @ [spec]"
      by (auto simp: apply_table_def_def Let_def rbind_eq_Inr split: if_splits)
    have "P (mt_tool spec)" by (rule tool [OF spec]) simp
    with st1 Cons.prems(3) st show ?thesis by auto
  qed
  with Cons.IH [OF rest] Cons.prems(2,4) show ?case by simp
qed simp

text \<open>
  C27. A table of an MCP source calls a tool that the server advertises, that \<open>include\<close> and \<open>exclude\<close> leave in, that is
  not marked destructive and, unless \<open>expose: all\<close> is set, is marked read-only; or a tool that the configuration
  names itself.
\<close>

theorem mcp_tables_admitted:
  assumes "serde_tool to_value from_value" "mcp_tables to_value from_value def tools = Inr (specs, diagnostics)"
    "list_all (\<lambda>t. json_ok (td_config t)) (so_tables def)" "spec \<in> set specs"
  shows "exposes (synth_options (so_config def)) tools (mt_tool spec) \<or>
    list_ex (\<lambda>t. declares_tool t (mt_tool spec)) (so_tables def)"
proof -
  let ?P = "\<lambda>n. exposes (synth_options (so_config def)) tools n \<or> list_ex (\<lambda>t. declares_tool t n) (so_tables def)"
  have "\<forall>spec\<in>set (fst (specs, diagnostics)). ?P (mt_tool spec)"
    by (rule apply_table_defs_tools [OF assms(1), of "map tl_name tools" "so_tables def"
        "synthesize_tools tools (synth_options (so_config def))"])
      (use assms(2,3) synthesized_exposed in \<open>auto simp: mcp_tables_def list_ex_iff split: sum.splits\<close>)
  with assms(4) show ?thesis by simp
qed

text \<open>Serde for the specifications of one tool.\<close>

definition toy_to_value :: "McpTableSpec \<Rightarrow> json" where
  "toy_to_value spec = JObj [(''tool'', JStr (mt_tool spec))]"

definition toy_from_value :: "json \<Rightarrow> string + McpTableSpec" where
  "toy_from_value v =
     (case Option.bind (get_key v ''tool'') as_str of Some tool \<Rightarrow> Inr (paged_spec\<lparr>mt_tool := tool\<rparr>) | None \<Rightarrow> Inl ''missing field `tool`'')"

lemma toy_serde: "serde_tool toy_to_value toy_from_value"
  by (auto simp: serde_tool_def toy_to_value_def toy_from_value_def split: option.splits)

definition items_tool :: Tool where
  "items_tool = \<lparr>tl_name = ''items'', tl_description = None, tl_input_schema = JNull, tl_output_schema = None,
     tl_read_only = Some True, tl_destructive = None\<rparr>"

theorem mcp_tables_admitted_witness:
  "\<exists>def spec ds. mcp_tables toy_to_value toy_from_value def [items_tool] = Inr ([spec], ds) \<and>
     (exposes (synth_options (so_config def)) [items_tool] (mt_tool spec) \<or>
      list_ex (\<lambda>t. declares_tool t (mt_tool spec)) (so_tables def))"
proof (intro exI conjI)
  define def where "def = \<lparr>so_name = ''tracker'', so_kind = KMcp, so_description = None, so_wiki = None, so_examples = [],
    so_config = JNull, so_cache = NoCache, so_safety = None, so_tables = [], so_raw_table = False, so_raw_table_safety = None\<rparr>"
  show run: "mcp_tables toy_to_value toy_from_value def [items_tool] = Inr ([table_from_tool items_tool], [])"
    by (simp add: def_def mcp_tables_def synthesize_tools_def selected_def admit_def synth_options_def strings_at_def items_tool_def)
  show "exposes (synth_options (so_config def)) [items_tool] (mt_tool (table_from_tool items_tool)) \<or>
      list_ex (\<lambda>t. declares_tool t (mt_tool (table_from_tool items_tool))) (so_tables def)"
    by (rule mcp_tables_admitted [OF toy_serde run]) (simp_all add: def_def)
qed

text \<open>Naming a tool under \<open>include\<close> does not admit it, under \<open>read_only\<close> or \<open>listed\<close>.\<close>

lemma include_does_not_admit:
  "tl_read_only tool \<noteq> Some True \<Longrightarrow> ex \<in> {ReadOnly, Listed} \<Longrightarrow>
     fst (synthesize_tools [tool] \<lparr>sy_expose = ex, sy_include = [tl_name tool], sy_exclude = []\<rparr>) = []"
  by (auto simp: synthesize_tools_def admit_def)

lemma register_tables_iff:
  "(\<exists>ps. register_tables taken mp specs = Inr ps) \<longleftrightarrow>
     distinct (map mt_name specs) \<and> set (map mt_name specs) \<inter> set taken = {}"
  by (induction specs arbitrary: taken) (auto simp: rbind_eq_Inr)

text \<open>Two tools whose names differ in case or punctuation only keep the whole source from registering.\<close>

lemma sanitized_names_collide:
  "tl_name a = ''get-issue'' \<Longrightarrow> tl_name b = ''get_issue'' \<Longrightarrow> \<nexists>ps. register_tables [] mp (map table_from_tool [a, b]) = Inr ps"
proof -
  assume "tl_name a = ''get-issue''" "tl_name b = ''get_issue''"
  moreover have "sanitize ''get-issue'' = sanitize ''get_issue''" by code_simp
  ultimately have "\<not> distinct (map mt_name (map table_from_tool [a, b]))"
    by (simp add: table_from_tool_def Let_def split: prod.splits)
  then show ?thesis by (simp only: register_tables_iff simp_thms)
qed

subsection \<open>Batches have the schema of the table\<close>

lemma column_array_type: "ty \<in> {TInt64, TFloat64, TBoolean, TUtf8} \<Longrightarrow> array_type (column_array lib ty vals) = ty"
  by (auto simp: column_array_def)

lemma column_array_len [simp]: "array_len (column_array lib ty vals) = length vals"
  by (auto simp: column_array_def split: DataType.split)

lemma mcp_arrow_type_range: "mcp_arrow_type t \<in> {TInt64, TFloat64, TBoolean, TUtf8}"
  by (simp add: mcp_arrow_type_def Let_def)

lemma field_array_known:
  "map_of schema name = Some (mcp_arrow_type t) \<Longrightarrow>
     field_array lib schema name vals = Inr (column_array lib (mcp_arrow_type t) vals)"
  by (simp add: field_array_def)

lemma rmap_const: "(\<And>x. x \<in> set xs \<Longrightarrow> f x = Inr (g x)) \<Longrightarrow> rmap f xs = Inr (map g xs)"
  by (induction xs) auto

text \<open>Columns that are each built for a field of its own, all of the same length, make a batch of that schema.\<close>

lemma columns_make_batch:
  assumes "distinct (map (name_of :: 'c \<Rightarrow> string) cols)" "cols \<noteq> []" "\<And>c. c \<in> set cols \<Longrightarrow> length (vals_of c) = n"
    and "schema = map (\<lambda>c. (name_of c, mcp_arrow_type (type_of c))) cols"
  shows "\<exists>b. rbind (rmap (\<lambda>c. field_array lib schema (name_of c) (vals_of c)) cols) (\<lambda>arrays. try_new_with_rows schema arrays None) = Inr b \<and>
    batch_ok schema b \<and> ba_rows b = n"
proof -
  let ?arr = "\<lambda>c. column_array lib (mcp_arrow_type (type_of c)) (vals_of c)"
  have "distinct (map fst schema)" using assms(1,4) by (simp add: comp_def)
  then have "map_of schema (name_of c) = Some (mcp_arrow_type (type_of c))" if "c \<in> set cols" for c
    using that assms(4) by (intro map_of_is_SomeI) auto
  then have built: "rmap (\<lambda>c. field_array lib schema (name_of c) (vals_of c)) cols = Inr (map ?arr cols)"
    by (intro rmap_const) (rule field_array_known)
  have types: "map array_type (map ?arr cols) = map snd schema"
    using assms(4) by (auto simp: column_array_type [OF mcp_arrow_type_range] comp_def)
  have lens: "\<And>a. a \<in> set (map ?arr cols) \<Longrightarrow> array_len a = n" using assms(3) by auto
  obtain c cs where cols: "cols = c # cs" using assms(2) by (cases cols) auto
  have "array_len (?arr c) = n" by (rule lens) (simp add: cols)
  with types lens cols assms(4) have "try_new_with_rows schema (map ?arr cols) None = Inr \<lparr>ba_schema = schema, ba_columns = map ?arr cols, ba_rows = n\<rparr>"
    by (auto simp: try_new_with_rows_def list_ex_iff simp del: column_array_len)
  with built types lens show ?thesis by (auto simp: batch_ok_def)
qed

lemma mcp_build_batch_ok:
  assumes "distinct (map fst (mcp_schema spec))" "mcp_schema spec \<noteq> []"
  shows "\<exists>b. mcp_build_batch lib (mcp_schema spec) spec bound rows = Inr b \<and> batch_ok (mcp_schema spec) b \<and> ba_rows b = length rows"
proof -
  let ?cols = "map Inl (shown_args spec) @ map Inr (mt_columns spec)"
  let ?name = "case_sum ag_name oc_name" and ?type = "case_sum ag_type oc_type"
  let ?vals = "case_sum (\<lambda>a. bound_values bound (ag_name a) (length rows)) (\<lambda>c. row_values (oc_path c) rows)"
  let ?field = "\<lambda>c. field_array lib (mcp_schema spec) (?name c) (?vals c)"
  have schema: "mcp_schema spec = map (\<lambda>c. (?name c, mcp_arrow_type (?type c))) ?cols" by (simp add: mcp_schema_def comp_def)
  have join: "rmap f (xs @ ys) = rbind (rmap f xs) (\<lambda>a. rbind (rmap f ys) (\<lambda>b. Inr (a @ b)))" for f :: "Arg + OutColumn \<Rightarrow> string + ArrowArray" and xs ys
    by (induction xs) (auto simp: rbind_assoc rbind_def split: sum.splits)
  have inj: "rmap f (map g xs) = rmap (\<lambda>x. f (g x)) xs" for f :: "Arg + OutColumn \<Rightarrow> string + ArrowArray" and g :: "'z \<Rightarrow> _" and xs
    by (induction xs) auto
  have "mcp_build_batch lib (mcp_schema spec) spec bound rows =
      rbind (rmap ?field ?cols) (\<lambda>arrays. try_new_with_rows (mcp_schema spec) arrays None)"
    unfolding mcp_build_batch_def join inj by (simp add: rbind_assoc)
  moreover have "distinct (map ?name ?cols)" using assms(1) unfolding schema by (simp add: comp_def)
  moreover have "?cols \<noteq> []" using assms(2) by (simp add: mcp_schema_def)
  moreover have "\<And>c. c \<in> set ?cols \<Longrightarrow> length (?vals c) = length rows" by (auto simp: bound_values_def row_values_def)
  ultimately show ?thesis using columns_make_batch [of ?name ?cols ?vals "length rows" "mcp_schema spec" ?type lib] schema by simp
qed

lemma mcp_project_ok:
  assumes "batch_ok schema b" "case projection of Some idx \<Rightarrow> list_all (\<lambda>i. i < length schema) idx | None \<Rightarrow> True"
  shows "\<exists>fields b'. mcp_project projection schema b = Inr (fields, b') \<and> batch_ok fields b' \<and> ba_rows b' = ba_rows b \<and>
    fields = (case projection of Some idx \<Rightarrow> map (\<lambda>i. schema ! i) idx | None \<Rightarrow> schema)"
proof (cases projection)
  case (Some idx)
  with assms have len: "length (ba_columns b) = length schema" "list_all (\<lambda>i. i < length schema) idx"
    and types: "map array_type (ba_columns b) = map snd schema" and rows: "\<forall>a\<in>set (ba_columns b). array_len a = ba_rows b"
    by (auto simp: batch_ok_def dest: arg_cong [where f = length])
  let ?cols = "map (\<lambda>i. ba_columns b ! i) idx" and ?fields = "map (\<lambda>i. schema ! i) idx"
  have "array_type (ba_columns b ! i) = snd (schema ! i)" if "i < length schema" for i
    using types that len(1) by (metis nth_map)
  with len(2) have "map array_type ?cols = map snd ?fields" by (auto simp: list_all_iff)
  moreover have "\<forall>a\<in>set ?cols. array_len a = ba_rows b" using rows len by (auto simp: list_all_iff)
  ultimately have "try_new_with_rows ?fields ?cols (Some (ba_rows b)) = Inr \<lparr>ba_schema = ?fields, ba_columns = ?cols, ba_rows = ba_rows b\<rparr>"
    by (auto simp: try_new_with_rows_def list_ex_iff)
  with Some len \<open>map array_type ?cols = map snd ?fields\<close> \<open>\<forall>a\<in>set ?cols. array_len a = ba_rows b\<close> show ?thesis
    by (auto simp: mcp_project_def project_columns_def mcp_arrow_def batch_ok_def)
qed (use assms in \<open>simp add: mcp_project_def\<close>)

text \<open>
  C28. A scan of a tool whose table has at least one column and no two of the same name fails only when calling the tool
  fails: whatever the rows are, the batch has the projected schema, one array of the declared type per field, and as
  many rows as the tool gave, within the limit.
\<close>

theorem mcp_scan_well_typed:
  assumes "distinct (map fst (mcp_schema spec))" "mcp_schema spec \<noteq> []"
    and "case projection of Some idx \<Rightarrow> list_all (\<lambda>i. i < length (mcp_schema spec)) idx | None \<Rightarrow> True"
  shows "case fst (mcp_scan lib tr (mcp_provider spec max_pages) projection filters limit t) of
      Inl e \<Rightarrow> \<exists>m. e = McpExecution m
    | Inr (fs, b) \<Rightarrow> batch_ok fs b \<and> (case limit of Some l \<Rightarrow> ba_rows b \<le> l | None \<Rightarrow> True) \<and>
        fs = (case projection of Some idx \<Rightarrow> map (\<lambda>i. mcp_schema spec ! i) idx | None \<Rightarrow> mcp_schema spec)"
proof -
  let ?p = "mcp_provider spec max_pages" and ?bound = "bound_args lib spec filters"
  obtain r t' calls where run: "mcp_fetch lib tr ?p ?bound limit t = ((r, t'), calls)" by (metis prod.exhaust)
  have p: "mp_spec ?p = spec" "mp_schema ?p = mcp_schema spec" by (simp_all add: mcp_provider_def)
  show ?thesis
  proof (cases r)
    case (Inl e)
    then show ?thesis using run by (simp add: mcp_scan_def p Let_def)
  next
    case (Inr rows)
    from mcp_build_batch_ok [OF assms(1,2), of lib ?bound rows] obtain b where
      b: "mcp_build_batch lib (mcp_schema spec) spec ?bound rows = Inr b" "batch_ok (mcp_schema spec) b" "ba_rows b = length rows" by blast
    from mcp_project_ok [OF b(2) assms(3)] obtain fs b' where
      b': "mcp_project projection (mcp_schema spec) b = Inr (fs, b')" "batch_ok fs b'" "ba_rows b' = ba_rows b"
        "fs = (case projection of Some idx \<Rightarrow> map (\<lambda>i. mcp_schema spec ! i) idx | None \<Rightarrow> mcp_schema spec)" by blast
    have "case limit of Some l \<Rightarrow> length rows \<le> l | None \<Rightarrow> True"
      using run Inr by (auto simp: mcp_fetch_def rbind_eq_Inr split: prod.splits option.split)
    with run Inr b b' show ?thesis by (simp add: mcp_scan_def p Let_def mcp_arrow_def split: option.splits)
  qed
qed

theorem mcp_scan_well_typed_witness:
  "case fst (mcp_scan mcp_lib paged_server (mcp_provider paged_spec None) (Some [0]) [] (Some 1) ()) of
      Inl e \<Rightarrow> False
    | Inr (fs, b) \<Rightarrow> batch_ok fs b \<and> ba_rows b \<le> 1 \<and> fs = [(''n'', TInt64)]"
proof -
  have schema: "mcp_schema paged_spec = [(''n'', TInt64)]" by code_simp
  have ok: "isl (fst (mcp_scan mcp_lib paged_server (mcp_provider paged_spec None) (Some [0]) [] (Some 1) ())) = False" by code_simp
  show ?thesis
    using mcp_scan_well_typed [of paged_spec "Some [0]" "Some 1" mcp_lib paged_server None "[]" "()"] ok
    by (auto simp: schema split: sum.splits)
qed

end
