(* ===== verification/Function_Exec.thy ===== *)
theory Function_Exec
  imports Mcp_Source
begin

section \<open>Executors of table-valued functions\<close>

text \<open>
  \<open>function.rs\<close> of \<open>pawrly-sources/http/src\<close>, \<open>functions/file.rs\<close> of \<open>pawrly-engine/src\<close> and the part of
  \<open>functions/mod.rs\<close> that chooses between them.  The executor of MCP functions is in \<open>Mcp_Source\<close>.  The file system
  with \<open>glob\<close>, the regular expressions and serde's reading of a table specification are arguments.
\<close>

subsection \<open>HTTP functions\<close>

record HttpFunctionExecutor =
  hf_source :: HttpSource
  hf_spec :: HttpTableSpec
  hf_schema :: Schema
  hf_max_pages :: "nat option"

definition response_column_json :: "FunctionColumn \<Rightarrow> json" where
  "response_column_json c =
     JObj ([(''name'', JStr (fc_name c))] @
       (case fc_source c of
          Some s \<Rightarrow> [(''source'', JStr (if s = ''arg'' then ''param'' else s))]
        | None \<Rightarrow> []) @ [(''type'', JStr (fc_type c))])"

definition http_param_json :: "FunctionArg \<Rightarrow> json" where
  "http_param_json a =
     JObj ((case fa_default a of Some d \<Rightarrow> [(''default'', JStr d)] | None \<Rightarrow> []) @ [(''name'', JStr (fa_name a))] @
       (if fa_required a then [(''required'', JBool True)] else []) @ [(''type'', JStr (fa_type a))])"

definition http_function_spec :: "(json \<Rightarrow> string + HttpTableSpec) \<Rightarrow> FunctionDef \<Rightarrow> string + HttpTableSpec" where
  "http_function_spec from_value def =
     rbind (case fd_body def of JObj m \<Rightarrow> Inr m | JNull \<Rightarrow> Inr []
            | _ \<Rightarrow> Inl (fn_invalid def ''http function `body` must be a mapping'')) (\<lambda>m.
       let m1 = bt_insert ''name'' (JStr (fd_name def)) m;
           m2 = (case fd_description def of Some d \<Rightarrow> bt_or_insert ''description'' (JStr d) m1 | None \<Rightarrow> m1);
           m3 = bt_insert ''params'' (JArr (map http_param_json (fd_args def))) m2
       in rbind (case map_of m3 ''response'' of Some (JObj r) \<Rightarrow> Inr r | Some JNull \<Rightarrow> Inr [] | None \<Rightarrow> Inr []
                 | Some _ \<Rightarrow> Inl (fn_invalid def ''http function `response` must be a mapping'')) (\<lambda>r.
            let r1 = bt_or_insert ''path'' (JStr ''$'') r;
                r2 = bt_insert ''schema'' (JArr (map response_column_json (fd_returns def))) r1
            in case from_value (JObj (bt_insert ''response'' (JObj r2) m3)) of
                 Inl e \<Rightarrow> Inl (fn_invalid def (''invalid http function body: '' @ e))
               | Inr spec \<Rightarrow> Inr spec))"

definition HttpFunctionExecutor_new ::
  "(json \<Rightarrow> string + HttpTableSpec) \<Rightarrow> HttpSource \<Rightarrow> FunctionDef \<Rightarrow> nat option \<Rightarrow> string + HttpFunctionExecutor" where
  "HttpFunctionExecutor_new from_value source def max_pages =
     rbind (http_function_spec from_value def) (\<lambda>spec.
       Inr \<lparr>hf_source = source, hf_spec = spec, hf_schema = schema_for spec, hf_max_pages = max_pages\<rparr>)"

text \<open>One argument of the call: a placeholder of the response path is filled and the argument is not sent.\<close>

definition fill_response_path :: "string \<times> string \<Rightarrow> string \<times> string bmap \<Rightarrow> string \<times> string bmap" where
  "fill_response_path kv st =
     (let (k, v) = kv; (path, request_params) = st in
      if has_sub (needle k) path then (replace_sub (needle k) v path, bt_remove k request_params) else st)"

definition http_call_plan :: "HttpTableSpec \<Rightarrow> string bmap \<Rightarrow> HttpTableSpec \<times> string bmap" where
  "http_call_plan spec params =
     (if CHR ''{'' \<in> set (rs_path (ts_response spec)) then
        (let (path, request_params) = fold fill_response_path params (rs_path (ts_response spec), params) in
         (spec\<lparr>ts_response := (ts_response spec)\<lparr>rs_path := path\<rparr>\<rparr>, request_params))
      else (spec, params))"

definition fetch_batch ::
  "NetLib \<Rightarrow> CellLib \<Rightarrow> (nat \<Rightarrow> HttpRequest \<Rightarrow> string + HttpResponse) \<Rightarrow> HttpSource \<Rightarrow> HttpTableSpec \<Rightarrow> string bmap \<Rightarrow>
   nat option \<Rightarrow> nat option \<Rightarrow> (ScanError + RecordBatch) \<times> HttpRequest list" where
  "fetch_batch lib cl send source spec params limit max_pages =
     scan_params lib cl send (with_safety source spec max_pages None) params limit"

definition http_invoke ::
  "NetLib \<Rightarrow> CellLib \<Rightarrow> (nat \<Rightarrow> HttpRequest \<Rightarrow> string + HttpResponse) \<Rightarrow> HttpFunctionExecutor \<Rightarrow> string bmap \<Rightarrow> nat option \<Rightarrow>
   (ScanError + RecordBatch) \<times> HttpRequest list" where
  "http_invoke lib cl send ex params limit =
     (let (spec, request_params) = http_call_plan (hf_spec ex) params in
      fetch_batch lib cl send (hf_source ex) spec request_params limit (hf_max_pages ex))"

subsection \<open>File functions\<close>

text \<open>The file system, the home directory, \<open>Path::join\<close> and the regular expressions.\<close>

record FileLib =
  fl_home :: "string option"
  fl_join :: "string \<Rightarrow> string \<Rightarrow> string"
  fl_absolute :: "string \<Rightarrow> bool"
  fl_glob :: "string \<Rightarrow> string + string list"
  fl_is_file :: "string \<Rightarrow> bool"
  fl_metadata :: "string \<Rightarrow> (nat \<times> int option) option"
  fl_read :: "string \<Rightarrow> string option"
  fl_file_name :: "string \<Rightarrow> string option"
  fl_regex :: "string \<Rightarrow> string + (string \<Rightarrow> bool)"

definition file_schema :: Schema where
  "file_schema = [(''path'', TUtf8), (''file_name'', TUtf8), (''size_bytes'', TInt64), (''modified'', TTimestamp (Some ''UTC''))]"

definition grep_schema :: Schema where
  "grep_schema = [(''path'', TUtf8), (''line_number'', TInt64), (''line'', TUtf8)]"

record FileGlobExecutor =
  fg_pattern_template :: string
  fg_grep_template :: "string option"
  fg_workspace_dir :: string
  fg_schema :: Schema

definition FileGlobExecutor_new :: "FunctionDef \<Rightarrow> string \<Rightarrow> string + FileGlobExecutor" where
  "FileGlobExecutor_new def workspace_dir =
     (case Option.bind (get_key (fd_body def) ''path'') as_str of
        Some path \<Rightarrow>
          if trim path = [] then Inl (''file function `'' @ fd_namespace def @ ''.'' @ fd_name def @ ''` is missing a `path` glob'')
          else (let grep = (case Option.bind (get_key (fd_body def) ''grep'') as_str of
                              Some g \<Rightarrow> if g \<noteq> [] then Some g else None | None \<Rightarrow> None)
                in Inr \<lparr>fg_pattern_template = path, fg_grep_template = grep, fg_workspace_dir = workspace_dir,
                        fg_schema = (if grep \<noteq> None then grep_schema else file_schema)\<rparr>)
      | None \<Rightarrow> Inl (''file function `'' @ fd_namespace def @ ''.'' @ fd_name def @ ''` is missing a `path` glob''))"

definition resolve_pattern :: "FileLib \<Rightarrow> string \<Rightarrow> string \<Rightarrow> string" where
  "resolve_pattern lib workspace_dir pattern =
     (let expanded = (case (strip_prefix ''~/'' pattern, fl_home lib) of
                        (Some rest, Some home) \<Rightarrow> fl_join lib home rest | _ \<Rightarrow> pattern)
      in if fl_absolute lib expanded \<or> has_sub ''://'' expanded then expanded else fl_join lib workspace_dir expanded)"

record FileMeta =
  fm_path :: string
  fm_file_name :: "string option"
  fm_size_bytes :: "int option"
  fm_modified_micros :: "int option"

definition in_i64 :: "int \<Rightarrow> int option" where
  "in_i64 n = (if - (2 ^ 63) \<le> n \<and> n < 2 ^ 63 then Some n else None)"

text \<open>\<open>duration_since(UNIX_EPOCH)\<close> fails before the epoch.\<close>

definition system_time_micros :: "int \<Rightarrow> int option" where
  "system_time_micros t = (if 0 \<le> t then in_i64 t else None)"

definition file_meta :: "FileLib \<Rightarrow> string \<Rightarrow> FileMeta" where
  "file_meta lib path =
     \<lparr>fm_path = path, fm_file_name = fl_file_name lib path,
      fm_size_bytes = Option.bind (fl_metadata lib path) (\<lambda>(len, _). in_i64 (int len)),
      fm_modified_micros = Option.bind (Option.bind (fl_metadata lib path) snd) system_time_micros\<rparr>"

definition bad_glob :: "string \<Rightarrow> string \<Rightarrow> string" where
  "bad_glob pattern e = ''bad glob pattern `'' @ pattern @ ''`: '' @ e"

definition glob_metadata :: "FileLib \<Rightarrow> string \<Rightarrow> string + FileMeta list" where
  "glob_metadata lib pattern =
     (case fl_glob lib pattern of
        Inl e \<Rightarrow> Inl (bad_glob pattern e)
      | Inr paths \<Rightarrow> Inr (sort_key fm_path (map (file_meta lib) (filter (fl_is_file lib) paths))))"

record GrepHit =
  gh_path :: string
  gh_line_number :: nat
  gh_line :: string

text \<open>The loops return the hits so far, and whether the limit has stopped them.\<close>

fun grep_lines :: "(string \<Rightarrow> bool) \<Rightarrow> nat option \<Rightarrow> string \<Rightarrow> nat \<Rightarrow> string list \<Rightarrow> GrepHit list \<Rightarrow> GrepHit list \<times> bool" where
  "grep_lines re limit path i [] out = (out, False)"
| "grep_lines re limit path i (line # lines) out =
     (if re line then
        (let out' = out @ [\<lparr>gh_path = path, gh_line_number = i + 1, gh_line = line\<rparr>] in
         if (case limit of Some n \<Rightarrow> n \<le> length out' | None \<Rightarrow> False) then (out', True)
         else grep_lines re limit path (i + 1) lines out')
      else grep_lines re limit path (i + 1) lines out)"

fun grep_paths :: "FileLib \<Rightarrow> (string \<Rightarrow> bool) \<Rightarrow> nat option \<Rightarrow> string list \<Rightarrow> GrepHit list \<Rightarrow> GrepHit list" where
  "grep_paths lib re limit [] out = out"
| "grep_paths lib re limit (path # paths) out =
     (case fl_read lib path of
        None \<Rightarrow> grep_paths lib re limit paths out
      | Some content \<Rightarrow>
          (case grep_lines re limit path 0 (str_lines content) out of
             (out', True) \<Rightarrow> out'
           | (out', False) \<Rightarrow> grep_paths lib re limit paths out'))"

text \<open>Paths are ordered component by component.\<close>

definition path_components :: "string \<Rightarrow> string list" where
  "path_components p = filter (\<lambda>c. c \<noteq> [] \<and> c \<noteq> ''.'') (split_on (CHR ''/'') p)"

definition grep_files :: "FileLib \<Rightarrow> string \<Rightarrow> (string \<Rightarrow> bool) \<Rightarrow> nat option \<Rightarrow> string + GrepHit list" where
  "grep_files lib pattern re limit =
     (case fl_glob lib pattern of
        Inl e \<Rightarrow> Inl (bad_glob pattern e)
      | Inr paths \<Rightarrow> Inr (grep_paths lib re limit (sort_key path_components (filter (fl_is_file lib) paths)) []))"

definition build_meta_batch :: "Schema \<Rightarrow> FileMeta list \<Rightarrow> string + RecordBatch" where
  "build_meta_batch schema rows =
     try_new_with_rows schema
       [AUtf8 (map (Some \<circ> fm_path) rows), AUtf8 (map fm_file_name rows), AInt64 (map fm_size_bytes rows),
        ATimestamp (Some ''UTC'') (map fm_modified_micros rows)] None"

definition build_grep_batch :: "Schema \<Rightarrow> GrepHit list \<Rightarrow> string + RecordBatch" where
  "build_grep_batch schema hits =
     try_new_with_rows schema
       [AUtf8 (map (Some \<circ> gh_path) hits), AInt64 (map (Some \<circ> int \<circ> gh_line_number) hits), AUtf8 (map (Some \<circ> gh_line) hits)] None"

datatype CallError =
    CallPlan string | CallExecution string | CallArrow string | CallPanic
  | CallHttp ScanError | CallMcp McpScanError

definition in_call :: "('e \<Rightarrow> CallError) \<Rightarrow> 'e + 'a \<Rightarrow> CallError + 'a" where
  "in_call f r = (case r of Inl e \<Rightarrow> Inl (f e) | Inr a \<Rightarrow> Inr a)"

definition file_invoke :: "FileLib \<Rightarrow> FileGlobExecutor \<Rightarrow> string bmap \<Rightarrow> nat option \<Rightarrow> CallError + RecordBatch" where
  "file_invoke lib ex params limit =
     (let resolved = resolve_pattern lib (fg_workspace_dir ex) (render_template (fg_pattern_template ex) params) in
      case fg_grep_template ex of
        Some grep \<Rightarrow>
          (let pattern = render_template grep params in
           rbind (in_call (\<lambda>e. CallPlan (''file.grep: invalid pattern `'' @ pattern @ ''`: '' @ e)) (fl_regex lib pattern)) (\<lambda>re.
           rbind (in_call CallExecution (grep_files lib resolved re limit)) (\<lambda>hits.
             in_call CallArrow (build_grep_batch (fg_schema ex) hits))))
      | None \<Rightarrow>
          rbind (in_call CallExecution (glob_metadata lib resolved)) (\<lambda>rows.
            in_call CallArrow (build_meta_batch (fg_schema ex)
              (case limit of Some n \<Rightarrow> if n < length rows then take n rows else rows | None \<Rightarrow> rows))))"

subsection \<open>The executor of a function\<close>

datatype FunctionExecutor =
    ExecHttp HttpFunctionExecutor
  | ExecMcp McpFunctionExecutor
  | ExecFile FileGlobExecutor

definition executor_schema :: "FunctionExecutor \<Rightarrow> Schema" where
  "executor_schema ex = (case ex of ExecHttp e \<Rightarrow> hf_schema e | ExecMcp e \<Rightarrow> mf_schema e | ExecFile e \<Rightarrow> fg_schema e)"

text \<open>What a call meets: the network, the MCP session with its state, and the file system.\<close>

record 't CallEnv =
  en_net :: NetLib
  en_cell :: CellLib
  en_send :: "nat \<Rightarrow> HttpRequest \<Rightarrow> string + HttpResponse"
  en_mcp :: McpLib
  en_session :: "'t McpTransport \<times> 't"
  en_files :: FileLib

definition invoke :: "'t CallEnv \<Rightarrow> FunctionExecutor \<Rightarrow> string bmap \<Rightarrow> nat option \<Rightarrow> CallError + RecordBatch" where
  "invoke env ex params limit =
     (case ex of
        ExecHttp e \<Rightarrow> in_call CallHttp (fst (http_invoke (en_net env) (en_cell env) (en_send env) e params limit))
      | ExecMcp e \<Rightarrow> in_call CallMcp (fst (mcp_invoke (en_mcp env) (fst (en_session env)) e params limit (snd (en_session env))))
      | ExecFile e \<Rightarrow> file_invoke (en_files env) e params limit)"

datatype SourceHandle = NoHandle | HttpHandle HttpSource | McpHandle

definition max_pages_of :: "FunctionDef \<Rightarrow> nat option" where
  "max_pages_of def =
     (case Option.bind (get_key (fd_body def) ''pagination'') (\<lambda>p. get_key p ''max_pages'') of
        Some (JNum n) \<Rightarrow> (case parse_sint 64 n of
            Some v \<Rightarrow> if 0 \<le> v \<and> v < 2 ^ 32 then Some (nat v) else None | None \<Rightarrow> None)
      | _ \<Rightarrow> None)"

text \<open>
  The libraries: how serde reads specifications, and how a standalone function builds a source or a session from its
  connection.
\<close>

record BuildLib =
  bl_http_spec :: "json \<Rightarrow> string + HttpTableSpec"
  bl_mcp_spec :: "json \<Rightarrow> string + McpTableSpec"
  bl_http_source :: "string \<Rightarrow> json \<Rightarrow> string + HttpSource"
  bl_mcp_session :: "json \<Rightarrow> string option"

definition build_executor :: "BuildLib \<Rightarrow> FunctionDef \<Rightarrow> SourceHandle \<Rightarrow> string \<Rightarrow> string + FunctionExecutor" where
  "build_executor lib def handle workspace_dir =
     (case fd_kind def of
        FnHttp \<Rightarrow>
          rbind (case handle of HttpHandle s \<Rightarrow> Inr s | _ \<Rightarrow> bl_http_source lib (fd_namespace def) (fd_connection def)) (\<lambda>source.
          rbind (HttpFunctionExecutor_new (bl_http_spec lib) source def (max_pages_of def)) (\<lambda>e. Inr (ExecHttp e)))
      | FnMcp \<Rightarrow>
          rbind (case handle of McpHandle \<Rightarrow> Inr () | _ \<Rightarrow> (case bl_mcp_session lib (fd_connection def) of Some e \<Rightarrow> Inl e | None \<Rightarrow> Inr ())) (\<lambda>_.
          rbind (McpFunctionExecutor_new (bl_mcp_spec lib) def (max_pages_of def)) (\<lambda>e. Inr (ExecMcp e)))
      | FnFile \<Rightarrow> rbind (FileGlobExecutor_new def workspace_dir) (\<lambda>e. Inr (ExecFile e)))"

subsection \<open>A search stops at the limit and nowhere else\<close>

definition line_hits :: "(string \<Rightarrow> bool) \<Rightarrow> string \<Rightarrow> nat \<Rightarrow> string list \<Rightarrow> GrepHit list" where
  "line_hits re path i lines =
     map (\<lambda>(k, line). \<lparr>gh_path = path, gh_line_number = k + 1, gh_line = line\<rparr>) (filter (re \<circ> snd) (enumerate i lines))"

definition file_hits :: "FileLib \<Rightarrow> (string \<Rightarrow> bool) \<Rightarrow> string \<Rightarrow> GrepHit list" where
  "file_hits lib re path = (case fl_read lib path of Some content \<Rightarrow> line_hits re path 0 (str_lines content) | None \<Rightarrow> [])"

text \<open>A limit of zero is noticed after the first hit only.\<close>

definition grep_cap :: "nat option \<Rightarrow> nat option" where
  "grep_cap limit = map_option (max 1) limit"

definition room :: "nat option \<Rightarrow> 'a list \<Rightarrow> bool" where
  "room limit out = (case limit of Some n \<Rightarrow> length out < n | None \<Rightarrow> True)"

lemma room_cut: "room limit out \<Longrightarrow> cut limit out = out"
  by (auto simp: room_def cut_def split: option.splits)

lemma cut_full: "\<not> room limit out \<Longrightarrow> cut limit (out @ rest) = cut limit out"
  by (auto simp: room_def cut_def split: option.splits)

lemma grep_stop: "(case limit of Some n \<Rightarrow> n \<le> length (out @ [h]) | None \<Rightarrow> False) \<longleftrightarrow> \<not> room (grep_cap limit) (out @ [h])"
  by (auto simp: room_def grep_cap_def split: option.splits)

lemma room_snoc: "room limit out \<Longrightarrow> \<not> room limit (out @ [h]) \<Longrightarrow> cut limit (out @ [h]) = out @ [h]"
  by (auto simp: room_def cut_def split: option.splits)

lemma grep_lines_exact:
  "room (grep_cap limit) out \<Longrightarrow>
     grep_lines re limit path i lines out =
       (cut (grep_cap limit) (out @ line_hits re path i lines), \<not> room (grep_cap limit) (out @ line_hits re path i lines))"
proof (induction lines arbitrary: i out)
  case Nil
  then show ?case by (simp add: line_hits_def room_cut)
next
  case (Cons line lines)
  let ?h = "\<lparr>gh_path = path, gh_line_number = i + 1, gh_line = line\<rparr>"
  show ?case
  proof (cases "re line")
    case True
    then have hits: "line_hits re path i (line # lines) = ?h # line_hits re path (i + 1) lines" by (simp add: line_hits_def)
    show ?thesis
    proof (cases "room (grep_cap limit) (out @ [?h])")
      case r: True
      with True Cons.IH [OF r, of "i + 1"] show ?thesis
        by (simp only: grep_lines.simps Let_def grep_stop hits if_True if_False not_not append_assoc append_Cons append_Nil simp_thms)
    next
      case r: False
      then have full: "\<not> room (grep_cap limit) ((out @ [?h]) @ line_hits re path (i + 1) lines)"
        by (auto simp: room_def split: option.splits)
      with True r show ?thesis
        using cut_full [OF r, of "line_hits re path (i + 1) lines"] room_snoc [OF Cons.prems r]
        by (simp only: grep_lines.simps Let_def grep_stop hits if_True append_assoc append_Cons append_Nil simp_thms)
    qed
  next
    case False
    with Cons show ?thesis by (simp add: line_hits_def)
  qed
qed

lemma grep_paths_exact:
  "room (grep_cap limit) out \<Longrightarrow>
     grep_paths lib re limit paths out = cut (grep_cap limit) (out @ concat (map (file_hits lib re) paths))"
proof (induction paths arbitrary: out)
  case Nil
  then show ?case by (simp add: room_cut)
next
  case (Cons path paths)
  show ?case
  proof (cases "fl_read lib path")
    case None
    with Cons show ?thesis by (simp add: file_hits_def)
  next
    case (Some content)
    let ?out = "out @ line_hits re path 0 (str_lines content)"
    show ?thesis
    proof (cases "room (grep_cap limit) ?out")
      case True
      with Some Cons show ?thesis by (simp add: file_hits_def grep_lines_exact room_cut)
    next
      case False
      with Some Cons.prems cut_full [OF False] show ?thesis by (simp add: file_hits_def grep_lines_exact)
    qed
  qed
qed

text \<open>
  Searching files gives the matching lines of the readable files that the glob names, in the order of the paths and
  lines, cut at the limit (at one line for a limit of zero); only a bad glob pattern is an error.
\<close>

lemma grep_files_exact:
  "grep_files lib pattern re limit =
     (case fl_glob lib pattern of
        Inl e \<Rightarrow> Inl (bad_glob pattern e)
      | Inr paths \<Rightarrow> Inr (cut (grep_cap limit)
          (concat (map (file_hits lib re) (sort_key path_components (filter (fl_is_file lib) paths))))))"
proof -
  have "room (grep_cap limit) ([] :: GrepHit list)" by (auto simp: room_def grep_cap_def split: option.splits)
  from grep_paths_exact [OF this] show ?thesis by (auto simp: grep_files_def split: sum.split)
qed

subsection \<open>Batches have the schema the planner was given\<close>

lemma build_meta_batch_ok: "\<exists>b. build_meta_batch file_schema rows = Inr b"
  by (simp add: build_meta_batch_def file_schema_def try_new_with_rows_def)

lemma build_grep_batch_ok: "\<exists>b. build_grep_batch grep_schema hits = Inr b"
  by (simp add: build_grep_batch_def grep_schema_def try_new_with_rows_def)

lemma build_function_batch_ok:
  assumes "distinct (map fc_name returns)" "returns \<noteq> []"
  shows "\<exists>b. build_function_batch lib (function_schema returns) returns bound rows = Inr b"
proof -
  let ?vals = "\<lambda>c. if fc_source c = Some ''arg'' then bound_values bound (fc_name c) (length rows)
    else row_values (path_segments (fc_source c) (fc_name c)) rows"
  have "length (?vals c) = length rows" for c by (simp add: bound_values_def row_values_def)
  from columns_make_batch [OF assms, of ?vals "length rows" "function_schema returns" fc_type lib, OF this]
  show ?thesis by (auto simp: build_function_batch_def function_schema_def)
qed

definition arrow_failure :: "CallError \<Rightarrow> bool" where
  "arrow_failure e \<longleftrightarrow> (\<exists>m. e = CallArrow m \<or> e = CallMcp (McpArrow m))"

lemma schema_for_path: "schema_for (spec\<lparr>ts_response := (ts_response spec)\<lparr>rs_path := path\<rparr>\<rparr>) = schema_for spec"
  by (simp add: schema_for_def effective_columns_def)

lemma http_call_plan_schema: "schema_for (fst (http_call_plan spec params)) = schema_for spec"
  by (simp add: http_call_plan_def schema_for_path split: prod.split)

lemma http_invoke_ok:
  assumes "fst (http_invoke lib cl send ex params limit) = Inr b" "hf_schema ex = schema_for (hf_spec ex)"
  shows "batch_ok (hf_schema ex) b"
proof -
  obtain spec request where plan: "http_call_plan (hf_spec ex) params = (spec, request)" by (cases "http_call_plan (hf_spec ex) params")
  then have "schema_for spec = hf_schema ex" using http_call_plan_schema [of "hf_spec ex" params] assms(2) by simp
  with assms(1) plan show ?thesis
    by (auto simp: http_invoke_def fetch_batch_def scan_params_def with_safety_def build_batch_def arrow_err_def
        split: prod.splits sum.splits intro: try_new_ok)
qed

lemma in_call_eq: "in_call f r = Inr a \<longleftrightarrow> r = Inr a" "in_call f r = Inl e \<longleftrightarrow> (\<exists>e'. r = Inl e' \<and> e = f e')"
  by (auto simp: in_call_def split: sum.split)

lemma meta_batch_ok: "build_meta_batch schema rows = Inr b \<Longrightarrow> batch_ok schema b"
  by (auto simp: build_meta_batch_def intro: try_new_ok)

lemma grep_batch_ok: "build_grep_batch schema hits = Inr b \<Longrightarrow> batch_ok schema b"
  by (auto simp: build_grep_batch_def intro: try_new_ok)

lemma file_invoke_ok: "file_invoke lib ex params limit = Inr b \<Longrightarrow> batch_ok (fg_schema ex) b"
  by (cases "fg_grep_template ex")
    (auto simp: file_invoke_def Let_def in_call_eq rbind_eq_Inr intro: meta_batch_ok grep_batch_ok)

lemma mcp_invoke_ok: "fst (mcp_invoke lib tr ex params limit t) = Inr b \<Longrightarrow> batch_ok (mf_schema ex) b"
  by (auto simp: mcp_invoke_def Let_def mcp_arrow_def build_function_batch_def rbind_eq_Inr
      split: prod.splits sum.splits intro: try_new_ok)

lemma file_invoke_no_arrow:
  assumes "fg_schema ex = (if fg_grep_template ex \<noteq> None then grep_schema else file_schema)" "file_invoke lib ex params limit = Inl e"
  shows "\<not> arrow_failure e"
proof -
  have "build_grep_batch grep_schema hits \<noteq> Inl m" "build_meta_batch file_schema rows \<noteq> Inl m" for hits rows m
    using build_grep_batch_ok [of hits] build_meta_batch_ok [of rows] by auto
  with assms show ?thesis
    by (cases "fg_grep_template ex") (auto simp: file_invoke_def Let_def in_call_eq arrow_failure_def rbind_eq_Inl)
qed

lemma mcp_invoke_no_arrow:
  assumes "mf_schema ex = function_schema (mf_returns ex)" "distinct (map fc_name (mf_returns ex))" "mf_returns ex \<noteq> []"
  shows "fst (mcp_invoke lib tr ex params limit t) \<noteq> Inl (McpArrow m)"
proof -
  have "build_function_batch lib (mf_schema ex) (mf_returns ex) bound rows \<noteq> Inl m" for bound rows m
    using build_function_batch_ok [OF assms(2,3), of lib bound rows] assms(1) by auto
  then show ?thesis by (auto simp: mcp_invoke_def Let_def mcp_arrow_def split: prod.splits sum.splits)
qed

lemma function_call_typed:
  assumes "build_executor lib def handle dir = Inr ex"
  shows "case invoke env ex params limit of
      Inr b \<Rightarrow> batch_ok (executor_schema ex) b
    | Inl e \<Rightarrow> arrow_failure e \<longrightarrow> fd_kind def = FnHttp \<or> fd_returns def = [] \<or> \<not> distinct (map fc_name (fd_returns def))"
proof (cases "fd_kind def")
  case FnHttp
  with assms obtain e where ex: "ex = ExecHttp e" "hf_schema e = schema_for (hf_spec e)"
    by (auto simp: build_executor_def HttpFunctionExecutor_new_def rbind_eq_Inr)
  then show ?thesis using FnHttp http_invoke_ok [OF _ ex(2)]
    by (auto simp: invoke_def in_call_eq executor_schema_def split: sum.split)
next
  case FnMcp
  with assms obtain e where ex: "ex = ExecMcp e" "mf_returns e = fd_returns def" "mf_schema e = function_schema (fd_returns def)"
    by (auto simp: build_executor_def McpFunctionExecutor_new_def rbind_eq_Inr)
  then show ?thesis
    using mcp_invoke_no_arrow [of e "en_mcp env" "fst (en_session env)" params limit "snd (en_session env)"]
      mcp_invoke_ok [of "en_mcp env" "fst (en_session env)" e params limit "snd (en_session env)"]
    by (auto simp: invoke_def in_call_eq executor_schema_def arrow_failure_def split: sum.split)
next
  case FnFile
  with assms obtain e where ex: "ex = ExecFile e" "fg_schema e = (if fg_grep_template e \<noteq> None then grep_schema else file_schema)"
    by (auto simp: build_executor_def FileGlobExecutor_new_def Let_def rbind_eq_Inr split: option.splits if_splits)
  have "batch_ok (fg_schema e) b" if "file_invoke (en_files env) e params limit = Inr b" for b
    using that by (rule file_invoke_ok)
  moreover have "\<not> arrow_failure err" if "file_invoke (en_files env) e params limit = Inl err" for err
    using ex(2) that by (rule file_invoke_no_arrow)
  ultimately show ?thesis by (simp add: invoke_def executor_schema_def ex(1) split: sum.split)
qed

text \<open>
  C31. A call of a function gives a batch of the schema that the planner was given when the function was built, with one
  array of the declared type per column, whatever the API, the tool or the files contain.  A call of an MCP or file
  function with distinct columns never fails on the shape of the answer.
\<close>

theorem function_call_well_typed:
  assumes "build_executor lib def handle dir = Inr ex"
  shows "case invoke env ex params limit of
      Inr b \<Rightarrow> batch_ok (executor_schema ex) b
    | Inl e \<Rightarrow> arrow_failure e \<longrightarrow> fd_kind def = FnHttp \<or> fd_returns def = [] \<or> \<not> distinct (map fc_name (fd_returns def))"
  using assms by (rule function_call_typed)

text \<open>Two files, one of them readable, with the built-in search.\<close>

definition two_files :: FileLib where
  "two_files = \<lparr>fl_home = None, fl_join = (\<lambda>dir p. dir @ ''/'' @ p), fl_absolute = starts_with ''/'',
     fl_glob = (\<lambda>_. Inr [''/w/b'', ''/w/a'']), fl_is_file = (\<lambda>_. True), fl_metadata = (\<lambda>_. Some (3, Some 7)),
     fl_read = (\<lambda>p. if p = ''/w/a'' then Some (''x'' @ [LF] @ ''yx'') else None), fl_file_name = (\<lambda>_. None),
     fl_regex = (\<lambda>pattern. Inr (has_sub pattern))\<rparr>"

definition file_env :: "unit CallEnv" where
  "file_env = \<lparr>en_net = page_lib, en_cell = cell_lib, en_send = page_server, en_mcp = mcp_lib,
     en_session = (paged_server, ()), en_files = two_files\<rparr>"

definition no_build :: BuildLib where
  "no_build = \<lparr>bl_http_spec = (\<lambda>_. Inl ''''), bl_mcp_spec = (\<lambda>_. Inl ''''), bl_http_source = (\<lambda>_ _. Inl ''''), bl_mcp_session = (\<lambda>_. None)\<rparr>"

definition grep_executor :: FileGlobExecutor where
  "grep_executor = \<lparr>fg_pattern_template = ''{glob}'', fg_grep_template = Some ''{pattern}'', fg_workspace_dir = ''/w'', fg_schema = grep_schema\<rparr>"

theorem function_call_well_typed_witness:
  "build_executor no_build file_grep NoHandle ''/w'' = Inr (ExecFile grep_executor) \<and>
   (case invoke file_env (ExecFile grep_executor) [(''glob'', ''*''), (''pattern'', ''x'')] None of
      Inr b \<Rightarrow> batch_ok grep_schema b \<and> ba_rows b = 2 | Inl _ \<Rightarrow> False)"
proof -
  have built: "build_executor no_build file_grep NoHandle ''/w'' = Inr (ExecFile grep_executor)" by code_simp
  have run: "(case invoke file_env (ExecFile grep_executor) [(''glob'', ''*''), (''pattern'', ''x'')] None of
      Inr b \<Rightarrow> ba_rows b = 2 | Inl _ \<Rightarrow> False)" by code_simp
  from built run show ?thesis
    using function_call_well_typed [OF built, of file_env "[(''glob'', ''*''), (''pattern'', ''x'')]" None]
    by (auto simp: executor_schema_def grep_executor_def split: sum.splits)
qed

end
