(* ===== verification/Functions.thy ===== *)
theory Functions
  imports Function_Exec Sql_Text "HOL-Library.Product_Lexorder"
begin

section \<open>Calling table-valued functions\<close>

text \<open>
  The calls of \<open>pawrly-core/src/function.rs\<close> and the modules \<open>functions/mod.rs\<close>, \<open>rewrite.rs\<close> and \<open>udtf.rs\<close> of
  \<open>pawrly-engine/src\<close>: rendering a call, the registry, the rewrite of calls to the names of table functions, the
  binding of literal arguments, and the table of a call.  sqlparser is an argument: a statement is the list of its
  table factors in the order they are visited and its text for other factors.
\<close>

subsection \<open>Rendering a call\<close>

record CallArg =
  ca_value :: string
  ca_quoted :: bool

definition is_safe_bare_literal :: "string \<Rightarrow> bool" where
  "is_safe_bare_literal value \<longleftrightarrow>
     to_ascii_lowercase value = ''true'' \<or> to_ascii_lowercase value = ''false'' \<or>
     \<not> list_ex (\<lambda>c. is_ascii_alphabetic c \<and> c \<notin> {CHR ''e'', CHR ''E''}) value \<and> (parses_i64 value \<or> parses_f64 value)"

definition type_is_string :: "string \<Rightarrow> bool" where
  "type_is_string t =
     (to_ascii_lowercase (trim t) \<notin>
        {''int'', ''integer'', ''int32'', ''int64'', ''bigint'', ''long'', ''smallint'', ''double'', ''float'', ''float32'',
         ''float64'', ''real'', ''decimal'', ''numeric'', ''bool'', ''boolean''})"

definition CallArg_new :: "string \<Rightarrow> string \<Rightarrow> CallArg" where
  "CallArg_new value ty = \<lparr>ca_value = value, ca_quoted = (type_is_string ty \<or> \<not> is_safe_bare_literal value)\<rparr>"

definition render_arg :: "CallArg \<Rightarrow> string" where
  "render_arg a = (if ca_quoted a then lit (ca_value a) else ca_value a)"

definition render_call_sql :: "string \<Rightarrow> string \<Rightarrow> CallArg list \<Rightarrow> string" where
  "render_call_sql namespace name args =
     ''SELECT * FROM '' @ namespace @ ''.'' @ name @ ''('' @ join '', '' (map render_arg args) @ '')''"

subsection \<open>The registry\<close>

definition mangle :: "string \<Rightarrow> string \<Rightarrow> string" where
  "mangle namespace name = ''pawrly_fn__'' @ namespace @ ''__'' @ name"

record RegisteredFunction =
  rf_def :: FunctionDef
  rf_mangled :: string
  rf_schema :: Schema
  rf_executor :: FunctionExecutor
  rf_source :: "string option"

type_synonym FunctionRegistry = "(string \<times> string, RegisteredFunction) hmap"

definition reg_is_empty :: "FunctionRegistry \<Rightarrow> bool" where
  "reg_is_empty reg \<longleftrightarrow> reg = []"

definition reg_contains :: "FunctionRegistry \<Rightarrow> string \<Rightarrow> string \<Rightarrow> bool" where
  "reg_contains reg namespace name \<longleftrightarrow> hm_get reg (namespace, name) \<noteq> None"

definition reg_insert :: "RegisteredFunction \<Rightarrow> FunctionRegistry \<Rightarrow> FunctionRegistry" where
  "reg_insert f reg = hm_insert (fd_namespace (rf_def f), fd_name (rf_def f)) f reg"

definition drain_mangled :: "FunctionRegistry \<Rightarrow> string list \<times> FunctionRegistry" where
  "drain_mangled reg = (map (rf_mangled \<circ> snd) reg, [])"

definition remove_by_source :: "string \<Rightarrow> FunctionRegistry \<Rightarrow> string list \<times> FunctionRegistry" where
  "remove_by_source source reg =
     (map (rf_mangled \<circ> snd) (filter (\<lambda>(_, f). rf_source f = Some source) reg),
      filter (\<lambda>(_, f). rf_source f \<noteq> Some source) reg)"

definition declared_names :: "FunctionRegistry \<Rightarrow> string list" where
  "declared_names reg = sort (map (\<lambda>((ns, n), _). ns @ ''.'' @ n) reg)"

definition infos :: "FunctionRegistry \<Rightarrow> FunctionInfo list" where
  "infos reg = sort_key (\<lambda>i. (fi_namespace i, fi_name i)) (map (\<lambda>(_, f). fn_info (rf_def f)) reg)"

definition reg_describe :: "FunctionRegistry \<Rightarrow> string \<Rightarrow> string \<Rightarrow> FunctionDescription option" where
  "reg_describe reg namespace name = map_option (\<lambda>f. fn_describe (rf_def f)) (hm_get reg (namespace, name))"

definition build_registered_function ::
  "BuildLib \<Rightarrow> FunctionDef \<Rightarrow> SourceHandle \<Rightarrow> string \<Rightarrow> string + RegisteredFunction" where
  "build_registered_function lib def handle workspace_dir =
     rbind (build_executor lib def handle workspace_dir) (\<lambda>ex.
       Inr \<lparr>rf_def = def, rf_mangled = mangle (fd_namespace def) (fd_name def), rf_schema = executor_schema ex,
            rf_executor = ex, rf_source = fd_source def\<rparr>)"

subsection \<open>The rewrite of calls\<close>

record Ident =
  id_value :: string
  id_quoted :: bool

datatype NamePart = NIdent Ident | NFunction string

record TableFactor =
  tf_name :: "NamePart list"
  tf_args :: "string option"

record Statement =
  st_factors :: "TableFactor list"
  st_text :: "TableFactor list \<Rightarrow> string"

datatype RewriteError = UnknownFunction string | InvalidSql string

definition normalize_ident :: "Ident \<Rightarrow> string" where
  "normalize_ident i = (if id_quoted i then id_value i else to_ascii_lowercase (id_value i))"

fun factor_idents :: "NamePart list \<Rightarrow> string list option" where
  "factor_idents [] = Some []"
| "factor_idents (NIdent i # ps) = map_option (Cons (normalize_ident i)) (factor_idents ps)"
| "factor_idents (NFunction _ # ps) = None"

definition unknown_function :: "FunctionRegistry \<Rightarrow> string \<Rightarrow> string \<Rightarrow> RewriteError" where
  "unknown_function reg ns func =
     UnknownFunction (ns @ ''.'' @ func @ ''; declared functions: ['' @ join '', '' (declared_names reg) @ '']'')"

text \<open>Visiting a factor gives the factor and whether it has changed, or an error that ends the visit.\<close>

definition pre_visit_table_factor :: "FunctionRegistry \<Rightarrow> TableFactor \<Rightarrow> RewriteError + TableFactor \<times> bool" where
  "pre_visit_table_factor reg f =
     (if tf_args f = None then Inr (f, False)
      else case factor_idents (tf_name f) of
        None \<Rightarrow> Inr (f, False)
      | Some [_] \<Rightarrow> Inr (f, False)
      | Some [ns, func] \<Rightarrow>
          if reg_contains reg ns func
          then Inr (f\<lparr>tf_name := [NIdent \<lparr>id_value = mangle ns func, id_quoted = False\<rparr>]\<rparr>, True)
          else Inl (unknown_function reg ns func)
      | Some _ \<Rightarrow> Inl (InvalidSql ''function calls support `namespace.function(...)`''))"

fun visit_factors :: "FunctionRegistry \<Rightarrow> TableFactor list \<Rightarrow> bool \<Rightarrow> RewriteError + TableFactor list \<times> bool" where
  "visit_factors reg [] changed = Inr ([], changed)"
| "visit_factors reg (f # fs) changed =
     rbind (pre_visit_table_factor reg f) (\<lambda>(f', c).
     rbind (visit_factors reg fs (changed \<or> c)) (\<lambda>(fs', c'). Inr (f' # fs', c')))"

fun rewrite_statements :: "FunctionRegistry \<Rightarrow> Statement list \<Rightarrow> bool \<Rightarrow> string list \<Rightarrow> RewriteError + string list \<times> bool" where
  "rewrite_statements reg [] changed parts = Inr (parts, changed)"
| "rewrite_statements reg (s # ss) changed parts =
     rbind (visit_factors reg (st_factors s) changed) (\<lambda>(fs, c).
       rewrite_statements reg ss c (parts @ [st_text s fs]))"

definition rewrite_function_calls ::
  "(string \<Rightarrow> Statement list option) \<Rightarrow> string \<Rightarrow> FunctionRegistry \<Rightarrow> RewriteError + string" where
  "rewrite_function_calls parse sql reg =
     (if reg_is_empty reg \<or> CHR ''('' \<notin> set sql then Inr sql
      else case parse sql of
        None \<Rightarrow> Inr sql
      | Some statements \<Rightarrow>
          rbind (rewrite_statements reg statements False []) (\<lambda>(parts, changed).
            Inr (if changed then join ''; '' parts else sql)))"

subsection \<open>Binding the arguments of a call\<close>

text \<open>
  Literals by what \<open>scalar_to_string\<close> does with them: the integer types of every width print alike; a null of any type
  and any other type is \<open>LNone\<close>.  Printing a float is an argument.
\<close>

datatype Literal =
    LText string | LInt int | LFloat32 "32 word" | LFloat64 "64 word" | LBool bool | LNone

datatype CallExpr = CLiteral Literal | CNegative CallExpr | COther string

record ShowFloat =
  sf_32 :: "32 word \<Rightarrow> string"
  sf_64 :: "64 word \<Rightarrow> string"

definition literal_to_string :: "ShowFloat \<Rightarrow> Literal \<Rightarrow> string option" where
  "literal_to_string sf sv =
     (case sv of
        LText s \<Rightarrow> Some s
      | LInt n \<Rightarrow> Some (show_int n)
      | LFloat32 f \<Rightarrow> Some (sf_32 sf f)
      | LFloat64 f \<Rightarrow> Some (sf_64 sf f)
      | LBool b \<Rightarrow> Some (if b then ''true'' else ''false'')
      | LNone \<Rightarrow> None)"

definition literal_value :: "ShowFloat \<Rightarrow> CallExpr \<Rightarrow> string option option" where
  "literal_value sf e =
     (case e of
        CLiteral sv \<Rightarrow> Some (literal_to_string sf sv)
      | CNegative (CLiteral sv) \<Rightarrow> Some (map_option (\<lambda>s. CHR ''-'' # s) (literal_to_string sf sv))
      | _ \<Rightarrow> None)"

fun bind_positional :: "ShowFloat \<Rightarrow> string \<Rightarrow> nat \<Rightarrow> FunctionArg list \<Rightarrow> CallExpr list \<Rightarrow> string bmap \<Rightarrow> string + string bmap" where
  "bind_positional sf qn i (param # params) (e # es) bound =
     (case literal_value sf e of
        Some (Some s) \<Rightarrow> bind_positional sf qn (i + 1) params es (bt_insert (fa_name param) s bound)
      | Some None \<Rightarrow> bind_positional sf qn (i + 1) params es bound
      | None \<Rightarrow> Inl (''function `'' @ qn @ ''` argument '' @ show_nat (i + 1) @ '' (`'' @ fa_name param @
                 ''`) must be a literal value''))"
| "bind_positional sf qn i _ _ bound = Inr bound"

fun fill_defaults :: "string \<Rightarrow> nat \<Rightarrow> FunctionArg list \<Rightarrow> string bmap \<Rightarrow> string + string bmap" where
  "fill_defaults qn i [] bound = Inr bound"
| "fill_defaults qn i (param # params) bound =
     (if map_of bound (fa_name param) \<noteq> None then fill_defaults qn (i + 1) params bound
      else case fa_default param of
        Some d \<Rightarrow> fill_defaults qn (i + 1) params (bt_insert (fa_name param) d bound)
      | None \<Rightarrow>
          if fa_required param
          then Inl (''function `'' @ qn @ ''` requires argument `'' @ fa_name param @ ''` (position '' @ show_nat (i + 1) @ '')'')
          else fill_defaults qn (i + 1) params bound)"

definition bind_args :: "ShowFloat \<Rightarrow> FunctionDef \<Rightarrow> CallExpr list \<Rightarrow> string + string bmap" where
  "bind_args sf def args =
     (let qn = fd_namespace def @ ''.'' @ fd_name def in
      if length (fd_args def) < length args
      then Inl (''function `'' @ qn @ ''` takes at most '' @ show_nat (length (fd_args def)) @ '' argument(s), got '' @
             show_nat (length args))
      else rbind (bind_positional sf qn 0 (fd_args def) args []) (fill_defaults qn 0 (fd_args def)))"

subsection \<open>The table of a call\<close>

record FunctionCallTable =
  ct_func :: RegisteredFunction
  ct_bound :: "string bmap"

definition udtf_call :: "ShowFloat \<Rightarrow> RegisteredFunction \<Rightarrow> CallExpr list \<Rightarrow> string + FunctionCallTable" where
  "udtf_call sf func args = rbind (bind_args sf (rf_def func) args) (\<lambda>bound. Inr \<lparr>ct_func = func, ct_bound = bound\<rparr>)"

definition call_scan ::
  "'t CallEnv \<Rightarrow> FunctionCallTable \<Rightarrow> nat list option \<Rightarrow> nat option \<Rightarrow> CallError + Schema \<times> RecordBatch" where
  "call_scan env t projection limit =
     rbind (invoke env (rf_executor (ct_func t)) (ct_bound t) limit) (\<lambda>batch.
       case projection of
         None \<Rightarrow> Inr (rf_schema (ct_func t), batch)
       | Some p \<Rightarrow>
           rbind (ok_or CallPanic (project_columns p (rf_schema (ct_func t)))) (\<lambda>s.
           rbind (in_call CallArrow (ok_or ''project index out of bounds'' (project_columns p (ba_schema batch)))) (\<lambda>bs.
           rbind (in_call CallArrow (ok_or ''project index out of bounds'' (project_columns p (ba_columns batch)))) (\<lambda>cols.
           rbind (in_call CallArrow (try_new_with_rows bs cols (Some (ba_rows batch)))) (\<lambda>b. Inr (s, b))))))"

subsection \<open>A rendered call is the call\<close>

definition quote_free :: "string \<Rightarrow> bool" where
  "quote_free s \<longleftrightarrow> list_all (\<lambda>c. c \<notin> {SQ, DQ}) s"

lemma sql_lex_codes: "quote_free s \<Longrightarrow> sql_lex s = Some (map Code s)"
  by (induction s) (auto simp: quote_free_def sql_lex_code)

lemma num_chars_quote_free: "list_all num_char s \<Longrightarrow> quote_free s"
  by (auto simp: quote_free_def list_all_iff num_char_def is_ascii_alphanumeric_def is_ascii_alphabetic_def
      is_ascii_digit_def is_ascii_lower_def is_ascii_upper_def)

lemma bare_literal_num: "is_safe_bare_literal v \<Longrightarrow> list_all num_char v"
  by (auto simp: is_safe_bare_literal_def is_ascii_lower_def intro: parses_i64_num parses_f64_num lowercase_word_num)

text \<open>The tokens of an argument: one literal that reads as the value, or the characters of a number or truth value.\<close>

definition arg_toks :: "string \<times> string \<Rightarrow> sql_tok list" where
  "arg_toks a = (if ca_quoted (CallArg_new (fst a) (snd a)) then [StrLit (fst a)] else map Code (fst a))"

fun args_toks :: "(string \<times> string) list \<Rightarrow> sql_tok list" where
  "args_toks [] = []"
| "args_toks [a] = arg_toks a"
| "args_toks (a # as) = arg_toks a @ [Code (CHR '',''), Code (CHR '' '')] @ args_toks as"

lemma sql_lex_arg: "sql_lex (render_arg (CallArg_new (fst a) (snd a))) = Some (arg_toks a)"
proof (cases "ca_quoted (CallArg_new (fst a) (snd a))")
  case True
  with sql_lex_lit [of "[]" "fst a"] show ?thesis by (simp add: render_arg_def arg_toks_def CallArg_new_def)
next
  case False
  then have "quote_free (fst a)" by (auto simp: CallArg_new_def intro: num_chars_quote_free bare_literal_num)
  with False show ?thesis by (simp add: render_arg_def arg_toks_def CallArg_new_def sql_lex_codes)
qed

lemma sql_lex_args: "sql_lex (join '', '' (map (\<lambda>a. render_arg (CallArg_new (fst a) (snd a))) args)) = Some (args_toks args)"
proof (induction args rule: args_toks.induct)
  case (3 a b as)
  let ?tail = "join '', '' (map (\<lambda>a. render_arg (CallArg_new (fst a) (snd a))) (b # as))"
  have "sql_lex ('', '' @ ?tail) = Some (map Code '', '' @ args_toks (b # as))"
    using sql_lex_append [of "'', ''" "map Code '', ''" ?tail] 3 by (simp add: sql_lex_codes quote_free_def quote_free_last_def)
  then have "sql_lex (render_arg (CallArg_new (fst a) (snd a)) @ '', '' @ ?tail) = Some (arg_toks a @ map Code '', '' @ args_toks (b # as))"
    using sql_lex_append [OF sql_lex_arg, of a "'', '' @ ?tail"] by (simp add: quote_free_hd_def)
  then show ?case by simp
qed (simp_all add: sql_lex_arg)

text \<open>
  C30. The SQL text of a call lexes to the call: the qualified name in brackets around the arguments, each of them a
  single string literal that reads back as the value given, or a bare word of digits, letters, signs and points.  No value
  can end its literal, add an argument or close the brackets.
\<close>

theorem call_sql_reads_back:
  assumes "quote_free namespace" "quote_free name"
  shows "sql_lex (render_call_sql namespace name (map (\<lambda>a. CallArg_new (fst a) (snd a)) args)) =
      Some (map Code (''SELECT * FROM '' @ namespace @ ''.'' @ name @ ''('') @ args_toks args @ [Code (CHR '')'')]) \<and>
    list_all (\<lambda>a. arg_toks a = [StrLit (fst a)] \<or> arg_toks a = map Code (fst a) \<and> list_all num_char (fst a)) args"
proof
  let ?hd = "''SELECT * FROM '' @ namespace @ ''.'' @ name @ ''(''"
  let ?args = "join '', '' (map (\<lambda>a. render_arg (CallArg_new (fst a) (snd a))) args)"
  have hd: "sql_lex ?hd = Some (map Code ?hd)" using assms by (intro sql_lex_codes) (simp add: quote_free_def)
  have "sql_lex '')'' = Some [Code (CHR '')'')]" by (simp add: sql_lex_code)
  then have args: "sql_lex (?args @ '')'') = Some (args_toks args @ [Code (CHR '')'')])"
    using sql_lex_append [OF sql_lex_args, of args "'')''"] by (simp add: quote_free_hd_def)
  have "sql_lex (?hd @ ?args @ '')'') = Some (map Code ?hd @ args_toks args @ [Code (CHR '')'')])"
    using sql_lex_append [OF hd, of "?args @ '')''"] args by (simp add: quote_free_last_def)
  then show "sql_lex (render_call_sql namespace name (map (\<lambda>a. CallArg_new (fst a) (snd a)) args)) =
      Some (map Code ?hd @ args_toks args @ [Code (CHR '')'')])"
    by (simp add: render_call_sql_def comp_def)
  have "arg_toks a = [StrLit (fst a)] \<or> arg_toks a = map Code (fst a) \<and> list_all num_char (fst a)" for a
    using bare_literal_num [of "fst a"] by (simp add: arg_toks_def CallArg_new_def)
  then show "list_all (\<lambda>a. arg_toks a = [StrLit (fst a)] \<or> arg_toks a = map Code (fst a) \<and> list_all num_char (fst a)) args"
    by (simp add: list_all_iff)
qed

theorem call_sql_reads_back_witness:
  "sql_lex (render_call_sql ''github'' ''issues''
     (map (\<lambda>a. CallArg_new (fst a) (snd a)) [([SQ] @ '') --'', ''varchar''), (''-5'', ''int'')])) =
   Some (map Code ''SELECT * FROM github.issues('' @ [StrLit ([SQ] @ '') --''), Code (CHR '',''), Code (CHR '' '')] @
     map Code ''-5'' @ [Code (CHR '')'')])"
proof -
  have "quote_free ''github''" "quote_free ''issues''" by (simp_all add: quote_free_def)
  note read = call_sql_reads_back [OF this, of "[([SQ] @ '') --'', ''varchar''), (''-5'', ''int'')]"]
  have ty: "type_is_string ''varchar''" "\<not> type_is_string ''int''" by code_simp+
  have "parses_f64 ''-5''" "\<not> list_ex (\<lambda>c. is_ascii_alphabetic c \<and> c \<notin> {CHR ''e'', CHR ''E''}) ''-5''" by code_simp+
  then have "is_safe_bare_literal ''-5''" by (simp add: is_safe_bare_literal_def)
  with ty have "args_toks [([SQ] @ '') --'', ''varchar''), (''-5'', ''int'')] =
      [StrLit ([SQ] @ '') --''), Code (CHR '',''), Code (CHR '' '')] @ map Code ''-5''"
    by (simp add: arg_toks_def CallArg_new_def)
  with read show ?thesis by simp
qed

subsection \<open>The rewrite changes calls and nothing else\<close>

definition is_call :: "TableFactor \<Rightarrow> bool" where
  "is_call f \<longleftrightarrow> tf_args f \<noteq> None \<and> (case factor_idents (tf_name f) of Some ids \<Rightarrow> length ids \<noteq> 1 | None \<Rightarrow> False)"

definition call_names :: "FunctionRegistry \<Rightarrow> TableFactor \<Rightarrow> bool" where
  "call_names reg f \<longleftrightarrow> (\<exists>ns func. factor_idents (tf_name f) = Some [ns, func] \<and> reg_contains reg ns func)"

definition renamed :: "TableFactor \<Rightarrow> TableFactor" where
  "renamed f =
     (if is_call f then
        (case factor_idents (tf_name f) of
           Some [ns, func] \<Rightarrow> f\<lparr>tf_name := [NIdent \<lparr>id_value = mangle ns func, id_quoted = False\<rparr>]\<rparr>
         | _ \<Rightarrow> f)
      else f)"

definition resolves :: "FunctionRegistry \<Rightarrow> TableFactor \<Rightarrow> bool" where
  "resolves reg f \<longleftrightarrow> \<not> is_call f \<or> call_names reg f"

lemma pre_visit_cases:
  "if resolves reg f then pre_visit_table_factor reg f = Inr (renamed f, is_call f)
   else \<exists>e. pre_visit_table_factor reg f = Inl e"
proof (cases "tf_args f \<noteq> None \<and> factor_idents (tf_name f) \<noteq> None")
  case True
  then obtain ids where ids: "factor_idents (tf_name f) = Some ids" "tf_args f \<noteq> None" by auto
  consider "ids = []" | x where "ids = [x]" | ns func where "ids = [ns, func]" | a b c cs where "ids = a # b # c # cs"
    by (metis list.exhaust)
  then show ?thesis
    by cases (use ids in \<open>auto simp: resolves_def call_names_def is_call_def renamed_def pre_visit_table_factor_def\<close>)
qed (auto simp: resolves_def is_call_def renamed_def pre_visit_table_factor_def)

lemma visit_factors_cases:
  "if list_all (resolves reg) fs then visit_factors reg fs c = Inr (map renamed fs, c \<or> list_ex is_call fs)
   else \<exists>e. visit_factors reg fs c = Inl e"
proof (induction fs arbitrary: c)
  case (Cons f fs)
  show ?case
  proof (cases "resolves reg f")
    case True
    with pre_visit_cases [of reg f] Cons [of "c \<or> is_call f"] show ?thesis by (auto split: if_splits)
  next
    case False
    with pre_visit_cases [of reg f] show ?thesis by auto
  qed
qed simp

lemma rewrite_statements_cases:
  "if list_all (\<lambda>s. list_all (resolves reg) (st_factors s)) ss
   then rewrite_statements reg ss c parts =
     Inr (parts @ map (\<lambda>s. st_text s (map renamed (st_factors s))) ss, c \<or> list_ex (\<lambda>s. list_ex is_call (st_factors s)) ss)
   else \<exists>e. rewrite_statements reg ss c parts = Inl e"
proof (induction ss arbitrary: c parts)
  case (Cons s ss)
  show ?case
  proof (cases "list_all (resolves reg) (st_factors s)")
    case True
    with visit_factors_cases [of reg "st_factors s" c] Cons [of "c \<or> list_ex is_call (st_factors s)" "parts @ [st_text s (map renamed (st_factors s))]"]
    show ?thesis by (auto split: if_splits)
  next
    case False
    with visit_factors_cases [of reg "st_factors s" c] show ?thesis by auto
  qed
qed simp


text \<open>A statement with one call of \<open>github.search\<close> and one plain table.\<close>

definition ident :: "string \<Rightarrow> NamePart" where
  "ident s = NIdent \<lparr>id_value = s, id_quoted = False\<rparr>"

definition search_statement :: Statement where
  "search_statement = \<lparr>st_factors = [\<lparr>tf_name = [ident ''github'', ident ''Search''], tf_args = Some ''1''\<rparr>,
       \<lparr>tf_name = [ident ''github'', ident ''issues''], tf_args = None\<rparr>],
     st_text = (\<lambda>fs. show_nat (length (filter (\<lambda>f. length (tf_name f) = 1) fs)))\<rparr>"

definition search_def :: FunctionDef where
  "search_def = file_glob\<lparr>fd_namespace := ''github'', fd_name := ''search'', fd_source := Some ''github''\<rparr>"

definition search_function :: RegisteredFunction where
  "search_function = \<lparr>rf_def = search_def, rf_mangled = ''pawrly_fn__github__search'', rf_schema = grep_schema,
     rf_executor = ExecFile grep_executor, rf_source = Some ''github''\<rparr>"

lemma lower: "normalize_ident \<lparr>id_value = ''github'', id_quoted = False\<rparr> = ''github''"
    "normalize_ident \<lparr>id_value = ''Search'', id_quoted = False\<rparr> = ''search''"
  by code_simp+


subsection \<open>Arguments are bound by position\<close>

definition positional :: "ShowFloat \<Rightarrow> FunctionArg list \<Rightarrow> CallExpr list \<Rightarrow> (string \<times> string) list" where
  "positional sf params args =
     List.map_filter (\<lambda>(p, e). case literal_value sf e of Some (Some v) \<Rightarrow> Some (fa_name p, v) | _ \<Rightarrow> None) (zip params args)"

definition defaults :: "FunctionArg list \<Rightarrow> (string \<times> string) list" where
  "defaults params = List.map_filter (\<lambda>p. map_option (Pair (fa_name p)) (fa_default p)) params"

lemma positional_names: "fst ` set (positional sf params args) \<subseteq> fa_name ` set params"
  by (auto simp: positional_def List.map_filter_def image_iff split: option.splits dest!: set_zip_leftD)

lemma bind_positional_cases:
  "distinct (map fa_name params) \<Longrightarrow> length args \<le> length params \<Longrightarrow>
   case bind_positional sf qn i params args bound of
     Inr b \<Rightarrow> list_all (\<lambda>e. literal_value sf e \<noteq> None) args \<and> map_of b = map_of bound ++ map_of (positional sf params args)
   | Inl _ \<Rightarrow> list_ex (\<lambda>e. literal_value sf e = None) args"
proof (induction sf qn i params args bound rule: bind_positional.induct)
  case (1 sf qn i param params e es bound)
  show ?case
  proof (cases "literal_value sf e")
    case None
    then show ?thesis by simp
  next
    case (Some v)
    have apart: "fa_name param \<notin> dom (map_of (positional sf params es))"
      using positional_names [of sf params es] "1.prems"(1) by (auto simp: dom_map_of_conv_image_fst)
    have step: "positional sf (param # params) (e # es) =
        (case v of Some s \<Rightarrow> [(fa_name param, s)] | None \<Rightarrow> []) @ positional sf params es"
      using Some by (auto simp: positional_def map_filter_simps split: option.split)
    show ?thesis
    proof (cases v)
      case None
      with Some "1.IH"(1) [OF Some None] "1.prems" step show ?thesis by (auto split: sum.splits)
    next
      case v: (Some s)
      have "(m(fa_name param \<mapsto> s)) ++ map_of (positional sf params es) = m ++ (map_of (positional sf params es))(fa_name param \<mapsto> s)" for m
        using apart by (metis map_add_upd map_add_upd_left)
      with Some v "1.IH"(2) [OF Some v] "1.prems" step show ?thesis
        by (auto simp: fun_eq_iff map_add_def split: sum.splits)
    qed
  qed
qed (auto simp: positional_def map_filter_simps)

lemma defaults_names: "fst ` set (defaults params) \<subseteq> fa_name ` set params"
  by (auto simp: defaults_def List.map_filter_def)

lemma fill_defaults_cases:
  "distinct (map fa_name params) \<Longrightarrow>
   case fill_defaults qn i params bound of
     Inr b \<Rightarrow> map_of b = map_of (defaults params) ++ map_of bound \<and>
       list_all (\<lambda>p. \<not> fa_required p \<or> map_of b (fa_name p) \<noteq> None) params
   | Inl _ \<Rightarrow> list_ex (\<lambda>p. fa_required p \<and> (map_of (defaults params) ++ map_of bound) (fa_name p) = None) params"
proof (induction params arbitrary: i bound)
  case (Cons param params)
  have step: "defaults (param # params) = (case fa_default param of Some d \<Rightarrow> [(fa_name param, d)] | None \<Rightarrow> []) @ defaults params"
    by (simp add: defaults_def map_filter_simps split: option.split)
  have keep: "m(k \<mapsto> d) ++ n = m ++ n" if "n k \<noteq> None" for m n :: "string \<Rightarrow> string option" and k d
    using that by (auto simp: map_add_def fun_eq_iff split: option.split)
  have under: "m(k \<mapsto> d) ++ n = m ++ n(k \<mapsto> d)" if "n k = None" for m n :: "string \<Rightarrow> string option" and k d
    using that by (auto simp: map_add_def fun_eq_iff split: option.split)
  show ?case
  proof (cases "map_of bound (fa_name param)")
    case (Some v)
    then have same: "map_of (defaults (param # params)) ++ map_of bound = map_of (defaults params) ++ map_of bound"
      by (cases "fa_default param") (simp_all add: step keep)
    from Some Cons.IH [of bound "i + 1"] Cons.prems show ?thesis unfolding same by (auto simp: map_add_def split: sum.split)
  next
    case unbound: None
    show ?thesis
    proof (cases "fa_default param")
      case (Some d)
      then have same: "map_of (defaults (param # params)) ++ map_of bound = map_of (defaults params) ++ (map_of bound)(fa_name param \<mapsto> d)"
        using unbound by (simp add: step under)
      from Some unbound Cons.IH [of "bt_insert (fa_name param) d bound" "i + 1"] Cons.prems show ?thesis
        unfolding same by (auto simp: fun_upd_def simp del: map_add_upd map_add_None split: sum.splits split del: if_split)
    next
      case None
      then have same: "defaults (param # params) = defaults params" by (simp add: step)
      show ?thesis
      proof (cases "fa_required param")
        case True
        have "map_of (defaults params) (fa_name param) = None"
          using defaults_names [of params] Cons.prems by (auto simp: map_of_eq_None_iff)
        with True None unbound same show ?thesis by (simp add: map_add_def)
      next
        case False
        with None unbound same Cons.IH [of bound "i + 1"] Cons.prems show ?thesis by (auto simp: map_add_def split: sum.split)
      qed
    qed
  qed
qed (simp add: defaults_def map_filter_simps)

definition call_bindings :: "ShowFloat \<Rightarrow> FunctionArg list \<Rightarrow> CallExpr list \<Rightarrow> string \<Rightarrow> string option" where
  "call_bindings sf params args = map_of (defaults params) ++ map_of (positional sf params args)"

lemma bind_args_cases:
  assumes "distinct (map fa_name (fd_args def))"
  shows "case bind_args sf def args of
      Inr bound \<Rightarrow> length args \<le> length (fd_args def) \<and> list_all (\<lambda>e. literal_value sf e \<noteq> None) args \<and>
        map_of bound = call_bindings sf (fd_args def) args \<and>
        list_all (\<lambda>p. \<not> fa_required p \<or> map_of bound (fa_name p) \<noteq> None) (fd_args def)
    | Inl _ \<Rightarrow> length (fd_args def) < length args \<or> list_ex (\<lambda>e. literal_value sf e = None) args \<or>
        list_ex (\<lambda>p. fa_required p \<and> call_bindings sf (fd_args def) args (fa_name p) = None) (fd_args def)"
proof (cases "length args \<le> length (fd_args def)")
  case len: True
  let ?qn = "fd_namespace def @ ''.'' @ fd_name def"
  show ?thesis
  proof (cases "bind_positional sf ?qn 0 (fd_args def) args []")
    case (Inl e)
    with bind_positional_cases [OF assms len, where sf = sf and qn = ?qn and i = 0 and bound = "[]"] len show ?thesis by (simp add: bind_args_def Let_def)
  next
    case (Inr b)
    then have run: "bind_args sf def args = fill_defaults ?qn 0 (fd_args def) b" using len by (simp add: bind_args_def Let_def)
    from Inr bind_positional_cases [OF assms len, where sf = sf and qn = ?qn and i = 0 and bound = "[]"]
    have b: "list_all (\<lambda>e. literal_value sf e \<noteq> None) args" "map_of b = map_of (positional sf (fd_args def) args)" by auto
    from fill_defaults_cases [OF assms, where qn = ?qn and i = 0 and bound = b] b len show ?thesis
      unfolding run by (auto simp: call_bindings_def split: sum.splits)
  qed
qed (simp add: bind_args_def Let_def)

text \<open>
  C37. The arguments of a call bind by position: a literal that is not null binds the argument at its place, every other
  argument has its default.  Binding fails exactly for too many arguments, for one that is no literal, and for a required
  argument that is left without a value.
\<close>

theorem bind_args_exact:
  assumes "distinct (map fa_name (fd_args def))"
  shows "case bind_args sf def args of
      Inr bound \<Rightarrow> length args \<le> length (fd_args def) \<and> list_all (\<lambda>e. literal_value sf e \<noteq> None) args \<and>
        map_of bound = call_bindings sf (fd_args def) args \<and>
        list_all (\<lambda>p. \<not> fa_required p \<or> map_of bound (fa_name p) \<noteq> None) (fd_args def)
    | Inl _ \<Rightarrow> length (fd_args def) < length args \<or> list_ex (\<lambda>e. literal_value sf e = None) args \<or>
        list_ex (\<lambda>p. fa_required p \<and> call_bindings sf (fd_args def) args (fa_name p) = None) (fd_args def)"
  using assms by (rule bind_args_cases)

definition show_float :: ShowFloat where
  "show_float = \<lparr>sf_32 = (\<lambda>_. []), sf_64 = (\<lambda>_. [])\<rparr>"

theorem bind_args_exact_witness:
  "call_bindings show_float (fd_args file_grep) [CLiteral (LText ''x''), CLiteral (LText ''*'')] = [''glob'' \<mapsto> ''*'', ''pattern'' \<mapsto> ''x'']"
proof -
  have names: "distinct (map fa_name (fd_args file_grep))" by code_simp
  have "bind_args show_float file_grep [CLiteral (LText ''x''), CLiteral (LText ''*'')] = Inr [(''glob'', ''*''), (''pattern'', ''x'')]"
    by code_simp
  with bind_args_exact [OF names, where sf = show_float and args = "[CLiteral (LText ''x''), CLiteral (LText ''*'')]"]
  have "map_of [(''glob'', ''*''), (''pattern'', ''x'')] =
      call_bindings show_float (fd_args file_grep) [CLiteral (LText ''x''), CLiteral (LText ''*'')]" by simp
  from this [symmetric] show ?thesis by (simp add: fun_upd_twist)
qed

subsection \<open>Names of table functions\<close>

lemma split_at_sub_complete: "p \<noteq> [] \<Longrightarrow> split_at_sub p (s @ p @ r) \<noteq> None"
proof (induction s)
  case Nil
  moreover have "strip_prefix p (p @ r) = Some r" by (simp add: strip_prefix_Some)
  ultimately show ?case by (cases p) auto
qed (auto split: option.split)

lemma mangle_parts:
  assumes "a @ ''__'' @ b = a' @ ''__'' @ b'" "\<not> has_sub ''__'' a" "\<not> has_sub ''__'' a'"
    "a = [] \<or> last a \<noteq> CHR ''_''" "a' = [] \<or> last a' \<noteq> CHR ''_''"
  shows "a = a' \<and> b = b'"
proof -
  have longer: "x = x'"
    if eq: "x @ ''__'' @ y = x' @ ''__'' @ y'" and no: "split_at_sub ''__'' x' = None" and l: "x' = [] \<or> last x' \<noteq> CHR ''_''"
      and le: "length x \<le> length x'" for x y x' y' :: string
  proof -
    from eq le obtain u where x': "x' = x @ u" and u: "''__'' @ y = u @ ''__'' @ y'" by (auto simp: append_eq_append_conv2)
    show ?thesis
    proof (cases u)
      case (Cons c u')
      with u have c: "c = CHR ''_''" "CHR ''_'' # y = u' @ ''__'' @ y'" by auto
      show ?thesis
      proof (cases u')
        case Nil
        with c Cons x' l show ?thesis by simp
      next
        case (Cons d u'')
        with c have "x' = x @ ''__'' @ u''" using x' \<open>u = c # u'\<close> by simp
        with no split_at_sub_complete [of "''__''" x u''] show ?thesis by simp
      qed
    qed (use x' in simp)
  qed
  have "a = a'"
    using longer [OF assms(1) _ assms(5)] longer [OF assms(1) [symmetric] _ assms(4)] assms(2,3)
    by (cases "length a \<le> length a'") (simp_all add: has_sub_def del: not_None_eq)
  with assms(1) show ?thesis by simp
qed

text \<open>
  Names without \<open>__\<close>, which the validator requires, are not enough for the table functions to have names of their own:
  the namespace must not end in an underscore, too.
\<close>

lemma mangle_injective:
  assumes "mangle ns n = mangle ns' n'" "\<not> has_sub ''__'' ns" "\<not> has_sub ''__'' ns'"
    "ns = [] \<or> last ns \<noteq> CHR ''_''" "ns' = [] \<or> last ns' \<noteq> CHR ''_''"
  shows "ns = ns' \<and> n = n'"
  using mangle_parts [of ns n ns' n'] assms by (simp add: mangle_def)

lemma mangled_names_collide: "mangle ''a_'' ''b'' = mangle ''a'' ''_b''"
  by (simp add: mangle_def)

text \<open>
  \<open>render_call_sql\<close> writes names without quotes, and the rewrite folds such names to lower case: a function whose name has
  a capital letter cannot be called this way.
\<close>

lemma capitals_are_not_callable:
  assumes "\<not> reg_contains reg (to_ascii_lowercase ns) (to_ascii_lowercase func)"
  shows "pre_visit_table_factor reg \<lparr>tf_name = [ident ns, ident func], tf_args = Some args\<rparr> =
    Inl (unknown_function reg (to_ascii_lowercase ns) (to_ascii_lowercase func))"
  using assms by (simp add: pre_visit_table_factor_def ident_def normalize_ident_def)

subsection \<open>Scanning a call\<close>

lemma call_scan_ok:
  assumes "build_registered_function lib def handle dir = Inr f" "ct_func t = f" "call_scan env t projection limit = Inr (fs, b)"
  shows "batch_ok fs b \<and>
    fs = (case projection of Some idx \<Rightarrow> map (\<lambda>i. rf_schema f ! i) idx | None \<Rightarrow> rf_schema f)"
proof -
  from assms(1) obtain ex where ex: "build_executor lib def handle dir = Inr ex" "rf_executor f = ex" "rf_schema f = executor_schema ex"
    by (auto simp: build_registered_function_def rbind_eq_Inr)
  from assms(3) obtain batch where batch: "invoke env ex (ct_bound t) limit = Inr batch"
    using ex(2) assms(2) by (auto simp: call_scan_def rbind_eq_Inr)
  then have ok: "batch_ok (rf_schema f) batch"
    using function_call_typed [OF ex(1), of env "ct_bound t" limit] ex(3) by simp
  show ?thesis
  proof (cases projection)
    case None
    with assms(2,3) batch ok ex(2) show ?thesis by (simp add: call_scan_def)
  next
    case (Some idx)
    with assms(2,3) batch ok ex(2) show ?thesis
      by (auto simp: call_scan_def in_call_eq rbind_eq_Inr ok_or_eq project_columns_def batch_ok_def
          split: if_splits dest!: try_new_ok)
  qed
qed

end
