(* ===== verification/Config_Validate.thy ===== *)
theory Config_Validate
  imports Config_Semantic Config_Vars Functions
begin

section \<open>Validation of sources and functions\<close>

text \<open>
  The rest of \<open>pawrly-config/src/validator.rs\<close> and the configuration types of \<open>types.rs\<close> with their conversion to the
  engine's.  A validation is the list of the errors it pushes, in order.  The URL parser is an argument.
\<close>

subsection \<open>The configuration\<close>

record CfgTableDef =
  ctd_name :: string
  ctd_description :: "string option"
  ctd_wiki :: "string option"
  ctd_body :: json
  ctd_cache :: "CachePolicy option"
  ctd_safety :: "SafetyPolicy option"

record FunctionDecl =
  dl_name :: string
  dl_namespace :: "string option"
  dl_kind :: "FunctionKind option"
  dl_description :: "string option"
  dl_wiki :: "string option"
  dl_examples :: "string list"
  dl_args :: "FunctionArg list"
  dl_returns :: "FunctionColumn list"
  dl_config :: json
  dl_body :: json
  dl_cache :: CachePolicy
  dl_safety :: "SafetyPolicy option"

record CfgSourceDef =
  cs_name :: string
  cs_kind :: SourceKind
  cs_description :: "string option"
  cs_wiki :: "string option"
  cs_examples :: "string list"
  cs_from :: "string option"
  cs_variables :: "(string \<times> VariableDef) list"
  cs_dynamic_vars :: "DynamicVarBinding list"
  cs_config :: json
  cs_cache :: CachePolicy
  cs_safety :: "SafetyPolicy option"
  cs_tables :: "CfgTableDef list"
  cs_functions :: "FunctionDecl list"
  cs_raw_table :: bool
  cs_raw_table_safety :: "SafetyPolicy option"

text \<open>The parts of a configuration that validation and the engine read.\<close>

record Config =
  cg_version :: nat
  cg_sources :: "CfgSourceDef list"
  cg_semantic :: "SemanticConfig option"
  cg_functions :: "FunctionDecl list"

definition fn_to_engine :: "FunctionDecl \<Rightarrow> string \<Rightarrow> FunctionKind \<Rightarrow> json \<Rightarrow> string option \<Rightarrow> FunctionDef" where
  "fn_to_engine f namespace kind connection source =
     \<lparr>fd_namespace = namespace, fd_name = dl_name f, fd_kind = kind, fd_description = dl_description f, fd_wiki = dl_wiki f,
      fd_examples = dl_examples f, fd_args = dl_args f, fd_returns = dl_returns f, fd_connection = connection,
      fd_body = dl_body f, fd_source = source, fd_builtin = False, fd_cache = dl_cache f, fd_safety = dl_safety f\<rparr>"

definition dynamic_specs :: "Config \<Rightarrow> (string, DynamicVarSpec) hmap" where
  "dynamic_specs cfg =
     fold (\<lambda>b out. hm_insert (db_id b) (db_spec b) out) (concat (map cs_dynamic_vars (cg_sources cfg))) []"

definition dynamic_bindings_by_source :: "Config \<Rightarrow> (string, (string, string) hmap) hmap" where
  "dynamic_bindings_by_source cfg =
     fold (\<lambda>s out. if cs_dynamic_vars s = [] then out
                   else hm_insert (cs_name s) (fold (\<lambda>b m. hm_insert (db_name b) (db_id b) m) (cs_dynamic_vars s) []) out)
       (cg_sources cfg) []"

definition table_to_engine :: "CfgTableDef \<Rightarrow> TableDef" where
  "table_to_engine t =
     \<lparr>td_name = ctd_name t, td_description = ctd_description t, td_wiki = ctd_wiki t, td_config = ctd_body t,
      td_cache = ctd_cache t, td_safety = ctd_safety t\<rparr>"

definition source_to_engine :: "CfgSourceDef \<Rightarrow> SourceDef" where
  "source_to_engine s =
     \<lparr>so_name = cs_name s, so_kind = cs_kind s, so_description = cs_description s, so_wiki = cs_wiki s,
      so_examples = cs_examples s, so_config = cs_config s, so_cache = cs_cache s, so_safety = cs_safety s,
      so_tables = map table_to_engine (cs_tables s), so_raw_table = cs_raw_table s,
      so_raw_table_safety = cs_raw_table_safety s\<rparr>"

definition into_engine_sources :: "Config \<Rightarrow> SourceDef list" where
  "into_engine_sources cfg = map source_to_engine (cg_sources cfg)"

definition attached_functions :: "CfgSourceDef \<Rightarrow> FunctionDef list" where
  "attached_functions s =
     (case for_source (cs_kind s) of
        None \<Rightarrow> []
      | Some kind \<Rightarrow> map (\<lambda>f. fn_to_engine f (cs_name s) kind (cs_config s) (Some (cs_name s))) (cs_functions s))"

definition standalone_function :: "FunctionDecl \<Rightarrow> FunctionDef option" where
  "standalone_function f =
     (case (dl_namespace f, dl_kind f) of
        (Some namespace, Some kind) \<Rightarrow> Some (fn_to_engine f namespace kind (dl_config f) None)
      | _ \<Rightarrow> None)"

definition engine_functions :: "Config \<Rightarrow> FunctionDef list" where
  "engine_functions cfg =
     concat (map attached_functions (cg_sources cfg)) @ List.map_filter standalone_function (cg_functions cfg)"

subsection \<open>Sources\<close>

record AuthUrl = Url +
  au_username :: string
  au_password :: "string option"

definition is_loopback :: "'a Url_scheme \<Rightarrow> bool" where
  "is_loopback url =
     (case u_host url of
        Some (Domain host) \<Rightarrow> to_ascii_lowercase host = ''localhost''
      | Some (Ipv4 addr) \<Rightarrow> v4_is_loopback addr
      | Some (Ipv6 addr) \<Rightarrow> addr = 1
      | None \<Rightarrow> False)"

definition str_at :: "json \<Rightarrow> string \<Rightarrow> string option" where
  "str_at v key = Option.bind (get_key v key) as_str"

definition str_at_either :: "json \<Rightarrow> string \<Rightarrow> string \<Rightarrow> string option" where
  "str_at_either v key key' = Option.bind (case get_key v key of Some x \<Rightarrow> Some x | None \<Rightarrow> get_key v key') as_str"

definition has_command :: "json \<Rightarrow> bool" where
  "has_command cfg =
     (case get_key cfg ''command'' of
        Some (JStr s) \<Rightarrow> trim s \<noteq> []
      | Some (JArr (a # _)) \<Rightarrow> (case as_str a of Some s \<Rightarrow> trim s \<noteq> [] | None \<Rightarrow> False)
      | _ \<Rightarrow> False)"

definition validate_mcp :: "(string \<Rightarrow> string + AuthUrl) \<Rightarrow> string \<Rightarrow> json \<Rightarrow> ConfigError list" where
  "validate_mcp parse_url name cfg =
     (case str_at cfg ''transport'' of
        None \<Rightarrow> [SourceInvalid name ''`kind: mcp` requires `config.transport`'']
      | Some transport \<Rightarrow>
          if transport = ''stdio'' then
            err_if (\<not> has_command cfg) (SourceInvalid name ''`transport: stdio` requires a non-empty `config.command`'')
          else if transport = ''streamable_http'' then
            (case str_at cfg ''url'' of
               None \<Rightarrow> [SourceInvalid name ''`transport: streamable_http` requires `config.url`'']
             | Some raw \<Rightarrow>
                 (case parse_url raw of
                    Inl e \<Rightarrow> [SourceInvalid name (''MCP `streamable_http` url is invalid: '' @ e)]
                  | Inr url \<Rightarrow>
                      (if u_scheme url = ''https'' then []
                       else if u_scheme url = ''http'' then
                         err_if (\<not> is_loopback url)
                           (SourceInvalid name ''MCP `streamable_http` url must use https unless it targets localhost'')
                       else [SourceInvalid name (''MCP `streamable_http` url has unsupported scheme `'' @ u_scheme url @ ''`'')]) @
                      err_if (au_username url \<noteq> [] \<or> au_password url \<noteq> None)
                        (SourceInvalid name ''MCP `streamable_http` url must not embed credentials; use the `auth` block'')))
          else [SourceInvalid name (''`kind: mcp` transport `'' @ transport @ ''` is not supported (use `stdio` or `streamable_http`)'')])"

definition check_table :: "string \<Rightarrow> string list \<Rightarrow> CfgTableDef \<Rightarrow> ConfigError list" where
  "check_table source seen t =
     err_if (ctd_name t \<in> set seen) (TableInvalid source (ctd_name t) ''duplicate table name'') @
     err_if (ctd_name t = [] \<or> \<not> is_valid_identifier (ctd_name t))
       (TableInvalid source (ctd_name t) ''table name must be a valid SQL identifier'')"

definition check_file :: "CfgSourceDef \<Rightarrow> ConfigError list" where
  "check_file src =
     (let any_table_path = list_ex (\<lambda>t. get_key (ctd_body t) ''path'' \<noteq> None) (cs_tables src) in
      case get_key (cs_config src) ''storage'' of
        Some storage \<Rightarrow>
          err_if (str_at storage ''type'' \<notin> {Some ''s3'', Some ''gcs'', Some ''azure''})
            (SourceInvalid (cs_name src) ''`config.storage.type` must be one of `s3`, `gcs`, `azure`'') @
          err_if (\<not> any_table_path)
            (SourceInvalid (cs_name src) ''object-store `kind: file` requires at least one `tables[]` entry with a `path`'')
      | None \<Rightarrow>
          err_if (str_at (cs_config src) ''path'' = None \<and> \<not> any_table_path)
            (SourceInvalid (cs_name src) ''`kind: file` requires either top-level `config.path` or per-table `path`''))"

definition check_location :: "string \<Rightarrow> CfgTableDef \<Rightarrow> ConfigError list" where
  "check_location source t =
     err_if (str_at_either (ctd_body t) ''path'' ''location'' = None)
       (TableInvalid source (ctd_name t) ''requires a `path` or `location` in its config'')"

definition check_source_kind :: "(string \<Rightarrow> string + AuthUrl) \<Rightarrow> CfgSourceDef \<Rightarrow> ConfigError list" where
  "check_source_kind parse_url src =
     (let name = cs_name src; cfg = cs_config src in
      case cs_kind src of
        KFile \<Rightarrow> check_file src
      | KDuckdb \<Rightarrow> err_if (str_at cfg ''path'' = None) (SourceInvalid name ''`kind: duckdb` requires `config.path` (a .duckdb file)'')
      | KDucklake \<Rightarrow> err_if (str_at cfg ''catalog'' = None) (SourceInvalid name ''`kind: ducklake` requires `config.catalog`'')
      | KSnowflake \<Rightarrow>
          concat (map (\<lambda>key. err_if (str_at cfg key = None) (SourceInvalid name (''`kind: snowflake` requires `config.'' @ key @ ''`'')))
            [''account'', ''user'', ''password''])
      | KMcp \<Rightarrow> validate_mcp parse_url name cfg
      | kind \<Rightarrow>
          if kind \<in> {KPostgres, KMysql} then
            err_if (str_at cfg ''dsn'' = None \<and> (str_at cfg ''host'' = None \<or> str_at_either cfg ''database'' ''dbname'' = None))
              (SourceInvalid name (''`kind: '' @ kind_as_str kind @ ''` requires `config.dsn` or both `config.host` and `config.database`''))
          else if kind \<in> {KIceberg, KDelta} then
            err_if (cs_tables src = [])
              (SourceInvalid name (''`kind: '' @ kind_as_str kind @ ''` requires at least one `tables[]` entry'')) @
            concat (map (check_location name) (cs_tables src))
          else [])"

definition validate_source :: "(string \<Rightarrow> string + AuthUrl) \<Rightarrow> CfgSourceDef \<Rightarrow> ConfigError list" where
  "validate_source parse_url src =
     (if cs_name src = [] then [SourceInvalid ''<unnamed>'' ''source `name:` is required'']
      else err_if (\<not> is_valid_identifier (cs_name src))
        (SourceInvalid (cs_name src) ''source name must be a valid SQL identifier'')) @
     err_if (cs_raw_table src \<and> \<not> is_http_shaped (cs_kind src))
       (SourceInvalid (cs_name src) (''`raw_table: true` is only valid for HTTP-shaped sources; `'' @ kind_as_str (cs_kind src) @
          ''` is not HTTP-shaped'')) @
     each_seen ctd_name (check_table (cs_name src)) [] (cs_tables src) @
     check_source_kind parse_url src"

definition engine_view :: "SourceDef \<Rightarrow> CfgSourceDef" where
  "engine_view def =
     \<lparr>cs_name = so_name def, cs_kind = so_kind def, cs_description = so_description def, cs_wiki = so_wiki def,
      cs_examples = so_examples def, cs_from = None, cs_variables = [], cs_dynamic_vars = [], cs_config = so_config def,
      cs_cache = so_cache def, cs_safety = so_safety def,
      cs_tables = map (\<lambda>t. \<lparr>ctd_name = td_name t, ctd_description = td_description t, ctd_wiki = td_wiki t,
        ctd_body = td_config t, ctd_cache = td_cache t, ctd_safety = td_safety t\<rparr>) (so_tables def),
      cs_functions = [], cs_raw_table = so_raw_table def, cs_raw_table_safety = so_raw_table_safety def\<rparr>"

definition validate_engine_source :: "(string \<Rightarrow> string + AuthUrl) \<Rightarrow> SourceDef \<Rightarrow> ConfigError list" where
  "validate_engine_source parse_url def =
     (let view = engine_view def in
      validate_source parse_url view @
      err_if (cs_kind view = KMcp \<and> str_at (cs_config view) ''transport'' = Some ''stdio'')
        (SourceInvalid (cs_name view) (''`transport: stdio` cannot be added at runtime (it spawns a process on the '' @
           ''server host); declare it in pawrly.yaml instead'')))"


subsection \<open>Functions\<close>

definition is_valid_function_ident :: "string \<Rightarrow> bool" where
  "is_valid_function_ident name \<longleftrightarrow> is_valid_identifier name \<and> \<not> has_sub ''__'' name"

definition is_known_column_type :: "string \<Rightarrow> bool" where
  "is_known_column_type t \<longleftrightarrow>
     to_ascii_lowercase (trim t) \<in>
       {''varchar'', ''string'', ''text'', ''char'', ''int'', ''integer'', ''int32'', ''int64'', ''bigint'', ''long'',
        ''smallint'', ''double'', ''float'', ''float32'', ''float64'', ''real'', ''decimal'', ''numeric'', ''bool'',
        ''boolean'', ''timestamp'', ''datetime'', ''date''}"

function placeholder_names :: "string \<Rightarrow> string list" where
  "placeholder_names template =
     (case split_once (CHR ''{'') template of
        None \<Rightarrow> []
      | Some (_, rest) \<Rightarrow>
          (case split_once (CHR ''}'') rest of
             None \<Rightarrow> []
           | Some (name, rest') \<Rightarrow>
               (if name \<noteq> [] \<and> list_all (\<lambda>c. is_ascii_alphanumeric c \<or> c = CHR ''_'') name then [name] else []) @
               placeholder_names rest'))"
  by pat_completeness auto
termination
  by (relation "measure length") (auto simp: split_once_Some_iff)

declare placeholder_names.simps [simp del]

text \<open>\<open>filter(|s| !s.trim().is_empty())\<close>.\<close>

definition non_blank :: "string option \<Rightarrow> string option" where
  "non_blank s = (case s of Some t \<Rightarrow> if trim t = [] then None else Some t | None \<Rightarrow> None)"

type_synonym push_fn = "string \<Rightarrow> ConfigError"

definition check_arg :: "push_fn \<Rightarrow> string list \<Rightarrow> bool \<Rightarrow> FunctionArg \<Rightarrow> ConfigError list" where
  "check_arg push arg_names optional_seen a =
     err_if (\<not> is_valid_function_ident (fa_name a))
       (push (''argument `'' @ fa_name a @ ''` must be a valid SQL identifier without `__`'')) @
     err_if (fa_name a \<in> set arg_names) (push (''duplicate argument `'' @ fa_name a @ ''`'')) @
     err_if (\<not> is_known_column_type (fa_type a))
       (push (''argument `'' @ fa_name a @ ''` has unknown type `'' @ fa_type a @ ''`'')) @
     err_if (fa_required a \<and> fa_default a \<noteq> None)
       (push (''argument `'' @ fa_name a @ ''` cannot be both `required` and have a `default`'')) @
     err_if (fa_required a \<and> optional_seen)
       (push (''required argument `'' @ fa_name a @ ''` must precede all optional/defaulted arguments''))"

fun check_args :: "push_fn \<Rightarrow> string list \<Rightarrow> bool \<Rightarrow> FunctionArg list \<Rightarrow> ConfigError list" where
  "check_args push arg_names optional_seen [] = []"
| "check_args push arg_names optional_seen (a # as) =
     check_arg push arg_names optional_seen a @
     check_args push (fa_name a # arg_names) (optional_seen \<or> \<not> fa_required a) as"

definition check_return :: "push_fn \<Rightarrow> string list \<Rightarrow> string list \<Rightarrow> FunctionColumn \<Rightarrow> ConfigError list" where
  "check_return push arg_names ret_names c =
     err_if (\<not> is_valid_function_ident (fc_name c))
       (push (''return column `'' @ fc_name c @ ''` must be a valid SQL identifier without `__`'')) @
     err_if (fc_name c \<in> set ret_names) (push (''duplicate return column `'' @ fc_name c @ ''`'')) @
     err_if (\<not> is_known_column_type (fc_type c))
       (push (''return column `'' @ fc_name c @ ''` has unknown type `'' @ fc_type c @ ''`'')) @
     err_if (fc_source c = Some ''arg'' \<and> fc_name c \<notin> set arg_names)
       (push (''return column `'' @ fc_name c @ ''` uses `source: arg` but no argument named `'' @ fc_name c @ ''` is declared''))"

definition body_template :: "json \<Rightarrow> string option" where
  "body_template body =
     (case get_key body ''body'' of
        Some (JStr s) \<Rightarrow> Some s
      | Some (JObj kvs) \<Rightarrow> str_at (JObj kvs) ''template''
      | _ \<Rightarrow> None)"

definition validate_http_function :: "push_fn \<Rightarrow> bool \<Rightarrow> FunctionDecl \<Rightarrow> string list \<Rightarrow> ConfigError list" where
  "validate_http_function push standalone f arg_names =
     (case non_blank (str_at (dl_body f) ''endpoint'') of
        None \<Rightarrow> [push ''http function requires a non-empty `endpoint`'']
      | Some endpoint \<Rightarrow>
          concat (map (\<lambda>name. err_if (name \<notin> set arg_names)
              (push (''`{'' @ name @ ''}` in the http function body names no declared argument'')))
            (placeholder_names endpoint @
              (case body_template (dl_body f) of None \<Rightarrow> [] | Some b \<Rightarrow> placeholder_names b))) @
          err_if (standalone \<and> \<not> (prefix ''http://'' endpoint \<or> prefix ''https://'' endpoint) \<and>
              non_blank (str_at (dl_config f) ''base_url'') = None)
            (push ''standalone http function needs `config.base_url` unless `endpoint` is absolute''))"

definition validate_mcp_function :: "push_fn \<Rightarrow> bool \<Rightarrow> FunctionDecl \<Rightarrow> ConfigError list" where
  "validate_mcp_function push standalone f =
     err_if (non_blank (str_at (dl_body f) ''tool'') = None)
       (push ''mcp function requires a non-empty `tool`'') @
     (if standalone then
        (case str_at (dl_config f) ''transport'' of
           None \<Rightarrow> [push ''standalone mcp function requires `config.transport`'']
         | Some transport \<Rightarrow>
             if transport = ''stdio'' then
               err_if (\<not> has_command (dl_config f))
                 (push ''standalone mcp function with `transport: stdio` requires `config.command`'')
             else if transport = ''streamable_http'' then
               err_if (str_at (dl_config f) ''url'' = None)
                 (push ''standalone mcp function with `transport: streamable_http` requires `config.url`'')
             else [push (''standalone mcp function transport `'' @ transport @ ''` is not supported'')])
      else [])"

definition validate_file_function :: "push_fn \<Rightarrow> FunctionDecl \<Rightarrow> string list \<Rightarrow> ConfigError list" where
  "validate_file_function push f arg_names =
     (case non_blank (str_at (dl_body f) ''path'') of
        None \<Rightarrow> [push ''file function requires a non-empty `path`'']
      | Some path \<Rightarrow>
          concat (map (\<lambda>name. err_if (name \<notin> set arg_names)
              (push (''`{'' @ name @ ''}` in the file function path names no declared argument'')))
            (placeholder_names path)) @
          (case str_at (dl_body f) ''format'' of
             None \<Rightarrow> []
           | Some format \<Rightarrow>
               err_if (to_ascii_lowercase (trim format) \<notin> {''csv'', ''tsv'', ''json'', ''jsonl'', ''ndjson'', ''parquet''})
                 (push (''file function `format: '' @ format @ ''` is not a known format''))))"

definition validate_one_function :: "string \<Rightarrow> FunctionKind \<Rightarrow> bool \<Rightarrow> FunctionDecl \<Rightarrow> ConfigError list" where
  "validate_one_function namespace kind standalone f =
     (let push = FunctionInvalid namespace (dl_name f); arg_names = map fa_name (dl_args f) in
      err_if (\<not> is_valid_function_ident (dl_name f)) (push ''function name must be a valid SQL identifier without `__`'') @
      err_if (\<not> is_valid_function_ident namespace) (push ''namespace must be a valid SQL identifier without `__`'') @
      check_args push [] False (dl_args f) @
      err_if (dl_returns f = []) (push ''`returns:` must declare at least one column'') @
      each_seen fc_name (check_return push arg_names) [] (dl_returns f) @
      (case kind of
         FnHttp \<Rightarrow> validate_http_function push standalone f arg_names
       | FnMcp \<Rightarrow> validate_mcp_function push standalone f
       | FnFile \<Rightarrow> validate_file_function push f arg_names))"


definition check_attached ::
  "CfgSourceDef \<Rightarrow> FunctionKind option \<Rightarrow> (string \<times> string) list \<Rightarrow> FunctionDecl \<Rightarrow> ConfigError list" where
  "check_attached src src_kind seen f =
     (let ns = cs_name src; push = FunctionInvalid ns (dl_name f) in
      err_if (dl_namespace f \<noteq> None) (push ''attached function must not set `namespace`; it is inherited from the source'') @
      err_if (dl_config f \<noteq> JNull) (push ''attached function must not set `config`; it is inherited from the source'') @
      (case src_kind of
         None \<Rightarrow> [push (''functions can only be attached to http, mcp, or file sources; source `'' @ ns @ ''` is `'' @
                     kind_as_str (cs_kind src) @ ''`'')]
       | Some kind \<Rightarrow>
           (case dl_kind f of
              None \<Rightarrow> []
            | Some declared \<Rightarrow> err_if (declared \<noteq> kind)
                (push (''attached function `kind: '' @ fn_kind_as_str declared @ ''` does not match source kind `'' @
                   kind_as_str (cs_kind src) @ ''`''))) @
           err_if (dl_name f \<in> set (map ctd_name (cs_tables src)))
             (push ''function name collides with a table of the same name in this source'') @
           validate_one_function ns kind False f @
           err_if ((ns, dl_name f) \<in> set seen)
             (push ''duplicate function `namespace.name` (also matches a builtin or another declaration)'')))"

fun check_attached_all ::
  "CfgSourceDef \<Rightarrow> (string \<times> string) list \<Rightarrow> FunctionDecl list \<Rightarrow> ConfigError list \<times> (string \<times> string) list" where
  "check_attached_all src seen [] = ([], seen)"
| "check_attached_all src seen (f # fs) =
     (let src_kind = for_source (cs_kind src);
          (rest, seen') = check_attached_all src (if src_kind = None then seen else (cs_name src, dl_name f) # seen) fs in
      (check_attached src src_kind seen f @ rest, seen'))"

fun check_source_functions ::
  "(string \<times> string) list \<Rightarrow> CfgSourceDef list \<Rightarrow> ConfigError list \<times> (string \<times> string) list" where
  "check_source_functions seen [] = ([], seen)"
| "check_source_functions seen (src # srcs) =
     (let (errors, seen') = check_attached_all src seen (cs_functions src);
          (rest, seen'') = check_source_functions seen' srcs in
      (errors @ rest, seen''))"

definition check_standalone ::
  "string list \<Rightarrow> (string \<times> string) list \<Rightarrow> FunctionDecl \<Rightarrow> ConfigError list \<times> (string \<times> string) list" where
  "check_standalone source_names seen f =
     (case dl_namespace f of
        None \<Rightarrow> ([FunctionInvalid ''?'' (dl_name f) ''standalone function requires an explicit `namespace`''], seen)
      | Some ns \<Rightarrow>
          (case dl_kind f of
             None \<Rightarrow> ([FunctionInvalid ns (dl_name f) ''standalone function requires an explicit `kind`''], seen)
           | Some kind \<Rightarrow>
               (err_if (ns \<in> set reserved_function_namespaces)
                  (FunctionInvalid ns (dl_name f) (''namespace `'' @ ns @ ''` is reserved'')) @
                err_if (ns \<in> set source_names)
                  (FunctionInvalid ns (dl_name f) (''namespace `'' @ ns @
                     ''` collides with a source name; attach the function to that source instead'')) @
                validate_one_function ns kind True f @
                err_if ((ns, dl_name f) \<in> set seen)
                  (FunctionInvalid ns (dl_name f) ''duplicate function `namespace.name` (also matches a builtin or another declaration)''),
                (ns, dl_name f) # seen)))"

fun check_standalone_all ::
  "string list \<Rightarrow> (string \<times> string) list \<Rightarrow> FunctionDecl list \<Rightarrow> ConfigError list" where
  "check_standalone_all source_names seen [] = []"
| "check_standalone_all source_names seen (f # fs) =
     (let (errors, seen') = check_standalone source_names seen f in
      errors @ check_standalone_all source_names seen' fs)"

definition validate_functions :: "Config \<Rightarrow> string list \<Rightarrow> ConfigError list" where
  "validate_functions cfg source_names =
     (let (errors, seen) = check_source_functions (map (\<lambda>b. (fd_namespace b, fd_name b)) builtins) (cg_sources cfg) in
      errors @ check_standalone_all source_names seen (cg_functions cfg))"

subsection \<open>The whole configuration\<close>

definition check_config_source :: "(string \<Rightarrow> string + AuthUrl) \<Rightarrow> string list \<Rightarrow> CfgSourceDef \<Rightarrow> ConfigError list" where
  "check_config_source parse_url seen src =
     err_if (cs_name src = ''materialized'')
       (SourceInvalid (cs_name src) ''`materialized` is reserved for materialized tables'') @
     err_if (cs_name src = ''system'') (SourceInvalid (cs_name src) ''`system` is reserved for engine system tables'') @
     err_if (cs_name src \<in> set seen) (SourceInvalid (cs_name src) ''duplicate source name'') @
     validate_source parse_url src"

definition validate :: "(string \<Rightarrow> string + AuthUrl) \<Rightarrow> (string list \<Rightarrow> string list) \<Rightarrow> Config \<Rightarrow> ConfigError list" where
  "validate parse_url key_order cfg =
     err_if (cg_version cfg \<noteq> 1) (UnsupportedVersion (cg_version cfg)) @
     each_seen cs_name (check_config_source parse_url) [] (cg_sources cfg) @
     (let names = map cs_name (cg_sources cfg) in
      (case cg_semantic cfg of
         None \<Rightarrow> []
       | Some semantic \<Rightarrow>
           validate_semantic (sc_models semantic) names @ validate_metrics key_order semantic names) @
      validate_functions cfg names)"


subsection \<open>Accepted functions have names of their own\<close>

definition fn_key :: "FunctionDef \<Rightarrow> string \<times> string" where
  "fn_key d = (fd_namespace d, fd_name d)"

lemma fn_to_engine_sel [simp]:
  "fd_namespace (fn_to_engine f ns kind conn src) = ns" "fd_name (fn_to_engine f ns kind conn src) = dl_name f"
  "fd_kind (fn_to_engine f ns kind conn src) = kind" "fd_args (fn_to_engine f ns kind conn src) = dl_args f"
  "fd_body (fn_to_engine f ns kind conn src) = dl_body f" "fd_returns (fn_to_engine f ns kind conn src) = dl_returns f"
  "fn_key (fn_to_engine f ns kind conn src) = (ns, dl_name f)"
  by (simp_all add: fn_to_engine_def fn_key_def)

text \<open>What acceptance says of one function of the engine.\<close>

definition accepted_function :: "FunctionDef \<Rightarrow> bool" where
  "accepted_function d \<longleftrightarrow> (\<exists>f standalone. validate_one_function (fd_namespace d) (fd_kind d) standalone f = [] \<and>
     dl_name f = fd_name d \<and> dl_args f = fd_args d \<and> dl_body f = fd_body d \<and> dl_returns f = fd_returns d)"

lemma check_attached_Nil:
  "check_attached src (for_source (cs_kind src)) seen f = [] \<Longrightarrow>
   \<exists>kind. for_source (cs_kind src) = Some kind \<and> (cs_name src, dl_name f) \<notin> set seen \<and>
     accepted_function (fn_to_engine f (cs_name src) kind conn s)"
  unfolding accepted_function_def fn_to_engine_sel by (auto simp: check_attached_def Let_def split: option.splits)

lemma check_attached_all_Nil:
  "check_attached_all src seen fs = ([], seen') \<Longrightarrow> distinct seen \<Longrightarrow> cs_functions s = fs \<Longrightarrow> cs_name s = cs_name src \<Longrightarrow>
   cs_kind s = cs_kind src \<Longrightarrow>
   seen' = rev (map fn_key (attached_functions s)) @ seen \<and> distinct seen' \<and>
   length (attached_functions s) = length fs \<and> list_all accepted_function (attached_functions s)"
proof (induction src seen fs arbitrary: s seen' rule: check_attached_all.induct)
  case (1 src seen)
  then show ?case by (simp add: attached_functions_def split: option.split)
next
  case (2 src seen f fs)
  from "2.prems"(1) have hd: "check_attached src (for_source (cs_kind src)) seen f = []"
    and tl: "check_attached_all src (if for_source (cs_kind src) = None then seen else (cs_name src, dl_name f) # seen) fs = ([], seen')"
    by (auto simp: Let_def split: prod.splits)
  from check_attached_Nil [OF hd, of "cs_config s" "Some (cs_name src)"] obtain kind where kind: "for_source (cs_kind src) = Some kind"
    "(cs_name src, dl_name f) \<notin> set seen" "accepted_function (fn_to_engine f (cs_name src) kind (cs_config s) (Some (cs_name src)))"
    by auto
  let ?s = "s\<lparr>cs_functions := fs\<rparr>"
  have run: "check_attached_all src (if for_source (cs_kind src) = None then seen else (cs_name src, dl_name f) # seen) fs = ([], seen')"
    "distinct (if for_source (cs_kind src) = None then seen else (cs_name src, dl_name f) # seen)"
    "cs_functions ?s = fs" "cs_name ?s = cs_name src" "cs_kind ?s = cs_kind src"
    using tl kind(1,2) "2.prems" by simp_all
  have "seen' = rev (map fn_key (attached_functions ?s)) @ (if for_source (cs_kind src) = None then seen else (cs_name src, dl_name f) # seen) \<and>
    distinct seen' \<and> length (attached_functions ?s) = length fs \<and> list_all accepted_function (attached_functions ?s)"
    by (rule "2.IH" [OF refl run])
  with kind(1) have ih: "seen' = rev (map fn_key (attached_functions ?s)) @ (cs_name src, dl_name f) # seen" "distinct seen'"
    "length (attached_functions ?s) = length fs" "list_all accepted_function (attached_functions ?s)" by (simp only: option.distinct if_False, blast)+
  have "attached_functions s = fn_to_engine f (cs_name src) kind (cs_config s) (Some (cs_name src)) # attached_functions ?s"
    using kind(1) "2.prems" by (simp add: attached_functions_def)
  with ih(1,3,4) kind(3) show ?case by (intro conjI ih(2)) simp_all
qed

lemma check_source_functions_Nil:
  "check_source_functions seen srcs = ([], seen') \<Longrightarrow> distinct seen \<Longrightarrow>
   seen' = rev (map fn_key (concat (map attached_functions srcs))) @ seen \<and> distinct seen' \<and>
   length (concat (map attached_functions srcs)) = sum_list (map (length \<circ> cs_functions) srcs) \<and>
   list_all accepted_function (concat (map attached_functions srcs))"
proof (induction seen srcs arbitrary: seen' rule: check_source_functions.induct)
  case (2 seen src srcs)
  from "2.prems"(1) obtain seen1 where hd: "check_attached_all src seen (cs_functions src) = ([], seen1)"
    and tl: "check_source_functions seen1 srcs = ([], seen')"
    by (auto simp: Let_def split: prod.splits)
  from check_attached_all_Nil [OF hd "2.prems"(2) refl refl refl] have one:
    "seen1 = rev (map fn_key (attached_functions src)) @ seen" "distinct seen1"
    "length (attached_functions src) = length (cs_functions src)" "list_all accepted_function (attached_functions src)" by blast+
  from "2.IH" [OF hd [symmetric] refl tl one(2)]
  have ih: "seen' = rev (map fn_key (concat (map attached_functions srcs))) @ seen1" "distinct seen'"
    "length (concat (map attached_functions srcs)) = sum_list (map (length \<circ> cs_functions) srcs)"
    "list_all accepted_function (concat (map attached_functions srcs))" by blast+
  from ih(1,3,4) one(1,3,4) show ?case by (intro conjI ih(2)) (simp_all add: comp_def)
qed simp

lemma check_standalone_Nil:
  "check_standalone names seen f = ([], seen') \<Longrightarrow>
   \<exists>d. standalone_function f = Some d \<and> seen' = fn_key d # seen \<and> fn_key d \<notin> set seen \<and> accepted_function d"
  unfolding accepted_function_def
  by (auto simp: check_standalone_def standalone_function_def fn_key_def fn_to_engine_def split: option.splits)

lemma check_standalone_all_Nil:
  "check_standalone_all names seen fs = [] \<Longrightarrow> distinct seen \<Longrightarrow>
   distinct (rev (map fn_key (List.map_filter standalone_function fs)) @ seen) \<and>
   length (List.map_filter standalone_function fs) = length fs \<and> list_all accepted_function (List.map_filter standalone_function fs)"
proof (induction names seen fs rule: check_standalone_all.induct)
  case (2 names seen f fs)
  from "2.prems"(1) obtain seen' where hd: "check_standalone names seen f = ([], seen')"
    and tl: "check_standalone_all names seen' fs = []" by (auto simp: Let_def split: prod.splits)
  from check_standalone_Nil [OF hd] obtain d where d: "standalone_function f = Some d" "seen' = fn_key d # seen"
    "fn_key d \<notin> set seen" "accepted_function d" by auto
  from "2.IH" [OF hd [symmetric] refl tl] d "2.prems"(2) show ?case by (auto simp: map_filter_simps)
qed (simp add: map_filter_simps)

lemma validate_functions_Nil:
  assumes "validate_functions cfg names = []"
  shows "distinct (map fn_key (builtins @ engine_functions cfg)) \<and> list_all accepted_function (engine_functions cfg) \<and>
    length (engine_functions cfg) = sum_list (map (length \<circ> cs_functions) (cg_sources cfg)) + length (cg_functions cfg)"
proof -
  let ?built = "map fn_key builtins"
  from assms obtain seen where src: "check_source_functions ?built (cg_sources cfg) = ([], seen)"
    and alone: "check_standalone_all names seen (cg_functions cfg) = []"
    by (auto simp: validate_functions_def fn_key_def [abs_def] split: prod.splits)
  have "distinct ?built" by code_simp
  from check_source_functions_Nil [OF src this]
  have 1: "seen = rev (map fn_key (concat (map attached_functions (cg_sources cfg)))) @ ?built" "distinct seen"
    "length (concat (map attached_functions (cg_sources cfg))) = sum_list (map (length \<circ> cs_functions) (cg_sources cfg))"
    "list_all accepted_function (concat (map attached_functions (cg_sources cfg)))" by blast+
  from check_standalone_all_Nil [OF alone 1(2)]
  have 2: "distinct (rev (map fn_key (List.map_filter standalone_function (cg_functions cfg))) @ seen)"
    "length (List.map_filter standalone_function (cg_functions cfg)) = length (cg_functions cfg)"
    "list_all accepted_function (List.map_filter standalone_function (cg_functions cfg))" by blast+
  have "distinct (rev (rev (map fn_key (List.map_filter standalone_function (cg_functions cfg))) @ seen))"
    using 2(1) by (simp only: distinct_rev)
  then have "distinct (rev ?built @ map fn_key (engine_functions cfg))"
    unfolding 1(1) engine_functions_def by (simp only: rev_append rev_rev_ident map_append append_assoc)
  then have "distinct (map fn_key (builtins @ engine_functions cfg))" by (simp add: Int_commute)
  then show ?thesis using 1(3,4) 2(2,3) by (simp add: engine_functions_def)
qed


text \<open>
  C34. When a configuration's functions are accepted, every declared function reaches the engine, no two of them (nor one
  of them and a builtin) have the same namespace and name, and both are identifiers that the text of a call can hold.
\<close>

theorem accepted_functions_unique:
  assumes "validate_functions cfg (map cs_name (cg_sources cfg)) = []"
  shows "length (engine_functions cfg) = sum_list (map (length \<circ> cs_functions) (cg_sources cfg)) + length (cg_functions cfg) \<and>
    distinct (map fn_key (builtins @ engine_functions cfg)) \<and>
    list_all (\<lambda>d. is_valid_function_ident (fd_namespace d) \<and> is_valid_function_ident (fd_name d)) (engine_functions cfg)"
proof -
  have ok: "is_valid_function_ident (fd_namespace d) \<and> is_valid_function_ident (fd_name d)" if "accepted_function d" for d
    using that by (auto simp: accepted_function_def validate_one_function_def Let_def)
  from validate_functions_Nil [OF assms] have 1: "list_all accepted_function (engine_functions cfg)"
    "distinct (map fn_key (builtins @ engine_functions cfg))"
    "length (engine_functions cfg) = sum_list (map (length \<circ> cs_functions) (cg_sources cfg)) + length (cg_functions cfg)" by blast+
  from 1(1) ok show ?thesis by (intro conjI 1(2,3)) (simp add: list_all_iff)
qed

text \<open>A workspace with a file source that has a function, and a function of its own.\<close>

definition logs_decl :: FunctionDecl where
  "logs_decl =
     \<lparr>dl_name = ''list'', dl_namespace = None, dl_kind = None, dl_description = None, dl_wiki = None, dl_examples = [],
      dl_args = [\<lparr>fa_name = ''day'', fa_type = ''varchar'', fa_required = True, fa_default = None, fa_description = None,
                  fa_tool_arg = None\<rparr>,
                 \<lparr>fa_name = ''ext'', fa_type = ''varchar'', fa_required = False, fa_default = Some ''log'', fa_description = None,
                  fa_tool_arg = None\<rparr>],
      dl_returns = [fn_col ''path'' ''varchar''],
      dl_config = JNull, dl_body = JObj [(''path'', JStr ''{day}/*.{ext}'')], dl_cache = NoCache, dl_safety = None\<rparr>"

definition logs_source :: CfgSourceDef where
  "logs_source =
     \<lparr>cs_name = ''logs'', cs_kind = KFile, cs_description = None, cs_wiki = None, cs_examples = [], cs_from = None,
      cs_variables = [], cs_dynamic_vars = [], cs_config = JObj [(''path'', JStr ''/var/log'')], cs_cache = NoCache,
      cs_safety = None, cs_tables = [], cs_functions = [logs_decl], cs_raw_table = False, cs_raw_table_safety = None\<rparr>"

definition logs_config :: Config where
  "logs_config =
     \<lparr>cg_version = 1, cg_sources = [logs_source], cg_semantic = None,
      cg_functions = [logs_decl\<lparr>dl_namespace := Some ''backup'', dl_kind := Some FnFile\<rparr>]\<rparr>"

lemma placeholder_names_logs: "placeholder_names ''{day}/*.{ext}'' = [''day'', ''ext'']"
  by (simp add: placeholder_names.simps is_ascii_alphanumeric_def is_ascii_alphabetic_def is_ascii_lower_def is_ascii_upper_def)

lemma logs_config_accepted: "validate_functions logs_config (map cs_name (cg_sources logs_config)) = []"
  by code_simp

theorem accepted_functions_unique_witness:
  "map fn_key (engine_functions logs_config) = [(''logs'', ''list''), (''backup'', ''list'')] \<and>
   distinct (map fn_key (builtins @ engine_functions logs_config))"
proof
  show "map fn_key (engine_functions logs_config) = [(''logs'', ''list''), (''backup'', ''list'')]" by code_simp
  show "distinct (map fn_key (builtins @ engine_functions logs_config))"
    using accepted_functions_unique [OF logs_config_accepted] by blast
qed

subsection \<open>Calls of accepted functions bind\<close>

lemma check_args_names:
  "check_args push seen opt as = [] \<Longrightarrow>
   distinct (map fa_name as) \<and> fa_name ` set as \<inter> set seen = {} \<and> list_all (\<lambda>a. \<not> (fa_required a \<and> fa_default a \<noteq> None)) as"
  by (induction push seen opt as rule: check_args.induct) (auto simp: check_arg_def)

definition required_first :: "FunctionArg list \<Rightarrow> nat \<Rightarrow> bool" where
  "required_first as k \<longleftrightarrow> k \<le> length as \<and> (\<forall>i < length as. fa_required (as ! i) \<longleftrightarrow> i < k)"

lemma check_args_order:
  "check_args push seen opt as = [] \<Longrightarrow> \<exists>k. required_first as k \<and> (opt \<longrightarrow> k = 0)"
proof (induction push seen opt as rule: check_args.induct)
  case (2 push seen opt a as)
  from "2.prems" have a: "\<not> (fa_required a \<and> opt)"
    and tl: "check_args push (fa_name a # seen) (opt \<or> \<not> fa_required a) as = []" by (auto simp: check_arg_def)
  from "2.IH" [OF tl] obtain k where k: "required_first as k" "opt \<or> \<not> fa_required a \<longrightarrow> k = 0" by auto
  have "required_first (a # as) (if fa_required a then Suc k else 0)"
    using k unfolding required_first_def by (auto simp: nth_Cons')
  moreover have "opt \<longrightarrow> (if fa_required a then Suc k else 0) = 0" using a by simp
  ultimately show ?case by blast
qed (auto simp: required_first_def)

lemma length_filter_prefix:
  "k \<le> length xs \<Longrightarrow> (\<And>i. i < length xs \<Longrightarrow> P (xs ! i) \<longleftrightarrow> i < k) \<Longrightarrow> length (filter P xs) = k"
proof -
  assume k: "k \<le> length xs" and P: "\<And>i. i < length xs \<Longrightarrow> P (xs ! i) \<longleftrightarrow> i < k"
  have "{i. i < length xs \<and> P (xs ! i)} = {..<k}" using k P by auto
  then show ?thesis by (simp add: length_filter_conv_card)
qed

lemma positional_bound:
  "i < length params \<Longrightarrow> i < length args \<Longrightarrow> literal_value sf (args ! i) = Some (Some v) \<Longrightarrow>
   map_of (positional sf params args) (fa_name (params ! i)) \<noteq> None"
proof (induction params arbitrary: i args)
  case (Cons p params)
  then show ?case
    by (cases args; cases i) (auto simp: positional_def map_filter_simps split: option.splits)
qed simp

lemma positional_unbound:
  assumes "distinct (map fa_name params)" "length args \<le> i" "i < length params"
  shows "map_of (positional sf params args) (fa_name (params ! i)) = None"
proof -
  have "zip params args = zip (take (length args) params) args"
    using take_zip [of "length args" params args] by simp
  then have "fst ` set (positional sf params args) \<subseteq> fa_name ` set (take (length args) params)"
    using positional_names [of sf "take (length args) params" args] by (simp add: positional_def)
  moreover have "fa_name (params ! i) \<notin> fa_name ` set (take (length args) params)"
    using assms by (auto simp: in_set_conv_nth distinct_conv_nth)
  ultimately show ?thesis by (auto simp: map_of_eq_None_iff)
qed

lemma default_unbound:
  "distinct (map fa_name params) \<Longrightarrow> p \<in> set params \<Longrightarrow> fa_default p = None \<Longrightarrow> map_of (defaults params) (fa_name p) = None"
  by (auto simp: defaults_def List.map_filter_def map_of_eq_None_iff distinct_map inj_on_def)

text \<open>
  C33. A call of an accepted function whose arguments are literals other than NULL binds whenever it gives at least as many
  arguments as the function requires and at most as many as it has: the counts alone decide.
\<close>

theorem accepted_function_calls_bind:
  assumes "validate_functions cfg (map cs_name (cg_sources cfg)) = []" "def \<in> set (engine_functions cfg)"
    and "list_all (\<lambda>e. case literal_value sf e of Some (Some _) \<Rightarrow> True | _ \<Rightarrow> False) args"
  shows "\<not> isl (bind_args sf def args) \<longleftrightarrow>
    length (filter fa_required (fd_args def)) \<le> length args \<and> length args \<le> length (fd_args def)"
proof -
  let ?ps = "fd_args def"
  from validate_functions_Nil [OF assms(1)] assms(2) have "accepted_function def" by (simp add: list_all_iff)
  then obtain push where "check_args push [] False (fd_args def) = []"
    by (auto simp: accepted_function_def validate_one_function_def Let_def)
  note args = this
  from check_args_names [OF args] have d: "distinct (map fa_name ?ps)"
    and df: "list_all (\<lambda>a. \<not> (fa_required a \<and> fa_default a \<noteq> None)) ?ps" by simp_all
  from check_args_order [OF args] obtain k where "required_first ?ps k" by auto
  then have k: "k \<le> length ?ps" "\<And>i. i < length ?ps \<Longrightarrow> fa_required (?ps ! i) \<longleftrightarrow> i < k" by (auto simp: required_first_def)
  note count = length_filter_prefix [OF k(1), of fa_required, OF k(2)]
  have lit: "\<exists>v. literal_value sf (args ! i) = Some (Some v)" if "i < length args" for i
    using assms(3) [unfolded list_all_length, rule_format, OF that] by (auto split: option.splits)
  have bound: "call_bindings sf ?ps args (fa_name (?ps ! i)) \<noteq> None \<longleftrightarrow> i < length args" if i: "i < length ?ps" "i < k" for i
  proof (cases "i < length args")
    case True
    with positional_bound [OF i(1) True] lit [OF True] show ?thesis by (auto simp: call_bindings_def)
  next
    case False
    from i k(2) df have "fa_default (?ps ! i) = None" by (simp add: list_all_length)
    with default_unbound [OF d nth_mem [OF i(1)]] positional_unbound [OF d _ i(1), of args sf] False show ?thesis
      by (simp add: call_bindings_def map_add_None)
  qed
  show ?thesis
  proof (cases "bind_args sf def args")
    case (Inr b)
    with bind_args_cases [OF d, where sf = sf and args = args] have b: "length args \<le> length ?ps"
      "list_all (\<lambda>p. \<not> fa_required p \<or> call_bindings sf ?ps args (fa_name p) \<noteq> None) ?ps" by auto
    have "k \<le> length args"
    proof (rule ccontr)
      assume "\<not> k \<le> length args"
      with b k bound [of "length args"] show False by (auto simp: list_all_length)
    qed
    with Inr b(1) count show ?thesis by simp
  next
    case (Inl e)
    have "list_ex (\<lambda>e. literal_value sf e = None) args = False" using lit by (force simp: list_ex_length)
    with Inl bind_args_cases [OF d, where sf = sf and args = args]
    have "length ?ps < length args \<or> list_ex (\<lambda>p. fa_required p \<and> call_bindings sf ?ps args (fa_name p) = None) ?ps" by auto
    moreover have "\<exists>i < k. \<not> i < length args" if "list_ex (\<lambda>p. fa_required p \<and> call_bindings sf ?ps args (fa_name p) = None) ?ps"
    proof -
      from that obtain i where "i < length ?ps" "fa_required (?ps ! i)" "call_bindings sf ?ps args (fa_name (?ps ! i)) = None"
        by (auto simp: list_ex_length)
      with k(2) bound [of i] show ?thesis by auto
    qed
    ultimately have "length ?ps < length args \<or> (\<exists>i < k. \<not> i < length args)" by blast
    with Inl count show ?thesis by auto
  qed
qed


theorem accepted_function_calls_bind_witness:
  "length (engine_functions logs_config) = 2 \<and>
   \<not> isl (bind_args show_float (engine_functions logs_config ! 0) [CLiteral (LText ''mon'')]) \<and>
   isl (bind_args show_float (engine_functions logs_config ! 1) [])"
proof -
  have n: "length (engine_functions logs_config) = 2" by code_simp
  have "fd_args (engine_functions logs_config ! 0) = dl_args logs_decl" "fd_args (engine_functions logs_config ! 1) = dl_args logs_decl"
    by code_simp+
  moreover have "length (filter fa_required (dl_args logs_decl)) = 1" "length (dl_args logs_decl) = 2" by code_simp+
  moreover have "literal_value show_float (CLiteral (LText ''mon'')) = Some (Some ''mon'')" by code_simp
  ultimately show ?thesis
    using accepted_function_calls_bind [OF logs_config_accepted nth_mem, of 0, where sf = show_float and args = "[CLiteral (LText ''mon'')]"]
      accepted_function_calls_bind [OF logs_config_accepted nth_mem, of 1, where sf = show_float and args = "[]"] n by simp
qed

subsection \<open>Accepted MCP connections\<close>

definition http_url_ok :: "(string \<Rightarrow> string + AuthUrl) \<Rightarrow> string \<Rightarrow> bool" where
  "http_url_ok parse_url raw =
     (case parse_url raw of
        Inr url \<Rightarrow> (u_scheme url = ''https'' \<or> u_scheme url = ''http'' \<and> is_loopback url) \<and>
          au_username url = [] \<and> au_password url = None
      | Inl _ \<Rightarrow> False)"

definition plan_ok :: "(string \<Rightarrow> string + AuthUrl) \<Rightarrow> TransportPlan \<Rightarrow> bool" where
  "plan_ok parse_url plan =
     (case plan of SpawnStdio program _ _ \<Rightarrow> trim program \<noteq> [] | OpenHttp tr \<Rightarrow> http_url_ok parse_url (ht_url tr))"

lemma has_command_parses:
  "has_command cfg \<Longrightarrow> \<exists>program args. parse_command cfg = Inr (program, args) \<and> trim program \<noteq> []"
  by (auto simp: has_command_def parse_command_def map_filter_simps split: option.splits json.splits list.splits if_splits)

lemma validate_mcp_Nil:
  "validate_mcp parse_url name cfg = [] \<Longrightarrow> \<exists>plan. build_transport name_ok value_ok cfg = Inr plan \<and> plan_ok parse_url plan"
  by (auto simp: validate_mcp_def build_transport_def plan_ok_def http_url_ok_def str_at_def HttpTransport_new_def
      split: option.splits sum.splits if_splits dest!: has_command_parses)

text \<open>
  C32. An accepted MCP source always has a transport, and it is a safe one: a program with a name, or an URL that is https
  (or http to the machine itself) and carries no credentials.  A source accepted at run time never starts a program.
\<close>

theorem accepted_mcp_is_safe:
  assumes "cs_kind src = KMcp" "validate_source parse_url src = []"
  shows "(case build_transport name_ok value_ok (cs_config src) of
      Inr plan \<Rightarrow> plan_ok parse_url plan \<and>
        (case plan of
           SpawnStdio _ _ _ \<Rightarrow> validate_engine_source parse_url (source_to_engine src) \<noteq> []
         | OpenHttp _ \<Rightarrow> True)
    | Inl _ \<Rightarrow> False)"
proof -
  from assms have "validate_mcp parse_url (cs_name src) (cs_config src) = []"
    by (simp add: validate_source_def check_source_kind_def Let_def)
  from validate_mcp_Nil [OF this, of name_ok value_ok] obtain plan
    where plan: "build_transport name_ok value_ok (cs_config src) = Inr plan" "plan_ok parse_url plan" by auto
  have "validate_engine_source parse_url (source_to_engine src) \<noteq> []" if "plan = SpawnStdio p as env" for p as env
    using plan(1) that assms(1)
    by (auto simp: validate_engine_source_def engine_view_def source_to_engine_def build_transport_def str_at_def Let_def
        rbind_eq_Inr ok_or_def split: if_splits option.splits)
  with plan show ?thesis by (simp split: TransportPlan.split)
qed

definition local_url :: "string \<Rightarrow> string + AuthUrl" where
  "local_url raw =
     (if raw = ''http://localhost/mcp''
      then Inr \<lparr>u_text = raw, u_scheme = ''http'', u_host = Some (Domain ''localhost''), u_host_str = Some ''localhost'', u_port = None, au_username = [], au_password = None\<rparr>
      else Inl ''relative URL without a base'')"


definition mcp_source :: "json \<Rightarrow> CfgSourceDef" where
  "mcp_source cfg = logs_source\<lparr>cs_name := ''tools'', cs_kind := KMcp, cs_config := cfg, cs_functions := []\<rparr>"

theorem accepted_mcp_is_safe_witness:
  "plan_ok local_url (OpenHttp (HttpTransport_new ''http://localhost/mcp'' [])) \<and>
   validate_engine_source local_url
     (source_to_engine (mcp_source (JObj [(''transport'', JStr ''stdio''), (''command'', JStr ''gh'')]))) \<noteq> []"
proof -
  let ?http = "mcp_source (JObj [(''transport'', JStr ''streamable_http''), (''url'', JStr ''http://localhost/mcp'')])"
  let ?stdio = "mcp_source (JObj [(''transport'', JStr ''stdio''), (''command'', JStr ''gh'')])"
  have 1: "cs_kind ?http = KMcp" "validate_source local_url ?http = []"
    "build_transport (\<lambda>_. True) (\<lambda>_. True) (cs_config ?http) = Inr (OpenHttp (HttpTransport_new ''http://localhost/mcp'' []))"
    by code_simp+
  have 2: "cs_kind ?stdio = KMcp" "validate_source local_url ?stdio = []"
    "build_transport (\<lambda>_. True) (\<lambda>_. True) (cs_config ?stdio) = Inr (SpawnStdio ''gh'' [] [])"
    by code_simp+
  from accepted_mcp_is_safe [OF 1(1,2), of "\<lambda>_. True" "\<lambda>_. True"] accepted_mcp_is_safe [OF 2(1,2), of "\<lambda>_. True" "\<lambda>_. True"] 1(3) 2(3)
  show ?thesis by simp
qed

text \<open>
  A function of its own is held to less: its connection may be plain HTTP to any host, with a password in the URL.
\<close>

definition open_mcp_function :: FunctionDecl where
  "open_mcp_function =
     logs_decl\<lparr>dl_namespace := Some ''tools'', dl_kind := Some FnMcp, dl_body := JObj [(''tool'', JStr ''list'')],
       dl_config := JObj [(''transport'', JStr ''streamable_http''), (''url'', JStr ''http://bot:pw@example.com/mcp'')]\<rparr>"

lemma standalone_mcp_url_unchecked:
  "check_standalone [] [] open_mcp_function = ([], [(''tools'', ''list'')]) \<and>
   (\<forall>parse_url. parse_url ''http://bot:pw@example.com/mcp'' =
        Inr \<lparr>u_text = ''http://bot:pw@example.com/mcp'', u_scheme = ''http'', u_host = Some (Domain ''example.com''),
          u_host_str = Some ''example.com'', u_port = None, au_username = ''bot'', au_password = Some ''pw''\<rparr> \<longrightarrow>
      length (validate_mcp parse_url ''tools'' (dl_config open_mcp_function)) = 2)"
proof
  show "check_standalone [] [] open_mcp_function = ([], [(''tools'', ''list'')])" by code_simp
  have cfg: "str_at (dl_config open_mcp_function) ''transport'' = Some ''streamable_http''"
    "str_at (dl_config open_mcp_function) ''url'' = Some ''http://bot:pw@example.com/mcp''" by code_simp+
  have "\<not> to_ascii_lowercase ''example.com'' = ''localhost''" by code_simp
  then show "\<forall>parse_url. parse_url ''http://bot:pw@example.com/mcp'' =
        Inr \<lparr>u_text = ''http://bot:pw@example.com/mcp'', u_scheme = ''http'', u_host = Some (Domain ''example.com''),
          u_host_str = Some ''example.com'', u_port = None, au_username = ''bot'', au_password = Some ''pw''\<rparr> \<longrightarrow>
      length (validate_mcp parse_url ''tools'' (dl_config open_mcp_function)) = 2"
    by (auto simp: validate_mcp_def cfg is_loopback_def err_if_def)
qed

text \<open>Of a search's two templates only the path is checked.\<close>

lemma grep_placeholder_unchecked:
  "validate_file_function (FunctionInvalid ''logs'' ''find'')
     (logs_decl\<lparr>dl_body := JObj [(''path'', JStr ''*.log''), (''grep'', JStr ''{patern}'')]\<rparr>) [''pattern''] = []"
  by code_simp

subsection \<open>Accepted sources\<close>

text \<open>
  C35. An accepted configuration has sources whose names are distinct identifiers other than the two schemas the engine
  keeps, and within each of them tables whose names are distinct identifiers.
\<close>

theorem accepted_sources_named:
  assumes "validate parse_url key_order cfg = []"
  shows "cg_version cfg = 1 \<and> distinct (map so_name (into_engine_sources cfg)) \<and>
    list_all (\<lambda>s. is_valid_identifier (so_name s) \<and> so_name s \<notin> {''materialized'', ''system''} \<and>
      distinct (map td_name (so_tables s)) \<and> list_all (\<lambda>t. is_valid_identifier (td_name t)) (so_tables s))
      (into_engine_sources cfg)"
proof -
  from assms have v: "cg_version cfg = 1" and each: "each_seen cs_name (check_config_source parse_url) [] (cg_sources cfg) = []"
    by (simp_all add: validate_def)
  have "distinct (map cs_name (cg_sources cfg))"
    using each_seen_distinct [OF each] by (simp add: check_config_source_def)
  moreover have "is_valid_identifier (cs_name s) \<and> cs_name s \<notin> {''materialized'', ''system''} \<and>
      distinct (map ctd_name (cs_tables s)) \<and> list_all (\<lambda>t. is_valid_identifier (ctd_name t)) (cs_tables s)"
    if "s \<in> set (cg_sources cfg)" for s
  proof -
    from each_seen_Nil [OF each that] obtain seen where ok: "check_config_source parse_url seen s = []" by auto
    then have tables: "each_seen ctd_name (check_table (cs_name s)) [] (cs_tables s) = []"
      and name: "is_valid_identifier (cs_name s)" "cs_name s \<notin> {''materialized'', ''system''}"
      by (auto simp: check_config_source_def validate_source_def split: if_splits)
    have "is_valid_identifier (ctd_name t)" if "t \<in> set (cs_tables s)" for t
      using each_seen_Nil [OF tables that] by (auto simp: check_table_def)
    moreover have "distinct (map ctd_name (cs_tables s))" using each_seen_distinct [OF tables] by (simp add: check_table_def)
    ultimately show ?thesis using name by (simp add: list_all_iff)
  qed
  ultimately show ?thesis
    using v by (simp add: into_engine_sources_def source_to_engine_def table_to_engine_def comp_def list_all_iff)
qed


theorem accepted_sources_named_witness:
  "map so_name (into_engine_sources logs_config) = [''logs''] \<and> is_valid_identifier ''logs'' \<and> cg_version logs_config = 1"
proof -
  have "validate local_url (\<lambda>ks. ks) logs_config = []" by code_simp
  from accepted_sources_named [OF this] show ?thesis
    by (simp add: into_engine_sources_def source_to_engine_def logs_config_def logs_source_def)
qed

end
