(* ===== verification/Spec2Isabelle.thy ===== *)
theory Spec2Isabelle
  imports Sql_Text Time_Grains Join_Graph Semantic_Compiler Rollup Metrics Cache Http_Guard Http_Json Http_Fetch Http_Scan Http_Join
    Config_Semantic Config_Files Functions Config_Validate
begin

text \<open>
  \<^bold>\<open>Pawrly: the semantic layer, the cache and the HTTP source\<close>

  Pawrly answers SQL over heterogeneous sources.  A query of its semantic layer names members of models
  (\<open>orders.revenue\<close>, \<open>customers.city\<close>, \<open>orders.at.month\<close>) or workspace metrics; the layer compiles it to
  SQL text over the sources' tables, which the engine plans and executes.  Tables may be cached on disk as
  Parquet files under a JSON manifest, pre-aggregations of a model are materialized into that cache and are
  read instead of the base table where they can answer the query.  A table of the HTTP source is filled by
  calling a REST endpoint page by page.  This library models the compiler of the semantic layer, its choice of
  rollups, the cache manager, the HTTP source from its address guard to its scans and joins, and the MCP source, all under
  \<open>src/crates\<close>.

  \<^bold>\<open>Theories, and the code they model\<close>

  \<^item> \<open>Prelude\<close>: results (\<open>Result\<close> as a sum, \<open>?\<close> as \<open>rbind\<close>, loops with early return as \<open>rmap\<close>), the string
    functions of the standard library the code calls, hash maps as association lists (\<open>hmap\<close>), and the lemmas
    the components share.
  \<^item> \<open>Semantic_Types\<close>: \<open>pawrly-core/src/semantic.rs\<close> (models, metrics, queries, grains, the tokenizer of
    derived metrics), \<open>safety.rs\<close>, \<open>schema.rs\<close> (\<open>TableName\<close>), and the catalog and errors of
    \<open>pawrly-semantic/src/lib.rs\<close>.  It ends with a small example catalog that the witnesses run on.
  \<^item> \<open>Sql_Text\<close>: the functions of \<open>pawrly-semantic/src/lib.rs\<close> that put caller data into SQL text
    (\<open>quote_ident\<close>, \<open>lit\<close>, \<open>scalar_lit\<close>, \<open>apply_op\<close>, \<open>bind_params\<close>), against a lexer of SQL text as
    specification: literals read back, filters and row-level-security parameters cannot inject code.
  \<^item> \<open>Time_Grains\<close>: \<open>can_roll_up_to\<close> against the civil calendar.
  \<^item> \<open>Join_Graph\<close>: \<open>adjacency\<close>, \<open>reachability\<close> and \<open>needed_models\<close>; the breadth-first search is a total
    function (a measure on unvisited models and the queue), with the panic of an index into the node map as
    \<open>None\<close>; the lemmas show it finds shortest walks, flags ambiguity and fan-out exactly, and that the models
    to join come parents first.  The contract of the search is the locale \<open>join_tree\<close>, extended by \<open>fan_tree\<close>.
  \<^item> \<open>Semantic_Compiler\<close>: member resolution, segments, guard rails, \<open>compile_single\<close> and
    \<open>compile_aggregate_locality\<close>.  A statement is a record of clauses before it is rendered; the properties
    are about the clauses the text is rendered from.
  \<^item> \<open>Rollup\<close>: \<open>rollup.rs\<close> and the rollup part of \<open>lib.rs\<close>: coverage, choice, materialization and rewrite;
    what re-aggregation has to satisfy is the locale \<open>reagg\<close>, the service a covering rollup gives is
    \<open>rollup_service\<close>.
  \<^item> \<open>Metrics\<close>: \<open>metric.rs\<close>, \<open>compile_sql\<close>, \<open>candidate_rollup\<close>, \<open>compile_rollup_sql\<close>.  Expansion of
    metrics recurses along metric references with the stack of names visited; it is total because a name
    never repeats on the stack.  \<open>compile_sql\<close> calls itself through the metric pass; the model bounds that
    recursion by 2, and a theorem shows that every larger bound gives the same result.
  \<^item> \<open>Cache_Policy\<close>, \<open>Cache\<close>: \<open>pawrly-engine/src/cache.rs\<close> with \<open>pawrly-core/src/cache.rs\<close>: manifest, files, write-through,
    materialize, scan, refresh, invalidate, quarantine and vacuum on an explicit disk.  What the operating
    system decides (time, success of a call, fresh names) is an argument.  The operations are the steps of an
    inductive relation over any number of processes that share a directory; its reachable states are well
    formed, and the operations refine updates of one map from tables to contents.  The manifest as a keyed
    store is the locale \<open>keyed_store\<close>.
  \<^item> \<open>Http_Guard\<close>: \<open>guard.rs\<close> of \<open>pawrly-sources/http/src\<close>.  Addresses are 32 and 128 bit words, so the ranges
    the guard refuses are compared with CIDR prefixes; a request with its redirects is the inductive chain
    \<open>redirects\<close>, and every target on it is allowed.
  \<^item> \<open>Http_Json\<close>: paths into JSON and the in-body error checks of \<open>paginate.rs\<close> and \<open>typed.rs\<close>, the column
    reshaping of a response, and the evaluator of \<open>expr.rs\<close>.
  \<^item> \<open>Http_Fetch\<close>: the styles of pagination, the request of a page, the retry loop and \<open>fetch_rows\<close> of
    \<open>typed.rs\<close>.  The URL parser and the network are the arguments \<open>NetLib\<close> and \<open>send\<close>; the loop recurses on the
    pages that remain under the page cap (1000 by default, as in the code), so it is total without fuel.
  \<^item> \<open>Http_Scan\<close>: the rest of \<open>typed.rs\<close>: which filters are pushed down, how they bind parameters, the fan-out of
    \<open>IN\<close> lists, Arrow batches (with \<open>try_new\<close>'s checks), limits, projection and deferral.  The meaning of a filter
    on a row (\<open>holds\<close>) is the specification of the pushdown.  Floats are their 64 bits; the rounding of a decimal
    text to a float and chrono's parsers are the argument \<open>CellLib\<close>.
  \<^item> \<open>Http_Join\<close>: \<open>deferred.rs\<close> and \<open>dependent_join.rs\<close>: the rewrite of a join over a deferred scan, and its
    execution, which refines an inner join of lists of rows.
  \<^item> \<open>Config_Semantic\<close>: the semantic rules of \<open>pawrly-config/src/validator.rs\<close>.  A validation is the list of
    errors it pushes; the search for metric cycles is a depth-first search, total because a metric is never on
    the stack twice.  The lemmas connect the rules to the compiler: what a configuration without errors
    rules out at query time.
  \<^item> \<open>Config_Vars\<close>, \<open>Config_Refs\<close>: \<open>interpolate.rs\<close>, \<open>variables.rs\<close> and the resolving part of \<open>loader.rs\<close>.  The
    tree is a JSON value; the walk threads the bindings and the identities seen.  The second theory shows that
    the walk is a substitution (through the locales \<open>ref_walk\<close> and \<open>sure_walk\<close>, interpreted on the code's step)
    and that resolved values have their declared types.
  \<^item> \<open>Config_Files\<close>: \<open>assemble.rs\<close>: the recursion through \<open>include:\<close>, the bodies loaded by \<open>from:\<close>, the models of
    \<open>semantic.include\<close>, the duplicate checks and the graph of includes, on a file system given as an argument.
    The recursion has fuel, one more than there are files; \<open>assembling_ends\<close> shows that it never runs out.
    What a file contributes to the result is stated by the locale \<open>collect_rule\<close>.
  \<^item> \<open>Sources\<close>: the kinds of sources and functions and their definitions (\<open>model.rs\<close>, \<open>source.rs\<close> and \<open>function.rs\<close> of
    \<open>pawrly-core\<close>), with the built-in functions.
  \<^item> \<open>Json_Schema\<close>: \<open>pawrly-schema\<close>: types of JSON-Schema documents, their references, the array of the rows, merging.
  \<^item> \<open>Mcp_Session\<close>: \<open>transport.rs\<close>, \<open>http.rs\<close>, \<open>stdio.rs\<close> and \<open>session.rs\<close> of \<open>pawrly-sources/mcp\<close>.  A transport is a
    record of two operations on a state of its own; the stdio transport is an inductive step relation of requests and lines
    of the server.  The loop that lists tools has no bound in the code and is a partial function: not returning is \<open>None\<close>.
  \<^item> \<open>Mcp_Source\<close>: \<open>synth.rs\<close>, \<open>provider.rs\<close>, \<open>function.rs\<close> and \<open>register.rs\<close> of the same crate: which tools become
    tables, what a scan sends, the batch it returns.  The loop over pages recurses on the pages left under the page cap.
  \<^item> \<open>Function_Exec\<close>, \<open>Functions\<close>: table-valued functions.  The first has the executors (\<open>function.rs\<close> and \<open>fetch.rs\<close> of
    \<open>pawrly-sources/http\<close>, \<open>functions/file.rs\<close> of \<open>pawrly-engine\<close>), the second the calls of \<open>pawrly-core/src/function.rs\<close> and
    \<open>functions/mod.rs\<close>, \<open>rewrite.rs\<close> and \<open>udtf.rs\<close>: the SQL text of a call, the registry, the rewrite of qualified
    calls, the binding of arguments and the table of a call.
  \<^item> \<open>Config_Validate\<close>: the rest of \<open>validator.rs\<close> and the conversion of a configuration in \<open>types.rs\<close>: the rules for
    sources, MCP connections and functions.  The lemmas connect them to what follows: names without clashes, calls that
    bind, transports that are safe.

  \<^bold>\<open>Conventions\<close>

  A Rust \<open>HashMap\<close> that is iterated is iterated in an arbitrary order: where the order reaches the result,
  the order is the argument \<open>hash_iter\<close>, assumed only to permute.  Strings are lists of characters; members and
  names are compared as such.  \<open>u32\<close>, \<open>u64\<close> and \<open>usize\<close> counters that the code only increments by one per
  model, row or file are natural numbers; the expiry of a cache entry keeps the \<open>i64\<close> bound of the time library.

  \<^bold>\<open>Not modelled\<close>

  Deserialization of configurations and manifests (serde), the execution of the SQL by DataFusion and DuckDB,
  Parquet encoding, sockets and child processes, the command line, the servers, and telemetry: they are I/O, glue
  or other people's code.  Of the cache, the timer loops of the background refreshers, empty directories and
  fsync are left out.  Of the HTTP source, the import of OpenAPI documents, raw tables, authentication,
  rate limiting and logging are left out.
\<close>

end
